(* ===== verification/Prelude.thy ===== *)
theory Prelude
  imports Main "HOL-Library.Word"
begin

text \<open>
  Shared vocabulary of the kunwind development: machine words under the kernel's type names,
  the result type of C code that may run into undefined behaviour, the kernel address space as a
  partial byte map with little-endian loads, and the generic lemmas on words, results and memory
  that the component theories use.

  \<^item> \<open>'a res\<close> is the value of a C expression or call: \<open>Ok\<close> for a defined result and \<open>Fault\<close> for a
    behaviour the C language or the machine does not define (a load from an address that is not
    mapped, an array index out of range, an oversized shift, a division trap, unsequenced side
    effects, the use of a local variable that was never assigned or of an object that was freed),
    or for a loop that has used up its fuel.
  \<^item> \<open>kmem\<close> is the kernel's view of memory: \<open>None\<close> is an address whose direct load oopses.
  \<^item> Pointer arithmetic wraps, as it does in the kernel, which is built with
    \<^verbatim>\<open>-fno-strict-overflow\<close>.
\<close>

unbundle bit_operations_syntax

named_theorems res_simps \<open>unfolding results in the fault monad\<close>
named_theorems mem_safe \<open>facts that an operation keeps its loads inside mapped memory\<close>

section \<open>Machine words\<close>

type_synonym u8 = "8 word"
type_synonym u16 = "16 word"
type_synonym u32 = "32 word"
type_synonym u64 = "64 word"
type_synonym addr = u64

section \<open>Results\<close>

datatype fault =
    BadRead addr   \<comment> \<open>a direct load from an address that is not mapped\<close>
  | BadIndex       \<comment> \<open>an array access outside the array\<close>
  | BadShift       \<comment> \<open>a shift by at least the width of the shifted type\<close>
  | DivTrap        \<comment> \<open>the signed division \<open>LONG_MIN / -1\<close>\<close>
  | Unseq          \<comment> \<open>two unsequenced side effects on one object\<close>
  | Uninit         \<comment> \<open>the value of a variable that was never assigned\<close>
  | Freed          \<comment> \<open>an access to an object that was freed\<close>
  | NoFuel         \<comment> \<open>the loop ran longer than its fuel\<close>

datatype 'a res = Ok 'a | Fault fault

primrec rbind :: "'a res \<Rightarrow> ('a \<Rightarrow> 'b res) \<Rightarrow> 'b res" where
  "rbind (Ok x) f = f x"
| "rbind (Fault e) f = Fault e"

lemma rbind_eq_Ok [res_simps]: "rbind r f = Ok y \<longleftrightarrow> (\<exists>x. r = Ok x \<and> f x = Ok y)"
  by (cases r) simp_all

lemma rbind_eq_Fault [res_simps]:
  "rbind r f = Fault e \<longleftrightarrow> r = Fault e \<or> (\<exists>x. r = Ok x \<and> f x = Fault e)"
  by (cases r) auto

lemma rbind_Ok_right [simp]: "rbind r Ok = r"
  by (cases r) simp_all

lemma rbind_assoc: "rbind (rbind r f) g = rbind r (\<lambda>x. rbind (f x) g)"
  by (cases r) simp_all

lemma rbind_cong [fundef_cong]:
  "r = r' \<Longrightarrow> (\<And>x. r' = Ok x \<Longrightarrow> f x = g x) \<Longrightarrow> rbind r f = rbind r' g"
  by (cases r') simp_all

text \<open>
  \<open>safe\<close> holds of a result that is neither a load from an unmapped address nor a loop out of fuel: these
  two faults and no others. Stated for every memory that maps a range, it says that the operation loads
  from that range only, and ends. A fault of arithmetic, or of an array of the code's own, is \<open>safe\<close> in
  this sense; where such a fault is excluded, a property says so beside \<open>safe\<close>.
\<close>

definition safe :: "'a res \<Rightarrow> bool" where
  "safe r \<longleftrightarrow> r \<noteq> Fault NoFuel \<and> (\<forall>a. r \<noteq> Fault (BadRead a))"

lemma safe_Ok [simp]: "safe (Ok x)"
  by (simp add: safe_def)

lemma safe_Fault [simp]: "safe (Fault e) \<longleftrightarrow> e \<noteq> NoFuel \<and> (\<forall>a. e \<noteq> BadRead a)"
  by (simp add: safe_def)

lemma safe_rbind: "safe r \<Longrightarrow> (\<And>x. r = Ok x \<Longrightarrow> safe (f x)) \<Longrightarrow> safe (rbind r f)"
  by (cases r) simp_all

text \<open>
  \<open>meets P r\<close>: the result is safe, and a defined result satisfies \<open>P\<close>.
  Proofs about the interpreters go through \<open>meets_rbind\<close>, one call at a time.
\<close>

definition meets :: "('a \<Rightarrow> bool) \<Rightarrow> 'a res \<Rightarrow> bool" where
  "meets P r \<longleftrightarrow> safe r \<and> (\<forall>x. r = Ok x \<longrightarrow> P x)"

lemma meets_Ok [simp]: "meets P (Ok x) \<longleftrightarrow> P x"
  by (simp add: meets_def)

lemma meets_Fault [simp]: "meets P (Fault e) \<longleftrightarrow> e \<noteq> NoFuel \<and> (\<forall>a. e \<noteq> BadRead a)"
  by (simp add: meets_def)

lemma meets_rbind: "meets Q r \<Longrightarrow> (\<And>x. Q x \<Longrightarrow> meets P (f x)) \<Longrightarrow> meets P (rbind r f)"
  by (cases r) simp_all

lemma meets_load: "safe r \<Longrightarrow> (\<And>x. meets P (f x)) \<Longrightarrow> meets P (rbind r f)"
  by (cases r) simp_all

lemma meets_rbind_pair:
  "meets (\<lambda>(x, y). Q x y) r \<Longrightarrow> (\<And>x y. Q x y \<Longrightarrow> meets P (f x y)) \<Longrightarrow>
   meets P (rbind r (\<lambda>(x, y). f x y))"
  by (cases r) auto

lemma meets_mono: "meets Q r \<Longrightarrow> (\<And>x. Q x \<Longrightarrow> P x) \<Longrightarrow> meets P r"
  by (auto simp: meets_def)

lemma meets_safe: "meets P r \<Longrightarrow> safe r"
  by (simp add: meets_def)

lemma meets_OkD: "meets P r \<Longrightarrow> r = Ok x \<Longrightarrow> P x"
  by (simp add: meets_def)

text \<open>
  \<open>blames F r\<close>: if the result is a fault, it is one of \<open>F\<close>. \<open>load_fault\<close>: the faults of loads and shifts.
\<close>

definition blames :: "(fault \<Rightarrow> bool) \<Rightarrow> 'a res \<Rightarrow> bool" where
  "blames F r \<longleftrightarrow> (\<forall>e. r = Fault e \<longrightarrow> F e)"

definition load_fault :: "fault \<Rightarrow> bool" where
  "load_fault e \<longleftrightarrow> e = BadShift \<or> (\<exists>a. e = BadRead a)"

lemma blames_Ok [simp]: "blames F (Ok x)" and blames_Fault [simp]: "blames F (Fault e) \<longleftrightarrow> F e"
  by (simp_all add: blames_def)

lemma blames_rbind:
  "blames F r \<Longrightarrow> (\<And>x. r = Ok x \<Longrightarrow> blames F (f x)) \<Longrightarrow> blames F (rbind r f)"
  by (cases r) simp_all

lemma blames_mono: "blames F r \<Longrightarrow> (\<And>e. F e \<Longrightarrow> G e) \<Longrightarrow> blames G r"
  by (simp add: blames_def)

section \<open>Shifts with the width of C's operand types\<close>

definition shl32 :: "u32 \<Rightarrow> u64 \<Rightarrow> u32 res" where
  "shl32 x n = (if n < 32 then Ok (push_bit (unat n) x) else Fault BadShift)"

definition shl64 :: "u64 \<Rightarrow> u64 \<Rightarrow> u64 res" where
  "shl64 x n = (if n < 64 then Ok (push_bit (unat n) x) else Fault BadShift)"

lemma safe_shl32 [simp]: "safe (shl32 x n)"
  by (simp add: shl32_def)

lemma safe_shl64 [simp]: "safe (shl64 x n)"
  by (simp add: shl64_def)

section \<open>Kernel memory\<close>

type_synonym kmem = "addr \<Rightarrow> u8 option"

definition load8 :: "kmem \<Rightarrow> addr \<Rightarrow> u8 res" where
  "load8 m a = (case m a of None \<Rightarrow> Fault (BadRead a) | Some b \<Rightarrow> Ok b)"

fun load_bytes :: "kmem \<Rightarrow> addr \<Rightarrow> nat \<Rightarrow> u8 list res" where
  "load_bytes m a 0 = Ok []"
| "load_bytes m a (Suc n) =
     rbind (load8 m a) (\<lambda>b. rbind (load_bytes m (a + 1) n) (\<lambda>bs. Ok (b # bs)))"

fun le_word :: "u8 list \<Rightarrow> u64" where
  "le_word [] = 0"
| "le_word (b # bs) = ucast b OR push_bit 8 (le_word bs)"

definition load_le :: "kmem \<Rightarrow> addr \<Rightarrow> nat \<Rightarrow> u64 res" where
  "load_le m a n = rbind (load_bytes m a n) (\<lambda>bs. Ok (le_word bs))"

definition load16 :: "kmem \<Rightarrow> addr \<Rightarrow> u16 res" where
  "load16 m a = rbind (load_le m a 2) (\<lambda>w. Ok (ucast w))"

definition load32 :: "kmem \<Rightarrow> addr \<Rightarrow> u32 res" where
  "load32 m a = rbind (load_le m a 4) (\<lambda>w. Ok (ucast w))"

definition load64 :: "kmem \<Rightarrow> addr \<Rightarrow> u64 res" where
  "load64 m a = load_le m a 8"

text \<open>
  A list of bytes as a memory that holds them from a base address on and nothing else; the
  concrete inputs of the witnesses are built with it.
\<close>

definition mem_of :: "addr \<Rightarrow> u8 list \<Rightarrow> kmem" where
  "mem_of base bs a =
     (if unat (a - base) < length bs then Some (bs ! unat (a - base)) else None)"

text \<open>\<open>bytes_at\<close>: the memory holds these bytes from this address on.\<close>

fun bytes_at :: "kmem \<Rightarrow> addr \<Rightarrow> u8 list \<Rightarrow> bool" where
  "bytes_at m a [] \<longleftrightarrow> True"
| "bytes_at m a (b # bs) \<longleftrightarrow> m a = Some b \<and> bytes_at m (a + 1) bs"

lemma bytes_at_append:
  "bytes_at m a (xs @ ys) \<longleftrightarrow> bytes_at m a xs \<and> bytes_at m (a + of_nat (length xs)) ys"
  by (induction xs arbitrary: a) (auto simp: algebra_simps)

lemma load8_Some [simp]: "m a = Some b \<Longrightarrow> load8 m a = Ok b"
  by (simp add: load8_def)

lemma load8_eq_Ok [res_simps]: "load8 m a = Ok b \<longleftrightarrow> m a = Some b"
  by (simp add: load8_def split: option.splits)

lemma load_bytes_at: "bytes_at m a bs \<Longrightarrow> load_bytes m a (length bs) = Ok bs"
  by (induction bs arbitrary: a) auto

text \<open>\<open>mapped m p q\<close>: every address of the half-open range from \<open>p\<close> to \<open>q\<close> is mapped.\<close>

definition mapped :: "kmem \<Rightarrow> addr \<Rightarrow> addr \<Rightarrow> bool" where
  "mapped m p q \<longleftrightarrow> (\<forall>a. p \<le> a \<and> a < q \<longrightarrow> m a \<noteq> None)"

lemma mappedD: "mapped m p q \<Longrightarrow> p \<le> a \<Longrightarrow> a < q \<Longrightarrow> m a \<noteq> None"
  by (simp add: mapped_def)

lemma mapped_sub: "mapped m p q \<Longrightarrow> p \<le> p' \<Longrightarrow> q' \<le> q \<Longrightarrow> mapped m p' q'"
  unfolding mapped_def by (meson order_trans less_le_trans)

lemma safe_load8 [mem_safe]: "m a \<noteq> None \<Longrightarrow> safe (load8 m a)"
  by (auto simp: load8_def split: option.splits)

lemma safe_load8_mapped [mem_safe]: "mapped m p q \<Longrightarrow> p \<le> a \<Longrightarrow> a < q \<Longrightarrow> safe (load8 m a)"
  by (blast intro: safe_load8 dest: mappedD)

section \<open>Addresses below an end pointer\<close>

lemma unat_u64_less: "unat (w::u64) < 2 ^ 64"
  using unsigned_less [of w, where 'a = nat] by simp

lemma unat_Suc_less: "(p::addr) < q \<Longrightarrow> unat (p + 1) = Suc (unat p)"
  by unat_arith

lemma add1_le: "(p::addr) < q \<Longrightarrow> p + 1 \<le> q"
  by (simp add: inc_le)

lemma less_add1: "(p::addr) < q \<Longrightarrow> p < p + 1"
  using unat_Suc_less [of p q] by (simp add: word_less_nat_alt)

lemma unat_diff_add1: "(p::addr) < q \<Longrightarrow> unat (q - (p + 1)) < unat (q - p)"
  using unat_Suc_less [of p q] add1_le [of p q]
  by (simp add: unat_sub word_less_nat_alt order_less_imp_le)

lemma unat_add_nowrap: "unat (p::addr) + n < 2 ^ 64 \<Longrightarrow> unat (p + of_nat n) = unat p + n"
  by (simp add: unat_word_ariths unat_of_nat)

lemma le_add_nowrap: "unat (p::addr) + n < 2 ^ 64 \<Longrightarrow> p \<le> p + of_nat n"
  by (metis le_add1 unat_add_nowrap word_le_nat_alt)

lemma sint_nonneg:
  assumes "unat (w::u64) < 2 ^ 63"
  shows "sint w = int (unat w)"
proof -
  have u: "uint w < 2 ^ 63" using assms by (metis of_nat_less_numeral_power_cancel_iff uint_nat)
  have "sint w = signed_take_bit 63 (uint w)" by (simp add: sint_uint)
  also have "\<dots> = uint w"
    using u by (intro signed_take_bit_int_eq_self) (simp_all add: order_trans [of _ 0])
  finally show ?thesis by simp
qed

lemma sint_le_unat: "sint (w::u64) \<le> int (unat w)"
proof -
  have "sint w = take_bit 64 (uint w) - 2 ^ 64 * of_bool (bit (uint w) 63)"
    by (simp add: sint_uint signed_take_bit_eq_take_bit_minus)
  also have "take_bit 64 (uint w) = uint w" using uint_lt2p [of w] by (simp add: take_bit_int_eq_self_iff)
  finally show ?thesis by simp
qed

lemma safe_load_bytes:
  "(\<And>i. i < n \<Longrightarrow> m (a + of_nat i) \<noteq> None) \<Longrightarrow> safe (load_bytes m a n)"
proof (induction n arbitrary: a)
  case 0
  then show ?case by simp
next
  case (Suc n)
  have "m (a + 1 + of_nat i) \<noteq> None" if "i < n" for i
    using Suc.prems [of "Suc i"] that by (simp add: algebra_simps)
  moreover have "m a \<noteq> None" using Suc.prems [of 0] by simp
  ultimately show ?case
    using Suc.IH [of "a + 1"] by (auto intro!: safe_rbind safe_load8)
qed

lemma safe_load_bytes_mapped [mem_safe]:
  assumes "mapped m p q" "p \<le> a" "unat a + n \<le> unat q"
  shows "safe (load_bytes m a n)"
proof (rule safe_load_bytes)
  fix i assume i: "i < n"
  have lt: "unat a + i < 2 ^ 64"
    using assms(3) i unat_u64_less [of q] by simp
  then have "a \<le> a + of_nat i" by (rule le_add_nowrap)
  moreover have "a + of_nat i < q"
    using assms(3) i lt by (simp add: word_less_nat_alt unat_add_nowrap)
  ultimately show "m (a + of_nat i) \<noteq> None"
    using assms(1,2) mappedD order_trans by blast
qed

lemma blames_load8: "blames load_fault (load8 m a)"
  by (simp add: load8_def load_fault_def split: option.splits)

lemma blames_load_bytes: "blames load_fault (load_bytes m a n)"
  by (induction n arbitrary: a) (auto intro!: blames_rbind blames_load8)

lemma blames_load_le: "blames load_fault (load_le m a n)"
  by (auto simp: load_le_def intro!: blames_rbind blames_load_bytes)

lemma safe_load_le_mapped [mem_safe]:
  "mapped m p q \<Longrightarrow> p \<le> a \<Longrightarrow> unat a + n \<le> unat q \<Longrightarrow> safe (load_le m a n)"
  by (auto simp: load_le_def intro!: safe_rbind safe_load_bytes_mapped)

section \<open>Fields of any size\<close>

text \<open>The little-endian bytes of a field, and what a load of them gives.\<close>

definition le_bytes :: "nat \<Rightarrow> u64 \<Rightarrow> u8 list" where
  "le_bytes n x = map (\<lambda>i. ucast (drop_bit (8 * i) x)) [0..<n]"

lemma length_le_bytes [simp]: "length (le_bytes n x) = n"
  by (simp add: le_bytes_def)

lemma le_bytes_Suc: "le_bytes (Suc n) x = ucast x # le_bytes n (drop_bit 8 x)"
  by (simp add: le_bytes_def map_upt_Suc add.commute del: upt_Suc)

lemma le_word_le_bytes: "le_word (le_bytes n x) = take_bit (8 * n) x"
proof (induction n arbitrary: x)
  case (Suc n)
  have "le_word (le_bytes (Suc n) x) = ucast (ucast x :: u8) OR push_bit 8 (take_bit (8 * n) (drop_bit 8 x))"
    by (simp add: le_bytes_Suc Suc.IH)
  also have "\<dots> = take_bit (8 * Suc n) x"
    by (rule bit_word_eqI) (auto simp: bit_simps)
  finally show ?case .
qed (simp add: le_bytes_def)

lemma load_le_bytes: "bytes_at m p (le_bytes n x) \<Longrightarrow> load_le m p n = Ok (take_bit (8 * n) x)"
  using load_bytes_at [of m p "le_bytes n x"] le_word_le_bytes [of n x] by (simp add: load_le_def)

section \<open>32-bit fields\<close>

text \<open>The little-endian bytes of a 32-bit field, and what a load of them gives.\<close>

definition w32 :: "u32 \<Rightarrow> u8 list" where
  "w32 x = [ucast x, ucast (drop_bit 8 x), ucast (drop_bit 16 x), ucast (drop_bit 24 x)]"

lemma le_word_w32: "le_word (w32 x) = ucast x"
proof (rule bit_word_eqI)
  fix n assume "n < LENGTH(64)"
  consider "n < 8" | "8 \<le> n" "n < 16" | "16 \<le> n" "n < 24" | "24 \<le> n" by linarith
  then show "bit (le_word (w32 x)) n = bit (ucast x :: u64) n"
    by cases (auto simp: w32_def bit_simps dest: bit_imp_le_length)
qed

lemma length_w32 [simp]: "length (w32 x) = 4"
  by (simp add: w32_def)

lemma load_le_w32:
  assumes "bytes_at m p (w32 x)"
  shows "load_le m p 4 = Ok (ucast x)"
  using load_bytes_at [OF assms] le_word_w32 [of x] by (simp add: load_le_def)

lemma signed_take_bit_ucast32: "signed_take_bit 31 (ucast (x::u32) :: u64) = scast x"
  by (rule bit_word_eqI) (auto simp: bit_simps min_def)

lemma unat_ucast_le: "unat (ucast (y :: u64) :: u32) \<le> unat y"
  by (simp add: unsigned_ucast_eq)

lemma unat_le_scast: "unat (x :: u32) \<le> unat (scast x :: u64)"
proof -
  have "ucast (scast x :: u64) = x" by (rule bit_word_eqI) (simp add: bit_unsigned_iff bit_signed_iff)
  then show ?thesis using unat_ucast_le [of "scast x"] by simp
qed

end
