(* ===== verification/Leb128.thy ===== *)
theory Leb128
  imports Prelude
begin

text \<open>
  The LEB128 readers of \<^verbatim>\<open>src/unwind.c\<close>: \<open>get_uleb128\<close> and \<open>get_sleb128\<close>, with the byte cursor they
  advance returned beside the value. A reader that meets an encoding too large for its result
  leaves the cursor one byte past the end of its buffer; its callers take that as the error.
\<close>

section \<open>The readers\<close>

text \<open>
  The loop condition's \<open>1U << (8 * sizeof(value) - shift)\<close> is a 32-bit shift whose count is
  computed in \<open>size_t\<close>; \<open>low_overflows\<close> is the second operand of the \<open>&&\<close>.
\<close>

definition low_overflows :: "u8 \<Rightarrow> u64 \<Rightarrow> bool res" where
  "low_overflows b shift =
     (if shift + 7 > 64
      then rbind (shl32 1 (64 - shift)) (\<lambda>limit. Ok (limit \<le> ucast (b AND 0x7f)))
      else Ok False)"

function uleb_loop :: "kmem \<Rightarrow> addr \<Rightarrow> addr \<Rightarrow> u64 \<Rightarrow> u64 \<Rightarrow> (u64 \<times> addr) res" where
  "uleb_loop m lim cur shift value =
     (if cur < lim
      then rbind (load8 m cur) (\<lambda>b.
           rbind (low_overflows b shift) (\<lambda>big.
             if big then Ok (value, lim + 1)
             else rbind (shl64 (ucast (b AND 0x7f)) shift) (\<lambda>chunk.
                    if b AND 0x80 = 0 then Ok (value OR chunk, cur + 1)
                    else uleb_loop m lim (cur + 1) (shift + 7) (value OR chunk))))
      else Ok (value, cur))"
  by pat_completeness auto
termination
  by (relation "measure (\<lambda>(m, lim, cur, shift, value). unat (lim - cur))")
    (auto simp: unat_diff_add1)

declare uleb_loop.simps [simp del]

definition get_uleb128 :: "kmem \<Rightarrow> addr \<Rightarrow> addr \<Rightarrow> (u64 \<times> addr) res" where
  "get_uleb128 m cur lim = uleb_loop m lim cur 0 0"

text \<open>
  In \<open>get_sleb128\<close> the sign extension \<open>-(cur_val & 0x40) << shift\<close> is computed in the 32-bit
  type \<open>int\<close> and only then widened to 64 bits; \<open>sign_bits\<close> keeps that width.
\<close>

definition sign_bits :: "u8 \<Rightarrow> u64 \<Rightarrow> u64 res" where
  "sign_bits b shift = rbind (shl32 (- ucast (b AND 0x40)) shift) (\<lambda>s. Ok (scast s))"

function sleb_loop :: "kmem \<Rightarrow> addr \<Rightarrow> addr \<Rightarrow> u64 \<Rightarrow> u64 \<Rightarrow> (u64 \<times> addr) res" where
  "sleb_loop m lim cur shift value =
     (if cur < lim
      then rbind (load8 m cur) (\<lambda>b.
           rbind (low_overflows b shift) (\<lambda>big.
             if big then Ok (value, lim + 1)
             else rbind (shl64 (ucast (b AND 0x7f)) shift) (\<lambda>chunk.
                    if b AND 0x80 = 0
                    then rbind (sign_bits b shift) (\<lambda>s. Ok (value OR chunk OR s, cur + 1))
                    else sleb_loop m lim (cur + 1) (shift + 7) (value OR chunk))))
      else Ok (value, cur))"
  by pat_completeness auto
termination
  by (relation "measure (\<lambda>(m, lim, cur, shift, value). unat (lim - cur))")
    (auto simp: unat_diff_add1)

declare sleb_loop.simps [simp del]

definition get_sleb128 :: "kmem \<Rightarrow> addr \<Rightarrow> addr \<Rightarrow> (u64 \<times> addr) res" where
  "get_sleb128 m cur lim = sleb_loop m lim cur 0 0"

section \<open>Loads and the cursor\<close>

lemma safe_low_overflows [simp]: "safe (low_overflows b s)"
  by (simp add: low_overflows_def safe_rbind)

lemma safe_sign_bits [simp]: "safe (sign_bits b s)"
  by (simp add: sign_bits_def safe_rbind)

lemma mapped_step: "mapped m cur lim \<Longrightarrow> cur < lim \<Longrightarrow> mapped m (cur + 1) lim"
  using less_add1 mapped_sub order_less_imp_le by blast

lemma blames_shifts: "blames load_fault (low_overflows b s)" "blames load_fault (shl64 w s)"
  "blames load_fault (sign_bits b s)"
  by (auto simp: low_overflows_def sign_bits_def shl32_def shl64_def load_fault_def intro!: blames_rbind)

lemma blames_uleb_loop: "blames load_fault (uleb_loop m lim cur s v)"
proof (induction m lim cur s v rule: uleb_loop.induct)
  case (1 m lim cur s v)
  then show ?case
    by (subst uleb_loop.simps) (auto intro!: blames_rbind blames_load8 blames_shifts)
qed

lemma blames_sleb_loop: "blames load_fault (sleb_loop m lim cur s v)"
proof (induction m lim cur s v rule: sleb_loop.induct)
  case (1 m lim cur s v)
  then show ?case
    by (subst sleb_loop.simps) (auto intro!: blames_rbind blames_load8 blames_shifts)
qed

lemma blames_leb: "blames load_fault (get_uleb128 m cur lim)" "blames load_fault (get_sleb128 m cur lim)"
  by (simp_all add: get_uleb128_def get_sleb128_def blames_uleb_loop blames_sleb_loop)

lemma safe_uleb_loop: "mapped m cur lim \<Longrightarrow> safe (uleb_loop m lim cur s v)"
proof (induction m lim cur s v rule: uleb_loop.induct)
  case (1 m lim cur s v)
  have "mapped m (cur + 1) lim" if "cur < lim" using "1.prems" that by (rule mapped_step)
  with "1" show ?case
    by (subst uleb_loop.simps) (auto intro!: safe_rbind safe_load8_mapped)
qed

lemma safe_sleb_loop: "mapped m cur lim \<Longrightarrow> safe (sleb_loop m lim cur s v)"
proof (induction m lim cur s v rule: sleb_loop.induct)
  case (1 m lim cur s v)
  have "mapped m (cur + 1) lim" if "cur < lim" using "1.prems" that by (rule mapped_step)
  with "1" show ?case
    by (subst sleb_loop.simps) (auto intro!: safe_rbind safe_load8_mapped)
qed

lemma safe_get_uleb128 [mem_safe]: "mapped m cur lim \<Longrightarrow> safe (get_uleb128 m cur lim)"
  by (simp add: get_uleb128_def safe_uleb_loop)

lemma safe_get_sleb128 [mem_safe]: "mapped m cur lim \<Longrightarrow> safe (get_sleb128 m cur lim)"
  by (simp add: get_sleb128_def safe_sleb_loop)

text \<open>
  Where a reader may leave the cursor: one past the end on an oversized encoding, and otherwise
  strictly further on and not past the end (or where it was, when it started at the end).
\<close>

definition leb_cursor :: "addr \<Rightarrow> addr \<Rightarrow> addr \<Rightarrow> bool" where
  "leb_cursor cur lim p \<longleftrightarrow>
     p = lim + 1 \<or> (if cur < lim then cur < p \<and> p \<le> lim else p = cur)"

lemma leb_cursor_end [simp]: "leb_cursor cur lim (lim + 1)"
  by (simp add: leb_cursor_def)

lemma leb_cursor_step: "cur < lim \<Longrightarrow> leb_cursor cur lim (cur + 1)"
  using less_add1 [of cur lim] add1_le [of cur lim] by (auto simp: leb_cursor_def)

lemma leb_cursor_rec: "cur < lim \<Longrightarrow> leb_cursor (cur + 1) lim p \<Longrightarrow> leb_cursor cur lim p"
  using less_add1 [of cur lim] add1_le [of cur lim]
  by (auto simp: leb_cursor_def split: if_splits)

lemma uleb_loop_cursor: "uleb_loop m lim cur s v = Ok (w, p) \<Longrightarrow> leb_cursor cur lim p"
proof (induction m lim cur s v rule: uleb_loop.induct)
  case (1 m lim cur s v)
  show ?case
  proof (cases "cur < lim")
    case True
    have IH: "leb_cursor cur lim p"
      if "load8 m cur = Ok b" "low_overflows b s = Ok False"
        "shl64 (ucast (b AND 0x7f)) s = Ok c" "b AND 0x80 \<noteq> 0"
        "uleb_loop m lim (cur + 1) (s + 7) (v OR c) = Ok (w, p)" for b c
      using "1.IH" [OF True, of b False c] that leb_cursor_rec [OF True] by simp
    show ?thesis
      using "1.prems" True IH unfolding uleb_loop.simps [of m lim cur s v]
      by (auto simp: rbind_eq_Ok leb_cursor_step split: if_splits)
  qed (use "1.prems" in \<open>simp add: uleb_loop.simps leb_cursor_def\<close>)
qed

lemma sleb_loop_cursor: "sleb_loop m lim cur s v = Ok (w, p) \<Longrightarrow> leb_cursor cur lim p"
proof (induction m lim cur s v rule: sleb_loop.induct)
  case (1 m lim cur s v)
  show ?case
  proof (cases "cur < lim")
    case True
    have IH: "leb_cursor cur lim p"
      if "load8 m cur = Ok b" "low_overflows b s = Ok False"
        "shl64 (ucast (b AND 0x7f)) s = Ok c" "b AND 0x80 \<noteq> 0"
        "sleb_loop m lim (cur + 1) (s + 7) (v OR c) = Ok (w, p)" for b c
      using "1.IH" [OF True, of b False c] that leb_cursor_rec [OF True] by simp
    show ?thesis
      using "1.prems" True IH unfolding sleb_loop.simps [of m lim cur s v]
      by (auto simp: rbind_eq_Ok leb_cursor_step split: if_splits)
  qed (use "1.prems" in \<open>simp add: sleb_loop.simps leb_cursor_def\<close>)
qed

lemma get_uleb128_cursor: "get_uleb128 m cur lim = Ok (w, p) \<Longrightarrow> leb_cursor cur lim p"
  unfolding get_uleb128_def by (rule uleb_loop_cursor)

lemma get_sleb128_cursor: "get_sleb128 m cur lim = Ok (w, p) \<Longrightarrow> leb_cursor cur lim p"
  unfolding get_sleb128_def by (rule sleb_loop_cursor)

text \<open>
  What the interpreters rely on: a reader loads nothing outside its buffer, moves the cursor forward, and
  leaves it at most one byte past the end.
\<close>

locale leb_reader =
  fixes rd :: "kmem \<Rightarrow> addr \<Rightarrow> addr \<Rightarrow> (u64 \<times> addr) res"
  assumes rd_safe: "mapped m cur lim \<Longrightarrow> safe (rd m cur lim)"
    and rd_cursor: "rd m cur lim = Ok (w, p) \<Longrightarrow> leb_cursor cur lim p"
begin

lemma meets_near:
  assumes "mapped m p lim" "unat p \<le> unat lim + 1" "unat lim + 1 < 2 ^ 64"
  shows "meets (\<lambda>(v, q). p \<le> q \<and> unat q \<le> unat lim + 1) (rd m p lim)"
proof -
  have "unat (lim + 1) = unat lim + 1" using assms(3) unat_add_nowrap [of lim 1] by simp
  then show ?thesis
    using rd_safe [OF assms(1)] assms(2)
    by (auto simp: meets_def leb_cursor_def word_le_nat_alt word_less_nat_alt dest!: rd_cursor split: if_splits)
qed

end

interpretation uleb: leb_reader get_uleb128
  by unfold_locales (rule safe_get_uleb128, assumption, rule get_uleb128_cursor)

interpretation sleb: leb_reader get_sleb128
  by unfold_locales (rule safe_get_sleb128, assumption, rule get_sleb128_cursor)

section \<open>Definedness\<close>

lemma uleb_loop_total:
  assumes "mapped m cur lim" "cur \<le> lim" "unat (lim - cur) \<le> 10 - k" "k \<le> 10"
  shows "\<exists>w p. uleb_loop m lim cur (of_nat (7 * k)) v = Ok (w, p)"
  using assms
proof (induction "10 - k" arbitrary: cur k v)
  case 0
  then have "cur = lim"
    by (metis diff_0_right diff_diff_eq2 le_zero_eq eq_iff_diff_eq_0 unsigned_eq_0_iff)
  then show ?case by (simp add: uleb_loop.simps)
next
  case (Suc d)
  then have "k < 10" by simp
  then have k: "k \<in> {0, 1, 2, 3, 4, 5, 6, 7, 8, 9}" by auto
  show ?case
  proof (cases "cur < lim")
    case True
    obtain b where b: "m cur = Some b" using Suc.prems(1) True by (auto simp: mapped_def)
    have "\<exists>big. low_overflows b (of_nat (7 * k)) = Ok big"
      using k by (auto simp: low_overflows_def shl32_def)
    then obtain big where big: "low_overflows b (of_nat (7 * k)) = Ok big" by blast
    obtain c where c: "shl64 (ucast (b AND 0x7f)) (of_nat (7 * k)) = Ok c"
      using k by (auto simp: shl64_def)
    have "\<exists>w p. uleb_loop m lim (cur + 1) (of_nat (7 * Suc k)) u = Ok (w, p)" for u
    proof (rule Suc.hyps(1))
      show "unat (lim - (cur + 1)) \<le> 10 - Suc k"
        using unat_diff_add1 [OF True] Suc.prems(3) by simp
    qed (use Suc.hyps(2) k True add1_le mapped_step [OF Suc.prems(1)] in auto)
    then show ?thesis
      using True b big c by (subst uleb_loop.simps) (simp add: algebra_simps)
  qed (simp add: uleb_loop.simps)
qed

section \<open>Encodings\<close>

text \<open>The canonical ULEB128 and SLEB128 encodings that compilers emit.\<close>

fun uleb_enc :: "nat \<Rightarrow> u8 list" where
  "uleb_enc n =
     (if n < 128 then [of_nat n] else (of_nat (n mod 128) OR 0x80) # uleb_enc (n div 128))"

declare uleb_enc.simps [simp del]

function sleb_enc :: "int \<Rightarrow> u8 list" where
  "sleb_enc v =
     (if v div 128 = 0 \<and> v mod 128 < 64 \<or> v div 128 = -1 \<and> 64 \<le> v mod 128
      then [of_nat (nat (v mod 128))]
      else (of_nat (nat (v mod 128)) OR 0x80) # sleb_enc (v div 128))"
  by pat_completeness auto
termination
  by (relation "measure (\<lambda>v. nat (if 0 \<le> v then 2 * v else - 2 * v - 1))") (auto, presburger+)

declare sleb_enc.simps [simp del]

lemma u8_7bit:
  assumes "k < 128"
  shows "(of_nat k :: u8) AND 0x7f = of_nat k" "(of_nat k :: u8) AND 0x80 = 0"
    "(of_nat k OR 0x80 :: u8) AND 0x7f = of_nat k" "(of_nat k OR 0x80 :: u8) AND 0x80 \<noteq> 0"
    "ucast (of_nat k :: u8) = (of_nat k :: u64)"
    "ucast (of_nat k :: u8) = (of_nat k :: u32)"
proof -
  have k: "take_bit 7 k = k" using assms by (simp add: take_bit_eq_mod)
  have b: "bit k i \<Longrightarrow> i < 7" for i using k by (metis bit_take_bit_iff)
  have m: "(0x7f :: u8) = mask 7" by (simp add: mask_eq_exp_minus_1)
  have h: "bit (0x80 :: u8) n \<longleftrightarrow> n = 7" for n
    using bit_exp_iff [where 'a = u8, of 7 n] by (auto dest: bit_imp_le_length)
  have h': "bit (0x80 :: int) n \<longleftrightarrow> n = 7" for n
    using bit_exp_iff [where 'a = int, of 7 n] by auto
  show "(of_nat k :: u8) AND 0x7f = of_nat k"
    unfolding m by (rule bit_word_eqI) (auto simp: bit_simps dest: b)
  show "(of_nat k :: u8) AND 0x80 = 0"
    by (rule bit_word_eqI) (auto simp: bit_simps h h' dest: b)
  show "(of_nat k OR 0x80 :: u8) AND 0x7f = of_nat k"
    unfolding m by (rule bit_word_eqI) (auto simp: bit_simps h h' dest: b)
  have "bit ((of_nat k OR 0x80 :: u8) AND 0x80) 7" by (simp add: bit_simps h)
  then show "(of_nat k OR 0x80 :: u8) AND 0x80 \<noteq> 0" by auto
  show "ucast (of_nat k :: u8) = (of_nat k :: u64)"
    by (rule bit_word_eqI) (auto simp: bit_simps dest: b)
  show "ucast (of_nat k :: u8) = (of_nat k :: u32)"
    by (rule bit_word_eqI) (auto simp: bit_simps dest: b)
qed

lemma u8_bit6:
  assumes "k < 128"
  shows "(of_nat k :: u8) AND 0x40 = (if 64 \<le> k then 0x40 else 0)"
proof -
  have "k div 64 = (if 64 \<le> k then 1 else 0)"
    using assms by (auto intro: div_nat_eqI)
  then have k: "bit k 6 \<longleftrightarrow> 64 \<le> k" by (simp add: bit_iff_odd)
  have h: "bit (0x40 :: u8) n \<longleftrightarrow> n = 6" for n
    using bit_exp_iff [where 'a = u8, of 6 n] by (auto dest: bit_imp_le_length)
  have h': "bit (0x40 :: int) n \<longleftrightarrow> n = 6" for n
    using bit_exp_iff [where 'a = int, of 6 n] by auto
  show ?thesis by (rule bit_word_eqI) (auto simp: bit_simps h h' k)
qed

lemma of_nat_split7: "(of_nat n :: u64) = of_nat (n mod 128) OR push_bit 7 (of_nat (n div 128))"
proof -
  have e: "n mod 128 = take_bit 7 n" "n div 128 = drop_bit 7 n"
    by (simp_all add: take_bit_eq_mod drop_bit_eq_div)
  show ?thesis unfolding e by (rule bit_word_eqI) (auto simp: bit_simps)
qed

lemma of_int_split7:
  "(of_int v :: u64) = of_nat (nat (v mod 128)) OR push_bit 7 (of_int (v div 128))"
proof -
  have "of_nat (nat (v mod 128)) = (of_int (take_bit 7 v) :: u64)" "v div 128 = drop_bit 7 v"
    by (simp_all add: take_bit_eq_mod drop_bit_eq_div)
  then show ?thesis by simp (rule bit_word_eqI, auto simp: bit_simps)
qed

lemma of_int_join7:
  "k < 128 \<Longrightarrow> (of_int (128 * w + int k) :: u64) = of_nat k OR push_bit 7 (of_int w)"
  using of_int_split7 [of "128 * w + int k"] by simp

section \<open>Round trips\<close>

lemma uleb_loop_last:
  assumes "m p = Some (of_nat k)" "k < 128" "p < lim"
    "low_overflows (of_nat k) (of_nat s) = Ok False" "s < 64"
  shows "uleb_loop m lim p (of_nat s) acc = Ok (acc OR push_bit s (of_nat k), p + 1)"
  using assms u8_7bit [OF assms(2)]
  by (simp add: uleb_loop.simps [of m lim p] shl64_def word_less_nat_alt unat_of_nat)

lemma uleb_loop_more:
  assumes "m p = Some (of_nat k OR 0x80)" "k < 128" "p < lim" "s + 7 \<le> 64"
  shows "uleb_loop m lim p (of_nat s) acc =
    uleb_loop m lim (p + 1) (of_nat (s + 7)) (acc OR push_bit s (of_nat k))"
proof -
  have "\<not> 64 < of_nat s + (7 :: u64)" "of_nat s < (64 :: u64)"
    using assms(4) by (simp_all add: word_less_nat_alt unat_word_ariths unat_of_nat)
  then show ?thesis
    using assms u8_7bit [OF assms(2)]
    by (simp add: uleb_loop.simps [of m lim p] shl64_def low_overflows_def unat_of_nat)
qed

lemma sleb_loop_last:
  assumes "m p = Some (of_nat k)" "k < 128" "p < lim" "s \<le> 28"
  shows "sleb_loop m lim p (of_nat s) acc =
    Ok (acc OR push_bit s (of_nat k) OR
          (if 64 \<le> k then scast (push_bit s (- 64 :: u32)) else 0), p + 1)"
proof -
  have "\<not> 64 < of_nat s + (7 :: u64)" "of_nat s < (64 :: u64)" "of_nat s < (32 :: u64)"
    using assms(4) by (simp_all add: word_less_nat_alt unat_word_ariths unat_of_nat)
  then show ?thesis
    using assms u8_7bit [OF assms(2)] u8_bit6 [OF assms(2)]
    by (simp add: sleb_loop.simps [of m lim p] shl64_def low_overflows_def unat_of_nat
        sign_bits_def shl32_def)
qed

lemma sleb_loop_more:
  assumes "m p = Some (of_nat k OR 0x80)" "k < 128" "p < lim" "s + 7 \<le> 64"
  shows "sleb_loop m lim p (of_nat s) acc =
    sleb_loop m lim (p + 1) (of_nat (s + 7)) (acc OR push_bit s (of_nat k))"
proof -
  have "\<not> 64 < of_nat s + (7 :: u64)" "of_nat s < (64 :: u64)"
    using assms(4) by (simp_all add: word_less_nat_alt unat_word_ariths unat_of_nat)
  then show ?thesis
    using assms u8_7bit [OF assms(2)]
    by (simp add: sleb_loop.simps [of m lim p] shl64_def low_overflows_def unat_of_nat)
qed

lemma uleb_loop_enc:
  assumes "bytes_at m p (uleb_enc n)" "unat p + length (uleb_enc n) \<le> unat lim"
    "s \<in> {0, 7, 14, 21, 28, 35, 42, 49, 56, 63}" "n < 2 ^ (64 - s)"
  shows "uleb_loop m lim p (of_nat s) acc =
    Ok (acc OR push_bit s (of_nat n), p + of_nat (length (uleb_enc n)))"
  using assms
proof (induction n arbitrary: p s acc rule: uleb_enc.induct)
  case (1 n)
  have pe: "p < lim"
    using "1.prems"(2) by (simp add: word_less_nat_alt uleb_enc.simps [of n] split: if_splits)
  show ?case
  proof (cases "n < 128")
    case True
    then have enc: "uleb_enc n = [of_nat n]" by (simp add: uleb_enc.simps)
    have n2: "s = 63 \<Longrightarrow> n = 0 \<or> n = 1" using "1.prems"(4) by auto
    have "low_overflows (of_nat n) (of_nat s) = Ok False"
      using "1.prems"(3) n2 by (auto simp: low_overflows_def shl32_def word_le_nat_alt)
    then show ?thesis
      using uleb_loop_last [of m p n lim s acc] "1.prems"(1,3) True pe by (auto simp: enc)
  next
    case False
    let ?b = "of_nat (n mod 128) OR 0x80 :: u8"
    have enc: "uleb_enc n = ?b # uleb_enc (n div 128)"
      using False by (simp add: uleb_enc.simps [of n])
    have s56: "s \<in> {0, 7, 14, 21, 28, 35, 42, 49, 56}" using "1.prems"(3,4) False by auto
    have "uleb_loop m lim p (of_nat s) acc =
        uleb_loop m lim (p + 1) (of_nat (s + 7)) (acc OR push_bit s (of_nat (n mod 128)))"
      using "1.prems"(1) s56 pe by (intro uleb_loop_more) (auto simp: enc)
    also have "\<dots> = Ok ((acc OR push_bit s (of_nat (n mod 128))) OR
        push_bit (s + 7) (of_nat (n div 128)), p + 1 + of_nat (length (uleb_enc (n div 128))))"
      by (rule "1.IH" [OF False])
        (use "1.prems" s56 unat_Suc_less [OF pe] in \<open>auto simp: enc\<close>)
    finally show ?thesis
      by (simp add: enc or.assoc of_nat_split7 [of n] push_bit_push_bit algebra_simps)
  qed
qed

text \<open>
  What the reader makes of an \<open>int\<close>-wide sign extension: below \<open>- 2 ^ 27\<close> the sign bits fall
  outside the 32 bits of \<open>int\<close>, and the value read is \<open>2 ^ 35\<close> too large.
\<close>

definition sleb_lost :: "int \<Rightarrow> int" where
  "sleb_lost x = (if x < - (2 ^ 27) then 2 ^ 35 else 0)"

lemma sleb_lost_nonneg: "0 \<le> x \<Longrightarrow> sleb_lost x = 0"
  by (simp add: sleb_lost_def)

lemma or_neg64:
  assumes "64 \<le> k" "k < 128"
  shows "(of_nat k :: u64) OR - 64 = of_int (int k - 128)"
proof -
  obtain j where j: "k = 64 + j" using assms(1) le_Suc_ex by blast
  have k: "int k = 64 + take_bit 6 (int k)"
    using assms(2) unfolding j by (simp add: take_bit_eq_mod)
  have n: "(- 64 :: u64) = NOT (mask 6)" by (simp add: mask_eq_exp_minus_1)
  have "int k - 128 = take_bit 6 (int k) + NOT (mask 6)"
    using k by (simp add: mask_eq_exp_minus_1)
  also have "\<dots> = take_bit 6 (int k) OR NOT (mask 6)"
    by (rule disjunctive_add_eq_or) (auto simp: bit_eq_iff bit_simps)
  finally have r: "int k - 128 = take_bit 6 (int k) OR NOT (mask 6)" .
  show ?thesis unfolding n r by (rule bit_word_eqI) (auto simp: bit_simps)
qed

lemma sleb_last_value:
  assumes "k < 128" "s \<in> {0, 7, 14, 21, 28::nat}" "v = (if 64 \<le> k then int k - 128 else int k)"
  shows "push_bit s (of_nat k :: u64) OR (if 64 \<le> k then scast (push_bit s (- 64 :: u32)) else 0) =
    push_bit s (of_int (v + sleb_lost (v * 2 ^ s) div 2 ^ s))"
proof (cases "64 \<le> k")
  case True
  show ?thesis
  proof (cases "s = 28")
    case s: True
    have "v * 2 ^ s < - (2 ^ 27)" using True assms(1,3) s by simp
    then show ?thesis using True assms(3) s by (simp add: sleb_lost_def)
  next
    case s: False
    then have "sleb_lost (v * 2 ^ s) = 0"
      using True assms by (auto simp: sleb_lost_def)
    moreover have "scast (push_bit s (- 64 :: u32)) = (push_bit s (- 64) :: u64)"
      using assms(2) s by auto
    ultimately show ?thesis
      using True assms(3) or_neg64 [OF True assms(1)] by (simp flip: push_bit_or)
  qed
next
  case False
  then show ?thesis using assms(3) by (simp add: sleb_lost_nonneg)
qed

lemma sleb_lost_step:
  assumes "s \<in> {0, 7, 14, 21::nat}"
    "\<not> (v div 128 = 0 \<and> v mod 128 < 64 \<or> v div 128 = -1 \<and> 64 \<le> v mod 128)"
  shows "v + sleb_lost (v * 2 ^ s) div 2 ^ s =
    128 * (v div 128 + sleb_lost (v div 128 * 2 ^ (s + 7)) div 2 ^ (s + 7)) + v mod 128"
proof -
  define q r where "q = v div 128" and "r = v mod 128"
  have v: "v = 128 * q + r" "0 \<le> r" "r < 128" by (simp_all add: q_def r_def)
  show ?thesis
    using assms v(2,3) unfolding q_def [symmetric] r_def [symmetric]
    unfolding v(1) by (auto simp: sleb_lost_def)
qed

lemma sleb_one_byte:
  assumes "- 64 \<le> v" "v < (64::int)"
  shows "v div 128 = 0 \<and> v mod 128 < 64 \<or> v div 128 = - 1 \<and> 64 \<le> v mod 128"
proof (cases "0 \<le> v")
  case False
  have "(v + 128) div 128 = 0" "(v + 128) mod 128 = v + 128"
    using assms(1) False by (simp_all add: div_pos_pos_trivial mod_pos_pos_trivial del: mod_add_self2 div_add_self2)
  then show ?thesis using assms(1) by simp
qed (use assms in simp)

lemma sleb_loop_enc:
  assumes "bytes_at m p (sleb_enc v)" "unat p + length (sleb_enc v) \<le> unat lim"
    "s \<in> {0, 7, 14, 21, 28::nat}" "- (2 ^ 34) \<le> v * 2 ^ s" "v * 2 ^ s < 2 ^ 34"
  shows "sleb_loop m lim p (of_nat s) acc =
    Ok (acc OR push_bit s (of_int (v + sleb_lost (v * 2 ^ s) div 2 ^ s)),
        p + of_nat (length (sleb_enc v)))"
  using assms
proof (induction v arbitrary: p s acc rule: sleb_enc.induct)
  case (1 v)
  define k where "k = nat (v mod 128)"
  have k: "k < 128" "int k = v mod 128" by (simp_all add: k_def)
  have pe: "p < lim"
    using "1.prems"(2) by (simp add: word_less_nat_alt sleb_enc.simps [of v] split: if_splits)
  show ?case
  proof (cases "v div 128 = 0 \<and> v mod 128 < 64 \<or> v div 128 = -1 \<and> 64 \<le> v mod 128")
    case True
    then have enc: "sleb_enc v = [of_nat k]" by (simp add: sleb_enc.simps k_def)
    have "v = 128 * (v div 128) + int k" using k(2) by simp
    moreover have "v div 128 = (if 64 \<le> k then - 1 else 0)" using True k(2) by auto
    ultimately have v: "v = (if 64 \<le> k then int k - 128 else int k)" by presburger
    show ?thesis
      using sleb_loop_last [of m p k lim s acc] sleb_last_value [OF k(1) "1.prems"(3) v]
        "1.prems"(1,3) k pe by (auto simp: enc or.assoc)
  next
    case False
    have enc: "sleb_enc v = (of_nat k OR 0x80) # sleb_enc (v div 128)"
      unfolding sleb_enc.simps [of v] k_def by (rule if_not_P [OF False])
    have "s \<noteq> 28" using "1.prems"(4,5) False sleb_one_byte [of v] by auto
    then have s21: "s \<in> {0, 7, 14, 21}" using "1.prems"(3) by simp
    have "sleb_loop m lim p (of_nat s) acc =
        sleb_loop m lim (p + 1) (of_nat (s + 7)) (acc OR push_bit s (of_nat k))"
      using "1.prems"(1) s21 pe k(1) by (intro sleb_loop_more) (auto simp: enc)
    also have "\<dots> = Ok ((acc OR push_bit s (of_nat k)) OR push_bit (s + 7)
        (of_int (v div 128 + sleb_lost (v div 128 * 2 ^ (s + 7)) div 2 ^ (s + 7))),
        p + 1 + of_nat (length (sleb_enc (v div 128))))"
      by (rule "1.IH" [OF False])
        (use "1.prems" s21 unat_Suc_less [OF pe] in \<open>auto simp: enc\<close>)
    finally show ?thesis
      unfolding sleb_lost_step [OF s21 False] k(2) [symmetric] of_int_join7 [OF k(1)]
      by (simp add: enc or.assoc push_bit_push_bit add.commute)
  qed
qed

section \<open>Properties\<close>

text \<open>
  C18. Unsigned LEB128 round trip: \<open>get_uleb128\<close> on the standard encoding of any 64-bit number, inside
  the buffer, returns that number and leaves the cursor just behind the encoding.
\<close>

theorem uleb_round_trip:
  assumes "bytes_at m cur (uleb_enc n)" "unat cur + length (uleb_enc n) \<le> unat lim" "n < 2 ^ 64"
  shows "get_uleb128 m cur lim = Ok (of_nat n, cur + of_nat (length (uleb_enc n)))"
  using uleb_loop_enc [OF assms(1,2), of 0 0] assms(3) by (simp add: get_uleb128_def)

theorem uleb_round_trip_witness:
  "get_uleb128 (mem_of 0x1000 [0xe5, 0x8e, 0x26]) 0x1000 0x1003 = Ok (624485, 0x1003)"
proof -
  have e: "uleb_enc 624485 = [0xe5, 0x8e, 0x26]" by (simp add: uleb_enc.simps)
  show ?thesis
    using uleb_round_trip [of "mem_of 0x1000 [0xe5, 0x8e, 0x26]" "0x1000" 624485 "0x1003"]
    by (simp add: e mem_of_def)
qed

text \<open>
  C19. Signed LEB128 round trip: \<open>get_sleb128\<close> on the standard encoding of a number from \<open>- 2 ^ 27\<close> up to
  \<open>2 ^ 34\<close> (exclusive) returns that number and leaves the cursor just behind the encoding.
\<close>

theorem sleb_round_trip:
  assumes "bytes_at m cur (sleb_enc v)" "unat cur + length (sleb_enc v) \<le> unat lim"
    "- (2 ^ 27) \<le> v" "v < 2 ^ 34"
  shows "get_sleb128 m cur lim = Ok (of_int v, cur + of_nat (length (sleb_enc v)))"
  using sleb_loop_enc [OF assms(1,2), of 0 0] assms(3,4) by (simp add: get_sleb128_def sleb_lost_def)

theorem sleb_round_trip_witness:
  "get_sleb128 (mem_of 0x1000 [0x80, 0x7f]) 0x1000 0x1002 = Ok (- 128, 0x1002)"
proof -
  have e: "sleb_enc (- 128) = [0x80, 0x7f]" by (simp add: sleb_enc.simps)
  show ?thesis
    using sleb_round_trip [of "mem_of 0x1000 [0x80, 0x7f]" "0x1000" "- 128" "0x1002"] by (simp add: e mem_of_def)
qed

text \<open>
  C20. The sign extension of \<open>get_sleb128\<close> is computed in 32 bits: a number from \<open>- 2 ^ 34\<close> up to
  \<open>- 2 ^ 27\<close> (exclusive), whose encoding has five bytes, comes back \<open>2 ^ 35\<close> too large.
\<close>

theorem sleb_sign_lost:
  assumes "bytes_at m cur (sleb_enc v)" "unat cur + length (sleb_enc v) \<le> unat lim"
    "- (2 ^ 34) \<le> v" "v < - (2 ^ 27)"
  shows "get_sleb128 m cur lim = Ok (of_int (v + 2 ^ 35), cur + of_nat (length (sleb_enc v)))"
  using sleb_loop_enc [OF assms(1,2), of 0 0] assms(3,4) by (simp add: get_sleb128_def sleb_lost_def)

theorem sleb_sign_lost_witness:
  "get_sleb128 (mem_of 0x1000 [0x80, 0x80, 0x80, 0x80, 0x7f]) 0x1000 0x1005 = Ok (0x7f0000000, 0x1005)"
proof -
  have e: "sleb_enc (- 268435456) = [0x80, 0x80, 0x80, 0x80, 0x7f]" by (simp add: sleb_enc.simps)
  show ?thesis
    using sleb_sign_lost [of "mem_of 0x1000 [0x80, 0x80, 0x80, 0x80, 0x7f]" "0x1000" "- 268435456" "0x1005"]
    by (simp add: e mem_of_def)
qed

text \<open>
  \<open>get_uleb128\<close> returns, with no undefined behaviour, whatever the bytes are, from every buffer
  that is mapped and at most ten bytes long.
\<close>

lemma uleb_defined:
  assumes "mapped m cur lim" "cur \<le> lim" "unat (lim - cur) \<le> 10"
  shows "\<exists>v p. get_uleb128 m cur lim = Ok (v, p)"
  using uleb_loop_total [OF assms(1,2), of 0] assms(3) by (simp add: get_uleb128_def)

end
