(* ===== verification/Eh_Pointer.thy ===== *)
theory Eh_Pointer
  imports Leb128
begin

text \<open>
  The encoded pointers of \<^verbatim>\<open>.eh_frame\<close> and \<^verbatim>\<open>.eh_frame_hdr\<close>: the encoding bytes of
  \<^verbatim>\<open>src/unwind/unwind.h\<close>, the guarded access to another address space
  \<^verbatim>\<open>_stp_read_address\<close>, and the decoders \<open>read_ptr_sect\<close> and \<open>read_pointer\<close> of
  \<^verbatim>\<open>src/unwind.c\<close>, on a 64-bit kernel. A decoder returns the value beside the cursor; every error
  return of the C code is the value \<open>0\<close> with the cursor unmoved.
\<close>

section \<open>Encodings\<close>

definition DW_EH_PE_absptr :: u32 where "DW_EH_PE_absptr = 0x00"
definition DW_EH_PE_leb128 :: u32 where "DW_EH_PE_leb128 = 0x01"
definition DW_EH_PE_data2 :: u32 where "DW_EH_PE_data2 = 0x02"
definition DW_EH_PE_data4 :: u32 where "DW_EH_PE_data4 = 0x03"
definition DW_EH_PE_data8 :: u32 where "DW_EH_PE_data8 = 0x04"
definition DW_EH_PE_FORM :: u32 where "DW_EH_PE_FORM = 0x07"
definition DW_EH_PE_signed :: u32 where "DW_EH_PE_signed = 0x08"
definition DW_EH_PE_pcrel :: u32 where "DW_EH_PE_pcrel = 0x10"
definition DW_EH_PE_textrel :: u32 where "DW_EH_PE_textrel = 0x20"
definition DW_EH_PE_datarel :: u32 where "DW_EH_PE_datarel = 0x30"
definition DW_EH_PE_ADJUST :: u32 where "DW_EH_PE_ADJUST = 0x70"
definition DW_EH_PE_indirect :: u32 where "DW_EH_PE_indirect = 0x80"
definition DW_EH_PE_omit :: u32 where "DW_EH_PE_omit = 0xff"

lemmas DW_EH_PE_defs =
  DW_EH_PE_absptr_def DW_EH_PE_leb128_def DW_EH_PE_data2_def DW_EH_PE_data4_def
  DW_EH_PE_data8_def DW_EH_PE_FORM_def DW_EH_PE_signed_def DW_EH_PE_pcrel_def
  DW_EH_PE_textrel_def DW_EH_PE_datarel_def DW_EH_PE_ADJUST_def DW_EH_PE_indirect_def
  DW_EH_PE_omit_def

section \<open>Access to user memory\<close>

datatype mm_segment = USER_DS | KERNEL_DS

text \<open>
  The kernel's \<open>access_ok\<close> and \<open>__get_user\<close> are parameters: the first decides whether a range
  belongs to the segment, the second reads an object of the given size, zero-extended, or fails.
\<close>

record uaccess =
  access_ok :: "mm_segment \<Rightarrow> addr \<Rightarrow> nat \<Rightarrow> bool"
  get_user :: "nat \<Rightarrow> addr \<Rightarrow> u64 option"

text \<open>
  The macro checks the size of the destination, an \<open>unsigned long\<close> at each of its uses, and
  reads the size of the pointee. \<open>None\<close> is \<open>-EFAULT\<close>; \<open>get_fs\<close> and \<open>set_fs\<close> leave the segment
  as it was.
\<close>

definition stp_read_address :: "uaccess \<Rightarrow> mm_segment \<Rightarrow> nat \<Rightarrow> addr \<Rightarrow> u64 option" where
  "stp_read_address ua seg n ptr =
     (if \<not> access_ok ua seg ptr 8 then None else get_user ua n ptr)"

definition user_segment :: "bool \<Rightarrow> mm_segment" where
  "user_segment user = (if user then USER_DS else KERNEL_DS)"

section \<open>The decoders\<close>

definition read_fixed :: "kmem \<Rightarrow> addr \<Rightarrow> addr \<Rightarrow> nat \<Rightarrow> bool \<Rightarrow> (u64 \<times> addr) option res" where
  "read_fixed m p lim n sx =
     (if lim < p + of_nat n then Ok None
      else rbind (load_le m p n) (\<lambda>w.
        Ok (Some (if sx then signed_take_bit (8 * n - 1) w else w, p + of_nat n))))"

definition read_leb :: "kmem \<Rightarrow> addr \<Rightarrow> addr \<Rightarrow> bool \<Rightarrow> (u64 \<times> addr) option res" where
  "read_leb m p lim sx =
     rbind (if sx then get_sleb128 m p lim else get_uleb128 m p lim) (\<lambda>(v, p').
       Ok (if lim < p' then None else Some (v, p')))"

text \<open>The first \<open>switch\<close>: the form of the value; \<open>None\<close> is an early \<open>return 0\<close>.\<close>

definition read_form ::
  "kmem \<Rightarrow> addr \<Rightarrow> addr \<Rightarrow> u32 \<Rightarrow> bool \<Rightarrow> int \<Rightarrow> (u64 \<times> addr) option res" where
  "read_form m p lim ptrType compat_task tableSize =
     (let form = ptrType AND DW_EH_PE_FORM;
          sx = ptrType AND DW_EH_PE_signed \<noteq> 0
      in if form = DW_EH_PE_data2 then read_fixed m p lim 2 sx
         else if form = DW_EH_PE_data4 \<and> (\<not> compat_task \<or> (compat_task \<and> (tableSize = 4 \<or> tableSize = 0)))
           then read_fixed m p lim 4 sx
         else if form = DW_EH_PE_data4 \<or> form = DW_EH_PE_data8 \<or> form = DW_EH_PE_absptr
           then read_fixed m p lim (if compat_task then 4 else 8) False
         else if form = DW_EH_PE_leb128 then read_leb m p lim sx
         else Ok None)"

text \<open>The second \<open>switch\<close>: what the value is relative to.\<close>

definition adjust_ptr :: "u32 \<Rightarrow> addr \<Rightarrow> u64 \<Rightarrow> u64 \<Rightarrow> u64 \<Rightarrow> u64 option" where
  "adjust_ptr ptrType loc textAddr dataAddr v =
     (let adj = ptrType AND DW_EH_PE_ADJUST
      in if adj = DW_EH_PE_absptr then Some v
         else if adj = DW_EH_PE_pcrel then Some (v + loc)
         else if adj = DW_EH_PE_textrel then Some (v + textAddr)
         else if adj = DW_EH_PE_datarel then Some (v + dataAddr)
         else None)"

definition read_ptr_sect ::
  "kmem \<Rightarrow> uaccess \<Rightarrow> addr \<Rightarrow> addr \<Rightarrow> u32 \<Rightarrow> u64 \<Rightarrow> u64 \<Rightarrow> bool \<Rightarrow> bool \<Rightarrow> int \<Rightarrow> (u64 \<times> addr) res"
where
  "read_ptr_sect m ua pLoc lim ptrType textAddr dataAddr user compat_task tableSize =
     (if sint ptrType < 0 \<or> ptrType = DW_EH_PE_omit then Ok (0, pLoc)
      else rbind (read_form m pLoc lim ptrType compat_task tableSize) (\<lambda>r.
        case r of
          None \<Rightarrow> Ok (0, pLoc)
        | Some (v, p) \<Rightarrow>
           (case adjust_ptr ptrType pLoc textAddr dataAddr v of
              None \<Rightarrow> Ok (0, pLoc)
            | Some w \<Rightarrow>
               if ptrType AND DW_EH_PE_indirect = 0 then Ok (w, p)
               else (case stp_read_address ua (user_segment user) 8 w of
                       None \<Rightarrow> Ok (0, pLoc)
                     | Some x \<Rightarrow> Ok (x, p)))))"

definition read_pointer ::
  "kmem \<Rightarrow> uaccess \<Rightarrow> addr \<Rightarrow> addr \<Rightarrow> u32 \<Rightarrow> bool \<Rightarrow> bool \<Rightarrow> (u64 \<times> addr) res" where
  "read_pointer m ua pLoc lim ptrType user compat_task =
     read_ptr_sect m ua pLoc lim ptrType 0 0 user compat_task 0"

lemma read_fixed_w32:
  assumes "bytes_at m p (w32 x)" "unat p + 4 < 2 ^ 64" "p + 4 \<le> lim"
  shows "read_fixed m p lim 4 sx = Ok (Some (if sx then scast x else ucast x, p + 4))"
  using assms load_le_w32 [OF assms(1)] by (simp add: read_fixed_def signed_take_bit_ucast32 not_less)

section \<open>Loads and the cursor\<close>

lemma read_fixed_nowrap:
  assumes "unat (p::addr) + n < 2 ^ 64" "\<not> lim < p + of_nat n"
  shows "unat p + n \<le> unat lim"
  using assms(2) unat_add_nowrap [OF assms(1)] by (simp add: word_less_nat_alt)

lemma safe_read_fixed:
  assumes "mapped m p lim" "unat p + n < 2 ^ 64"
  shows "safe (read_fixed m p lim n sx)"
  using assms read_fixed_nowrap [OF assms(2)]
  by (auto simp: read_fixed_def intro!: safe_rbind safe_load_le_mapped)

lemma safe_read_leb: "mapped m p lim \<Longrightarrow> safe (read_leb m p lim sx)"
  by (auto simp: read_leb_def intro!: safe_rbind mem_safe)

lemma safe_read_form:
  "mapped m p lim \<Longrightarrow> unat p + 8 < 2 ^ 64 \<Longrightarrow> safe (read_form m p lim ty compat_task ts)"
  by (auto simp: read_form_def Let_def intro!: safe_read_fixed safe_read_leb)

lemma safe_read_ptr_sect [mem_safe]:
  "mapped m p lim \<Longrightarrow> unat p + 8 < 2 ^ 64 \<Longrightarrow>
   safe (read_ptr_sect m ua p lim ty ta da user compat_task ts)"
  unfolding read_ptr_sect_def
  by (auto intro!: safe_rbind safe_read_form split: option.splits)

lemma safe_read_pointer [mem_safe]:
  "mapped m p lim \<Longrightarrow> unat p + 8 < 2 ^ 64 \<Longrightarrow> safe (read_pointer m ua p lim ty user compat_task)"
  unfolding read_pointer_def by (rule safe_read_ptr_sect)

text \<open>
  \<open>fwd\<close>: a cursor that has moved forward and not past the end. The decoders leave the cursor
  where it was or move it so.
\<close>

definition fwd :: "addr \<Rightarrow> addr \<Rightarrow> addr \<Rightarrow> bool" where
  "fwd p lim q \<longleftrightarrow> p < q \<and> q \<le> lim"

lemma read_fixed_fwd:
  assumes "read_fixed m p lim n sx = Ok (Some (v, q))" "unat p + n < 2 ^ 64" "0 < n"
  shows "fwd p lim q"
proof -
  have q: "q = p + of_nat n" and "\<not> lim < p + of_nat n"
    using assms(1) by (auto simp: read_fixed_def rbind_eq_Ok split: if_splits)
  moreover have "p < p + of_nat n"
    using assms(3) unat_add_nowrap [OF assms(2)] by (simp add: word_less_nat_alt)
  ultimately show ?thesis by (simp add: fwd_def not_less)
qed

lemma read_leb_fwd:
  assumes "read_leb m p lim sx = Ok (Some (v, q))" "p < lim" "lim < lim + 1"
  shows "fwd p lim q"
proof -
  have "leb_cursor p lim q" "q \<le> lim"
    using assms(1)
    by (auto simp: read_leb_def rbind_eq_Ok not_less split: if_splits
        dest: get_uleb128_cursor get_sleb128_cursor)
  then show ?thesis using assms(2,3) by (auto simp: leb_cursor_def fwd_def)
qed

lemma read_form_fwd:
  assumes "read_form m p lim ty compat_task ts = Ok (Some (v, q))"
    "unat p + 8 < 2 ^ 64" "p < lim" "lim < lim + 1"
  shows "fwd p lim q"
  using assms
  by (auto simp: read_form_def Let_def intro: read_fixed_fwd read_leb_fwd split: if_splits)

lemma read_ptr_sect_cases:
  assumes "read_ptr_sect m ua p lim ty ta da user compat_task ts = Ok (v, q)"
  shows "q = p \<and> v = 0 \<or> (\<exists>w. read_form m p lim ty compat_task ts = Ok (Some (w, q)))"
proof (cases "sint ty < 0 \<or> ty = DW_EH_PE_omit")
  case False
  then obtain r where r: "read_form m p lim ty compat_task ts = Ok r"
    using assms(1) by (auto simp: read_ptr_sect_def rbind_eq_Ok)
  show ?thesis
  proof (cases r)
    case (Some a)
    then obtain w p' where a: "r = Some (w, p')" by (cases a) simp
    then have "q = p \<and> v = 0 \<or> q = p'"
      using assms(1) False r by (auto simp: read_ptr_sect_def split: option.splits if_splits)
    with r a show ?thesis by auto
  qed (use assms(1) False r in \<open>simp add: read_ptr_sect_def\<close>)
qed (use assms(1) in \<open>simp add: read_ptr_sect_def\<close>)

lemma read_ptr_sect_fwd:
  assumes "read_ptr_sect m ua p lim ty ta da user compat_task ts = Ok (v, q)"
    "unat p + 8 < 2 ^ 64" "p < lim" "lim < lim + 1"
  shows "q = p \<and> v = 0 \<or> fwd p lim q"
  using read_ptr_sect_cases [OF assms(1)] read_form_fwd [OF _ assms(2-4)] by blast

text \<open>At the end of the buffer a decoder reads nothing.\<close>

lemma read_form_at_end:
  assumes "unat p + 8 < 2 ^ 64" "read_form m p p ty compat_task ts = Ok (Some (v, q))"
  shows "q = p"
proof -
  have "p < p + of_nat n" if "0 < n" "n \<le> 8" for n
    using that assms(1) unat_add_nowrap [of p n] by (simp add: word_less_nat_alt)
  from this [of 2] this [of 4] this [of 8] show ?thesis
    using assms(2)
    by (auto simp: read_form_def read_fixed_def read_leb_def get_uleb128_def get_sleb128_def
        uleb_loop.simps sleb_loop.simps Let_def split: if_splits)
qed

lemma read_ptr_sect_at_end:
  assumes "unat p + 8 < 2 ^ 64" "read_ptr_sect m ua p p ty ta da user compat_task ts = Ok (v, q)"
  shows "q = p"
  using read_ptr_sect_cases [OF assms(2)] read_form_at_end [OF assms(1)] by blast

lemma read_ptr_sect_within:
  assumes "read_ptr_sect m ua p lim ty ta da user compat_task ts = Ok (v, q)"
    "unat lim + 8 < 2 ^ 64" "p \<le> lim"
  shows "p \<le> q \<and> q \<le> lim"
proof (cases "p < lim")
  case True
  have "unat p + 8 < 2 ^ 64" "lim < lim + 1"
    using assms(2,3) unat_add_nowrap [of lim 1] by (simp_all add: word_le_nat_alt word_less_nat_alt)
  then show ?thesis
    using read_ptr_sect_fwd [OF assms(1) _ True] True by (auto simp: fwd_def)
next
  case False
  then have "p = lim" using assms(3) by simp
  then show ?thesis using read_ptr_sect_at_end assms(1,2) by blast
qed

lemma read_pointer_within:
  "read_pointer m ua p lim ty user compat_task = Ok (v, q) \<Longrightarrow> unat lim + 8 < 2 ^ 64 \<Longrightarrow> p \<le> lim \<Longrightarrow>
   p \<le> q \<and> q \<le> lim"
  unfolding read_pointer_def by (rule read_ptr_sect_within)

section \<open>Encoded pointers\<close>

text \<open>
  How a pointer is written: the value relative to the base its type names, in the form its type names.
  \<open>c\<close>: in a 32-bit program, where an address has four bytes.
\<close>

definition ptr_base :: "u32 \<Rightarrow> addr \<Rightarrow> u64 \<Rightarrow> u64 \<Rightarrow> u64" where
  "ptr_base ty loc textAddr dataAddr =
     (let adj = ty AND DW_EH_PE_ADJUST
      in if adj = DW_EH_PE_pcrel then loc else if adj = DW_EH_PE_textrel then textAddr
         else if adj = DW_EH_PE_datarel then dataAddr else 0)"

definition ptr_bytes :: "bool \<Rightarrow> u32 \<Rightarrow> u64 \<Rightarrow> u8 list" where
  "ptr_bytes c ty x =
     (let form = ty AND DW_EH_PE_FORM
      in if form = DW_EH_PE_data2 then le_bytes 2 x
         else if form = DW_EH_PE_data4 then le_bytes 4 x
         else if form = DW_EH_PE_leb128
           then if ty AND DW_EH_PE_signed \<noteq> 0 then sleb_enc (sint x) else uleb_enc (unat x)
         else le_bytes (if c then 4 else 8) x)"

definition fixed_fits :: "nat \<Rightarrow> bool \<Rightarrow> u64 \<Rightarrow> bool" where
  "fixed_fits n sx x \<longleftrightarrow> (if sx then signed_take_bit (8 * n - 1) x = x else take_bit (8 * n) x = x)"

text \<open>
  The values a form can hold; a signed LEB128 number is read back within the bounds of the reader.
\<close>

definition ptr_fits :: "bool \<Rightarrow> u32 \<Rightarrow> u64 \<Rightarrow> bool" where
  "ptr_fits c ty x \<longleftrightarrow>
     (let form = ty AND DW_EH_PE_FORM; sx = ty AND DW_EH_PE_signed \<noteq> 0
      in if form = DW_EH_PE_data2 then fixed_fits 2 sx x
         else if form = DW_EH_PE_data4 then fixed_fits 4 sx x
         else if form = DW_EH_PE_leb128 then sx \<longrightarrow> - (2 ^ 27) \<le> sint x \<and> sint x < 2 ^ 34
         else (form = DW_EH_PE_data8 \<or> form = DW_EH_PE_absptr) \<and> fixed_fits (if c then 4 else 8) False x)"

text \<open>The types of direct pointers.\<close>

definition ptr_direct :: "u32 \<Rightarrow> bool" where
  "ptr_direct ty \<longleftrightarrow> 0 \<le> sint ty \<and> ty AND DW_EH_PE_indirect = 0 \<and>
     ty AND DW_EH_PE_ADJUST \<in> {DW_EH_PE_absptr, DW_EH_PE_pcrel, DW_EH_PE_textrel, DW_EH_PE_datarel}"

lemma read_fixed_bytes:
  assumes "bytes_at m p (le_bytes n x)" "unat p + n \<le> unat lim" "fixed_fits n sx x" "0 < n"
  shows "read_fixed m p lim n sx = Ok (Some (x, p + of_nat n))"
proof -
  have "unat (p + of_nat n) = unat p + n" using assms(2) unat_u64_less [of lim] by (intro unat_add_nowrap) linarith
  then have "\<not> lim < p + of_nat n" using assms(2) by (simp add: word_less_nat_alt)
  moreover have "signed_take_bit (8 * n - 1) (take_bit (8 * n) x) = signed_take_bit (8 * n - 1) x"
    using assms(4) unfolding signed_take_bit_take_bit by (subst if_not_P) (linarith, rule refl)
  ultimately show ?thesis
    using assms(3) load_le_bytes [OF assms(1)] by (auto simp: read_fixed_def fixed_fits_def)
qed

lemma read_leb_bytes:
  assumes "bytes_at m p (if sx then sleb_enc (sint x) else uleb_enc (unat x))"
    "unat p + length (if sx then sleb_enc (sint x) else uleb_enc (unat x)) \<le> unat lim"
    "sx \<longrightarrow> - (2 ^ 27) \<le> sint x \<and> sint x < 2 ^ 34"
  shows "read_leb m p lim sx = Ok (Some (x, p + of_nat (length (if sx then sleb_enc (sint x) else uleb_enc (unat x)))))"
proof -
  let ?b = "if sx then sleb_enc (sint x) else uleb_enc (unat x)"
  have "unat (p + of_nat (length ?b)) = unat p + length ?b"
    using assms(2) unat_u64_less [of lim] by (intro unat_add_nowrap) linarith
  then have "\<not> lim < p + of_nat (length ?b)" using assms(2) by (simp add: word_less_nat_alt)
  moreover have "(if sx then get_sleb128 m p lim else get_uleb128 m p lim) = Ok (x, p + of_nat (length ?b))"
    using assms sleb_loop_enc [of m p "sint x" lim 0 0] uleb_loop_enc [of m p "unat x" lim 0 0]
      unat_u64_less [of x]
    by (simp add: get_sleb128_def get_uleb128_def sleb_lost_def split: if_splits)
  ultimately show ?thesis by (simp add: read_leb_def)
qed

lemma read_form_bytes:
  assumes "bytes_at m p (ptr_bytes c ty x)" "unat p + length (ptr_bytes c ty x) \<le> unat lim" "ptr_fits c ty x"
    "c \<longrightarrow> ts = 4 \<or> ts = 0"
  shows "read_form m p lim ty c ts = Ok (Some (x, p + of_nat (length (ptr_bytes c ty x))))"
proof -
  note d = ptr_bytes_def ptr_fits_def Let_def
  consider "ty AND DW_EH_PE_FORM = DW_EH_PE_data2" | "ty AND DW_EH_PE_FORM = DW_EH_PE_data4"
    | "ty AND DW_EH_PE_FORM = DW_EH_PE_leb128"
    | "ty AND DW_EH_PE_FORM = DW_EH_PE_data8 \<or> ty AND DW_EH_PE_FORM = DW_EH_PE_absptr"
    using assms(3) by (auto simp: d split: if_splits)
  then show ?thesis
  proof cases
    case 1
    then show ?thesis using assms read_fixed_bytes [of m p 2 x lim] by (simp add: d read_form_def DW_EH_PE_defs)
  next
    case 2
    then show ?thesis using assms read_fixed_bytes [of m p 4 x lim] by (auto simp: d read_form_def DW_EH_PE_defs)
  next
    case 3
    then show ?thesis
      using assms read_leb_bytes [of m p "ty AND DW_EH_PE_signed \<noteq> 0" x lim] by (simp add: d read_form_def DW_EH_PE_defs)
  next
    case 4
    then show ?thesis
      using assms read_fixed_bytes [of m p "if c then 4 else 8" x lim False] by (auto simp: d read_form_def DW_EH_PE_defs)
  qed
qed

lemma read_ptr_bytes:
  assumes "bytes_at m p (ptr_bytes c ty x)" "unat p + length (ptr_bytes c ty x) \<le> unat lim" "ptr_fits c ty x"
    "c \<longrightarrow> ts = 4 \<or> ts = 0" "ptr_direct ty"
  shows "read_ptr_sect m ua p lim ty ta da user c ts =
    Ok (x + ptr_base ty p ta da, p + of_nat (length (ptr_bytes c ty x)))"
proof -
  have t: "\<not> sint ty < 0" "ty \<noteq> DW_EH_PE_omit" "ty AND DW_EH_PE_indirect = 0"
    using assms(5) by (auto simp: ptr_direct_def DW_EH_PE_defs)
  have "adjust_ptr ty p ta da x = Some (x + ptr_base ty p ta da)"
    using assms(5) by (auto simp: ptr_direct_def adjust_ptr_def ptr_base_def DW_EH_PE_defs Let_def)
  then show ?thesis
    using t read_form_bytes [OF assms(1-4)] by (simp add: read_ptr_sect_def)
qed


section \<open>Properties\<close>

text \<open>What a pointer's decoder may fault with.\<close>

definition ptr_fault :: "u32 \<Rightarrow> fault \<Rightarrow> bool" where
  "ptr_fault ty e \<longleftrightarrow> (\<exists>a. e = BadRead a) \<or> e = BadShift \<and> ty AND DW_EH_PE_FORM = DW_EH_PE_leb128"

lemma blames_load_bytes_read: "blames (\<lambda>e. \<exists>a. e = BadRead a) (load_bytes m a n)"
  by (induction n arbitrary: a) (auto simp: load8_def intro!: blames_rbind split: option.splits)

lemma blames_read_fixed: "blames (ptr_fault ty) (read_fixed m p lim n sx)"
proof -
  have "blames (ptr_fault ty) (load_bytes m p n)"
    by (rule blames_mono [OF blames_load_bytes_read]) (auto simp: ptr_fault_def)
  then show ?thesis by (auto simp: read_fixed_def load_le_def intro!: blames_rbind)
qed

lemma blames_read_leb:
  assumes "ty AND DW_EH_PE_FORM = DW_EH_PE_leb128"
  shows "blames (ptr_fault ty) (read_leb m p lim sx)"
proof -
  have "load_fault e \<Longrightarrow> ptr_fault ty e" for e using assms by (auto simp: load_fault_def ptr_fault_def)
  then show ?thesis
    by (auto simp: read_leb_def intro!: blames_rbind blames_leb [THEN blames_mono])
qed

lemma blames_read_ptr_sect:
  "blames (ptr_fault ty) (read_ptr_sect m ua p lim ty ta da user compat_task ts)"
proof -
  have "blames (ptr_fault ty) (read_form m p lim ty compat_task ts)"
    by (auto simp: read_form_def Let_def intro: blames_read_fixed blames_read_leb)
  then show ?thesis
    by (auto simp: read_ptr_sect_def intro!: blames_rbind split: option.splits)
qed

text \<open>
  C28. The decoder of encoded pointers, on any bytes and any encoding: when the cursor is inside a buffer
  that is mapped and ends at least eight bytes below the top of the address space, the decoder makes
  no direct load from an unmapped address, whatever lies around the buffer. When it returns, either
  the cursor has moved forward by at least one byte and at most to the end of the buffer, or it has
  not moved and the result is 0. The only fault is an oversized shift, and only in the LEB128 form.
\<close>

theorem pointer_reader_bounded:
  assumes "mapped m p lim" "unat lim + 8 < 2 ^ 64" "p < lim"
  shows "meets (\<lambda>(v, q). q = p \<and> v = 0 \<or> p < q \<and> q \<le> lim)
      (read_ptr_sect m ua p lim ty ta da user compat_task ts) \<and>
    (\<forall>e. read_ptr_sect m ua p lim ty ta da user compat_task ts = Fault e \<longrightarrow>
       e = BadShift \<and> ty AND DW_EH_PE_FORM = DW_EH_PE_leb128)"
proof -
  let ?r = "read_ptr_sect m ua p lim ty ta da user compat_task ts"
  have "unat p + 8 < 2 ^ 64" using assms(2,3) by (simp add: word_less_nat_alt)
  moreover have "lim < lim + 1" using assms(2) unat_add_nowrap [of lim 1] by (simp add: word_less_nat_alt)
  ultimately have m: "meets (\<lambda>(v, q). q = p \<and> v = 0 \<or> p < q \<and> q \<le> lim) ?r"
    using safe_read_ptr_sect [OF assms(1)] read_ptr_sect_fwd [OF _ _ assms(3)]
    by (fastforce simp: meets_def fwd_def)
  moreover have "e = BadShift \<and> ty AND DW_EH_PE_FORM = DW_EH_PE_leb128" if "?r = Fault e" for e
    using that m blames_read_ptr_sect [of ty m ua p lim ta da user compat_task ts]
    by (auto simp: blames_def ptr_fault_def meets_def)
  ultimately show ?thesis by blast
qed

theorem pointer_reader_bounded_witness:
  "meets (\<lambda>(v, q). q = 0x1000 \<and> v = 0 \<or> 0x1000 < q \<and> q \<le> 0x1004)
    (read_ptr_sect (\<lambda>_. Some 0x20) \<lparr>access_ok = (\<lambda>_ _ _. False), get_user = (\<lambda>_ _. None)\<rparr>
       0x1000 0x1004 0x1b 0 0 True False 0)"
  using pointer_reader_bounded [of "\<lambda>_. Some 0x20" "0x1000" "0x1004"] by (simp add: mapped_def)

text \<open>
  C21. Encoded pointers round trip: of an address written in any form (two, four or eight bytes, signed
  or not, a word, or a LEB128 number), absolute or relative to its own place, to the text or to the
  data, in a 64-bit or a 32-bit program, the decoder reads back the address and leaves the cursor
  behind the bytes, provided that the bytes are inside the buffer and that the form can hold the
  number written, which is the address less its base: a fixed form holds the numbers of its width and
  sign, an unsigned LEB128 number any, a word of a 32-bit program 32 bits, and a signed LEB128 number
  only those from \<open>-2^27\<close> up to \<open>2^34\<close>, outside of which the decoder loses the sign. The encoding is
  direct, and in a 32-bit program the entries of the table have four bytes or there is no table.
\<close>

theorem pointer_round_trip:
  assumes "bytes_at m p (ptr_bytes c ty (a - ptr_base ty p ta da))"
    "unat p + length (ptr_bytes c ty (a - ptr_base ty p ta da)) \<le> unat lim"
    "ptr_fits c ty (a - ptr_base ty p ta da)" "ptr_direct ty" "c \<longrightarrow> ts = 4 \<or> ts = 0"
  shows "read_ptr_sect m ua p lim ty ta da user c ts =
    Ok (a, p + of_nat (length (ptr_bytes c ty (a - ptr_base ty p ta da))))"
  using read_ptr_bytes [OF assms(1-3,5,4)] by simp

theorem pointer_round_trip_witness:
  "read_ptr_sect (mem_of 0x1000 [0xf0, 0xff]) \<lparr>access_ok = (\<lambda>_ _ _. False), get_user = (\<lambda>_ _. None)\<rparr>
     0x1000 0x1002 0x3a 0 0x400010 True False 0 = Ok (0x400000, 0x1002)"
proof -
  have b: "ptr_base 0x3a 0x1000 0 0x400010 = 0x400010" "ptr_bytes False 0x3a (- 16) = [0xf0, 0xff]"
    by (simp_all add: ptr_base_def ptr_bytes_def DW_EH_PE_defs le_bytes_def upt_rec)
  then show ?thesis
    using pointer_round_trip [of "mem_of 0x1000 [0xf0, 0xff]" "0x1000" False "0x3a" "0x400000" 0 "0x400010" "0x1002" 0]
    by (simp add: mem_of_def ptr_fits_def ptr_direct_def DW_EH_PE_defs fixed_fits_def)
qed

end
