(* ===== verification/Unwind_Types.thy ===== *)
theory Unwind_Types
  imports Eh_Pointer
begin

text \<open>
  The x86-64 register file of \<^verbatim>\<open>src/unwind/x86_64.h\<close> and the state of the unwinder from
  \<^verbatim>\<open>src/unwind/unwind.h\<close>: \<open>struct unwind_frame_info\<close>, \<open>unwind_item\<close>, \<open>unwind_reg_state\<close>,
  \<open>unwind_state\<close>, \<open>unwind_context\<close> and the fast path's \<open>tdep_frame\<close>.

  \<open>struct pt_regs\<close> is kept as the array of its 21 longs, because the unwinder indexes the frame as
  an array (\<open>FRAME_REG\<close>); the slots are the offsets that the assembly of
  \<open>arch_unw_init_frame_info\<close> writes, divided by 8. A C union is one 64-bit cell read through
  each of its members.
\<close>

section \<open>Registers\<close>

definition PT_REGS_WORDS :: nat where "PT_REGS_WORDS = 21"

abbreviation (input) PT_r15 :: nat where "PT_r15 \<equiv> 0"
abbreviation (input) PT_r14 :: nat where "PT_r14 \<equiv> 1"
abbreviation (input) PT_r13 :: nat where "PT_r13 \<equiv> 2"
abbreviation (input) PT_r12 :: nat where "PT_r12 \<equiv> 3"
abbreviation (input) PT_bp :: nat where "PT_bp \<equiv> 4"
abbreviation (input) PT_bx :: nat where "PT_bx \<equiv> 5"
abbreviation (input) PT_r11 :: nat where "PT_r11 \<equiv> 6"
abbreviation (input) PT_r10 :: nat where "PT_r10 \<equiv> 7"
abbreviation (input) PT_r9 :: nat where "PT_r9 \<equiv> 8"
abbreviation (input) PT_r8 :: nat where "PT_r8 \<equiv> 9"
abbreviation (input) PT_ax :: nat where "PT_ax \<equiv> 10"
abbreviation (input) PT_cx :: nat where "PT_cx \<equiv> 11"
abbreviation (input) PT_dx :: nat where "PT_dx \<equiv> 12"
abbreviation (input) PT_si :: nat where "PT_si \<equiv> 13"
abbreviation (input) PT_di :: nat where "PT_di \<equiv> 14"
abbreviation (input) PT_orig_ax :: nat where "PT_orig_ax \<equiv> 15"
abbreviation (input) PT_ip :: nat where "PT_ip \<equiv> 16"
abbreviation (input) PT_cs :: nat where "PT_cs \<equiv> 17"
abbreviation (input) PT_flags :: nat where "PT_flags \<equiv> 18"
abbreviation (input) PT_sp :: nat where "PT_sp \<equiv> 19"
abbreviation (input) PT_ss :: nat where "PT_ss \<equiv> 20"

record unwind_frame_info =
  regs :: "u64 list"
  call_frame :: bool

definition UNW_PC :: "unwind_frame_info \<Rightarrow> u64" where "UNW_PC f = regs f ! PT_ip"
definition UNW_SP :: "unwind_frame_info \<Rightarrow> u64" where "UNW_SP f = regs f ! PT_sp"
definition UNW_BP :: "unwind_frame_info \<Rightarrow> u64" where "UNW_BP f = regs f ! PT_bp"

text \<open>The DWARF numbers of the two registers the fast path knows, and the special columns.\<close>

definition RBP :: u64 where "RBP = 6"
definition RSP :: u64 where "RSP = 7"
definition UNW_PC_IDX :: u64 where "UNW_PC_IDX = 16"
definition UNW_SP_IDX :: u64 where "UNW_SP_IDX = 7"
definition UNW_NR_REAL_REGS :: nat where "UNW_NR_REAL_REGS = 16"

lemmas unw_idx_defs = RBP_def RSP_def UNW_PC_IDX_def UNW_SP_IDX_def UNW_NR_REAL_REGS_def

text \<open>\<open>reg_info\<close>: for each DWARF register its index in the frame and its width in bytes.\<close>

definition reg_info :: "(nat \<times> nat) list" where
  "reg_info =
     [(PT_ax, 8), (PT_dx, 8), (PT_cx, 8), (PT_bx, 8), (PT_si, 8), (PT_di, 8), (PT_bp, 8),
      (PT_sp, 8), (PT_r8, 8), (PT_r9, 8), (PT_r10, 8), (PT_r11, 8), (PT_r12, 8), (PT_r13, 8),
      (PT_r14, 8), (PT_r15, 8), (PT_ip, 8)]"

definition NREGS :: nat where "NREGS = length reg_info"

definition reg_width :: "nat \<Rightarrow> nat" where "reg_width i = snd (reg_info ! i)"

definition REG_INVALID :: "nat \<Rightarrow> bool" where "REG_INVALID i \<longleftrightarrow> reg_width i = 0"

definition DWARF_REG_MAP :: "u64 \<Rightarrow> u64" where "DWARF_REG_MAP r = r"

definition COMPAT_REG_MAP :: "u64 \<Rightarrow> u64" where
  "COMPAT_REG_MAP r =
     (if 9 \<le> r \<and> r \<le> 16 then r
      else if r = 0 then r
      else if r = 1 then 2
      else if r = 2 then 1
      else if r = 3 then r
      else if r = 4 then 7
      else if r = 5 then 6
      else if r = 6 then 4
      else if r = 7 then 5
      else if r = 8 then 16
      else 9999)"

text \<open>The mapping of a register number, as each user of one spells it out.\<close>

definition map_reg :: "bool \<Rightarrow> u64 \<Rightarrow> u64" where
  "map_reg compat_task r =
     (if compat_task then COMPAT_REG_MAP (DWARF_REG_MAP r) else DWARF_REG_MAP r)"

text \<open>
  \<open>FRAME_REG(r, t)\<close> is \<open>((t *)frame)[reg_info[r].offs]\<close>, here for a type \<open>t\<close> of \<open>n\<close> bytes: the
  element lies \<open>offs * n\<close> bytes into the frame. An index beyond \<open>reg_info\<close> is out of range.
\<close>

definition frame_get :: "unwind_frame_info \<Rightarrow> u64 \<Rightarrow> nat \<Rightarrow> u64 res" where
  "frame_get f r n =
     (if unat r < NREGS
      then (let at = fst (reg_info ! unat r) * n
            in Ok (take_bit (8 * n) (drop_bit (8 * (at mod 8)) (regs f ! (at div 8)))))
      else Fault BadIndex)"

definition frame_set :: "unwind_frame_info \<Rightarrow> u64 \<Rightarrow> nat \<Rightarrow> u64 \<Rightarrow> unwind_frame_info res" where
  "frame_set f r n v =
     (if unat r < NREGS
      then (let at = fst (reg_info ! unat r) * n; sh = 8 * (at mod 8); old = regs f ! (at div 8);
                new = (old AND NOT (push_bit sh (mask (8 * n)))) OR push_bit sh (take_bit (8 * n) v)
            in Ok (f\<lparr>regs := (regs f)[at div 8 := new]\<rparr>))
      else Fault BadIndex)"

lemma NREGS_17 [simp]: "NREGS = 17"
  by (simp add: NREGS_def reg_info_def)

lemma reg_info_length [simp]: "length reg_info = 17"
  by (simp add: reg_info_def)

lemma reg_info_entries: "\<forall>e \<in> set reg_info. fst e < 21 \<and> snd e = 8" "distinct (map fst reg_info)"
  by (simp_all add: reg_info_def)

lemma reg_width_8: "i < 17 \<Longrightarrow> reg_width i = 8"
  using reg_info_entries(1) nth_mem [of i reg_info] by (simp add: reg_width_def)

lemma REG_INVALID_False: "i < 17 \<Longrightarrow> \<not> REG_INVALID i"
  by (simp add: REG_INVALID_def reg_width_8)

definition slot :: "u64 \<Rightarrow> nat" where
  "slot r = fst (reg_info ! unat r)"

lemma slot_less: "unat r < 17 \<Longrightarrow> slot r < 21"
  using reg_info_entries(1) nth_mem [of "unat r" reg_info] by (simp add: slot_def)

lemma slot_inj: "unat r < 17 \<Longrightarrow> unat q < 17 \<Longrightarrow> slot r = slot q \<longleftrightarrow> r = q"
  using nth_eq_iff_index_eq [OF reg_info_entries(2), of "unat r" "unat q"]
  by (simp add: slot_def word_unat_eq_iff)

lemma slot_consts [simp]: "slot RBP = PT_bp" "slot RSP = PT_sp" "slot UNW_PC_IDX = PT_ip"
  by (simp_all add: slot_def reg_info_def unw_idx_defs)

lemma frame_get_8: "unat r < 17 \<Longrightarrow> frame_get f r 8 = Ok (regs f ! slot r)"
  by (simp add: frame_get_def slot_def take_bit_word_eq_self Let_def)

lemma frame_set_8:
  "unat r < 17 \<Longrightarrow> frame_set f r 8 v = Ok (f\<lparr>regs := (regs f)[slot r := v]\<rparr>)"
proof -
  have "NOT (mask 64) = (0 :: u64)" by (rule bit_word_eqI) (simp add: bit_simps)
  then show "unat r < 17 \<Longrightarrow> ?thesis"
    by (simp add: frame_set_def slot_def take_bit_word_eq_self Let_def)
qed

section \<open>Filling a frame from the registers of the task\<close>

text \<open>
  The argument \<open>regs\<close> of \<open>arch_unw_init_frame_info\<close>: the null pointer (the frame is filled from the
  processor, given here slot by slot), the frame's own registers, or another register set.
\<close>

datatype regs_arg = RegsNull "u64 list" | RegsSelf | RegsPtr "u64 list"

text \<open>\<open>mov %cs, ...\<close> and \<open>mov %ss, ...\<close> store 16 bits; the other stores are 64 bits wide.\<close>

definition store16 :: "u64 \<Rightarrow> u64 \<Rightarrow> u64" where
  "store16 old v = (old AND NOT (mask 16)) OR take_bit 16 v"

definition fill_from_cpu :: "u64 list \<Rightarrow> u64 list \<Rightarrow> u64 list" where
  "fill_from_cpu cpu old =
     map (\<lambda>i. if i = PT_orig_ax \<or> i = PT_flags then old ! i
              else if i = PT_cs \<or> i = PT_ss then store16 (old ! i) (cpu ! i)
              else cpu ! i) [0..<PT_REGS_WORDS]"

definition sanitized :: "u64 list \<Rightarrow> u64 list" where
  "sanitized rs =
     map (\<lambda>i. if i \<in> {PT_r11, PT_r10, PT_r9, PT_r8, PT_ax, PT_cx, PT_dx, PT_si, PT_di,
                      PT_orig_ax, PT_ip, PT_flags, PT_sp, PT_cs, PT_ss}
              then rs ! i else 0) [0..<PT_REGS_WORDS]"

definition arch_unw_init_frame_info ::
  "unwind_frame_info \<Rightarrow> regs_arg \<Rightarrow> bool \<Rightarrow> unwind_frame_info" where
  "arch_unw_init_frame_info info rs sanitize =
     (case rs of
        RegsNull cpu \<Rightarrow> info\<lparr>regs := fill_from_cpu cpu (regs info)\<rparr>
      | RegsSelf \<Rightarrow> info\<lparr>call_frame := True\<rparr>
      | RegsPtr r \<Rightarrow>
          if sanitize then \<lparr>regs = sanitized r, call_frame = False\<rparr>
          else \<lparr>regs = r, call_frame = False\<rparr>)"

section \<open>Register rules\<close>

datatype item_location = Same | Nowhere | Memory | Register | Value | Expr | ValExpr

text \<open>The union \<open>state\<close> of an item, as the bits its members \<open>reg\<close>, \<open>off\<close>, \<open>val\<close>, \<open>expr\<close> share.\<close>

record unwind_item =
  iwhere :: item_location
  istate :: u64

text \<open>In the union of \<open>unwind_reg_state\<close> the pointer \<open>cfa_expr\<close> shares the bits of \<open>cfa.reg\<close>.\<close>

record unwind_reg_state =
  cfa_reg :: u64
  cfa_off :: u64
  rs_regs :: "unwind_item list"
  cfa_is_expr :: bool

abbreviation cfa_expr :: "unwind_reg_state \<Rightarrow> u64" where "cfa_expr \<equiv> cfa_reg"

definition STP_MAX_STACK_DEPTH :: nat where "STP_MAX_STACK_DEPTH = 4"

record unwind_state =
  loc :: u64
  codeAlign :: u64
  dataAlign :: u64
  stackDepth :: u8
  reg_stack :: "unwind_reg_state list"
  cie_regs :: "unwind_item list"

record unwind_context =
  info :: unwind_frame_info
  stub :: unwind_frame_info
  ustate :: unwind_state

text \<open>\<open>memset(state, 0, sizeof(*state))\<close>: every rule is \<open>Same\<close>, whose number is 0.\<close>

definition zero_item :: unwind_item where
  "zero_item = \<lparr>iwhere = Same, istate = 0\<rparr>"

definition zero_reg_state :: unwind_reg_state where
  "zero_reg_state = \<lparr>cfa_reg = 0, cfa_off = 0, rs_regs = replicate NREGS zero_item, cfa_is_expr = False\<rparr>"

definition zero_state :: unwind_state where
  "zero_state = \<lparr>loc = 0, codeAlign = 0, dataAlign = 0, stackDepth = 0,
     reg_stack = replicate STP_MAX_STACK_DEPTH zero_reg_state,
     cie_regs = replicate NREGS zero_item\<rparr>"

section \<open>The frame description of the fast path\<close>

record tdep_item =
  tdep_where :: item_location
  tdep_reg :: u32
  tdep_off :: u64

record tdep_frame =
  tpc :: u64
  tcfa :: tdep_item
  trbp :: tdep_item
  trsp :: tdep_item
  tlast :: bool

definition zero_tdep_item :: tdep_item where
  "zero_tdep_item = \<lparr>tdep_where = Same, tdep_reg = 0, tdep_off = 0\<rparr>"

section \<open>Well-formed frames and states\<close>

definition wf_frame :: "unwind_frame_info \<Rightarrow> bool" where
  "wf_frame f \<longleftrightarrow> length (regs f) = PT_REGS_WORDS"

definition wf_reg_state :: "unwind_reg_state \<Rightarrow> bool" where
  "wf_reg_state rs \<longleftrightarrow> length (rs_regs rs) = NREGS"

text \<open>
  \<open>wf_state\<close>: the arrays have the sizes their declarations give them, and \<open>REG_STATE\<close> is an
  element of its array.
\<close>

definition wf_state :: "unwind_state \<Rightarrow> bool" where
  "wf_state s \<longleftrightarrow>
     length (reg_stack s) = STP_MAX_STACK_DEPTH \<and> unat (stackDepth s) < STP_MAX_STACK_DEPTH \<and>
     length (cie_regs s) = NREGS \<and> (\<forall>rs \<in> set (reg_stack s). wf_reg_state rs)"

text \<open>The eight-bit depth counter, within the stack: counting up and down does not wrap.\<close>

lemma depth_up: "unat (d::u8) < STP_MAX_STACK_DEPTH \<Longrightarrow> unat (d + 1) = Suc (unat d)"
  by (simp add: STP_MAX_STACK_DEPTH_def unat_word_ariths)

lemma depth_down: "(d::u8) \<noteq> 0 \<Longrightarrow> unat (d - 1) = unat d - 1"
  by (rule unat_minus_one)

lemma wf_zero_state [simp]: "wf_state zero_state"
  by (auto simp: wf_state_def zero_state_def STP_MAX_STACK_DEPTH_def wf_reg_state_def
      zero_reg_state_def)

lemma wf_frame_set: "wf_frame f \<Longrightarrow> frame_set f r n v = Ok f' \<Longrightarrow> wf_frame f'"
  by (auto simp: wf_frame_def frame_set_def Let_def split: if_splits)

lemma wf_arch_init:
  "rs = RegsPtr r \<Longrightarrow> length r = PT_REGS_WORDS \<Longrightarrow> wf_frame (arch_unw_init_frame_info f rs sanitize)"
  by (simp add: arch_unw_init_frame_info_def wf_frame_def sanitized_def)

lemma UNW_regs_update [simp]:
  "wf_frame f \<Longrightarrow> UNW_PC (f\<lparr>regs := (regs f)[i := v]\<rparr>) = (if i = PT_ip then v else UNW_PC f)"
  "wf_frame f \<Longrightarrow> UNW_SP (f\<lparr>regs := (regs f)[i := v]\<rparr>) = (if i = PT_sp then v else UNW_SP f)"
  "wf_frame f \<Longrightarrow> UNW_BP (f\<lparr>regs := (regs f)[i := v]\<rparr>) = (if i = PT_bp then v else UNW_BP f)"
  by (simp_all add: UNW_PC_def UNW_SP_def UNW_BP_def wf_frame_def PT_REGS_WORDS_def)

end
