(* ===== verification/Cfi_Program.thy ===== *)
theory Cfi_Program
  imports Unwind_Types
begin

text \<open>
  The call frame information interpreter of \<^verbatim>\<open>src/unwind.c\<close>: the rule setters, one definition per
  group of opcodes of \<open>run_cfi_program\<close>'s \<open>switch\<close>, and its loop. The opcodes are those of
  \<^verbatim>\<open>src/unwind/unwind.h\<close>.

  A step returns \<open>CfiReturn\<close> for a \<open>return\<close> inside the \<open>switch\<close> and \<open>CfiNext\<close> with the loop's
  \<open>result\<close>, cursor and state otherwise. The loop has fuel, because a cursor that wraps around the
  address space need not stop; \<open>MAX_CFI\<close> iterations are enough whenever it does not wrap.
\<close>

section \<open>Opcodes\<close>

definition DW_CFA_nop :: u8 where "DW_CFA_nop = 0x00"
definition DW_CFA_set_loc :: u8 where "DW_CFA_set_loc = 0x01"
definition DW_CFA_advance_loc1 :: u8 where "DW_CFA_advance_loc1 = 0x02"
definition DW_CFA_advance_loc2 :: u8 where "DW_CFA_advance_loc2 = 0x03"
definition DW_CFA_advance_loc4 :: u8 where "DW_CFA_advance_loc4 = 0x04"
definition DW_CFA_offset_extended :: u8 where "DW_CFA_offset_extended = 0x05"
definition DW_CFA_restore_extended :: u8 where "DW_CFA_restore_extended = 0x06"
definition DW_CFA_undefined :: u8 where "DW_CFA_undefined = 0x07"
definition DW_CFA_same_value :: u8 where "DW_CFA_same_value = 0x08"
definition DW_CFA_register :: u8 where "DW_CFA_register = 0x09"
definition DW_CFA_remember_state :: u8 where "DW_CFA_remember_state = 0x0a"
definition DW_CFA_restore_state :: u8 where "DW_CFA_restore_state = 0x0b"
definition DW_CFA_def_cfa :: u8 where "DW_CFA_def_cfa = 0x0c"
definition DW_CFA_def_cfa_register :: u8 where "DW_CFA_def_cfa_register = 0x0d"
definition DW_CFA_def_cfa_offset :: u8 where "DW_CFA_def_cfa_offset = 0x0e"
definition DW_CFA_def_cfa_expression :: u8 where "DW_CFA_def_cfa_expression = 0x0f"
definition DW_CFA_expression :: u8 where "DW_CFA_expression = 0x10"
definition DW_CFA_offset_extended_sf :: u8 where "DW_CFA_offset_extended_sf = 0x11"
definition DW_CFA_def_cfa_sf :: u8 where "DW_CFA_def_cfa_sf = 0x12"
definition DW_CFA_def_cfa_offset_sf :: u8 where "DW_CFA_def_cfa_offset_sf = 0x13"
definition DW_CFA_val_offset :: u8 where "DW_CFA_val_offset = 0x14"
definition DW_CFA_val_offset_sf :: u8 where "DW_CFA_val_offset_sf = 0x15"
definition DW_CFA_val_expression :: u8 where "DW_CFA_val_expression = 0x16"
definition DW_CFA_lo_user :: u8 where "DW_CFA_lo_user = 0x1c"
definition DW_CFA_GNU_window_save :: u8 where "DW_CFA_GNU_window_save = 0x2d"
definition DW_CFA_GNU_args_size :: u8 where "DW_CFA_GNU_args_size = 0x2e"
definition DW_CFA_GNU_negative_offset_extended :: u8 where "DW_CFA_GNU_negative_offset_extended = 0x2f"
definition DW_CFA_hi_user :: u8 where "DW_CFA_hi_user = 0x3f"

lemmas DW_CFA_defs =
  DW_CFA_nop_def DW_CFA_set_loc_def DW_CFA_advance_loc1_def DW_CFA_advance_loc2_def
  DW_CFA_advance_loc4_def DW_CFA_offset_extended_def DW_CFA_restore_extended_def
  DW_CFA_undefined_def DW_CFA_same_value_def DW_CFA_register_def DW_CFA_remember_state_def
  DW_CFA_restore_state_def DW_CFA_def_cfa_def DW_CFA_def_cfa_register_def
  DW_CFA_def_cfa_offset_def DW_CFA_def_cfa_expression_def DW_CFA_expression_def
  DW_CFA_offset_extended_sf_def DW_CFA_def_cfa_sf_def DW_CFA_def_cfa_offset_sf_def
  DW_CFA_val_offset_def DW_CFA_val_offset_sf_def DW_CFA_val_expression_def DW_CFA_lo_user_def
  DW_CFA_GNU_window_save_def DW_CFA_GNU_args_size_def DW_CFA_GNU_negative_offset_extended_def
  DW_CFA_hi_user_def

section \<open>The rule setters\<close>

definition REG_STATE :: "unwind_state \<Rightarrow> unwind_reg_state" where
  "REG_STATE s = reg_stack s ! unat (stackDepth s)"

definition upd_reg_state ::
  "(unwind_reg_state \<Rightarrow> unwind_reg_state) \<Rightarrow> unwind_state \<Rightarrow> unwind_state" where
  "upd_reg_state f s = s\<lparr>reg_stack := (reg_stack s)[unat (stackDepth s) := f (REG_STATE s)]\<rparr>"

definition upd_item ::
  "nat \<Rightarrow> (unwind_item \<Rightarrow> unwind_item) \<Rightarrow> unwind_state \<Rightarrow> unwind_state" where
  "upd_item i f = upd_reg_state (\<lambda>rs. rs\<lparr>rs_regs := (rs_regs rs)[i := f (rs_regs rs ! i)]\<rparr>)"

definition advance_loc :: "u64 \<Rightarrow> unwind_state \<Rightarrow> bool \<times> unwind_state" where
  "advance_loc delta s = (delta > 0, s\<lparr>loc := loc s + delta * codeAlign s\<rparr>)"

definition set_no_state_rule :: "u64 \<Rightarrow> item_location \<Rightarrow> unwind_state \<Rightarrow> unwind_state" where
  "set_no_state_rule reg wh s =
     (if unat reg < NREGS then upd_item (unat reg) (\<lambda>it. it\<lparr>iwhere := wh\<rparr>) s else s)"

definition set_offset_rule ::
  "u64 \<Rightarrow> item_location \<Rightarrow> u64 \<Rightarrow> unwind_state \<Rightarrow> unwind_state" where
  "set_offset_rule reg wh svalue s =
     (if unat reg < NREGS then upd_item (unat reg) (\<lambda>it. it\<lparr>iwhere := wh, istate := svalue\<rparr>) s
      else s)"

definition set_register_rule :: "u64 \<Rightarrow> u64 \<Rightarrow> unwind_state \<Rightarrow> unwind_state" where
  "set_register_rule reg v s =
     (if unat reg < NREGS then upd_item (unat reg) (\<lambda>it. it\<lparr>iwhere := Register, istate := v\<rparr>) s
      else s)"

text \<open>
  \<open>end - *expr >= len\<close> compares a \<open>ptrdiff_t\<close> with an \<open>unsigned long\<close>: both sides are taken as
  unsigned.
\<close>

definition set_expr_rule ::
  "kmem \<Rightarrow> u64 \<Rightarrow> item_location \<Rightarrow> addr \<Rightarrow> addr \<Rightarrow> unwind_state \<Rightarrow> (addr \<times> unwind_state) res" where
  "set_expr_rule m reg wh expr lim s =
     rbind (get_uleb128 m expr lim) (\<lambda>(len, p).
       Ok (if len \<le> lim - p \<and> unat reg < NREGS
           then (p + len, upd_item (unat reg) (\<lambda>it. it\<lparr>iwhere := wh, istate := expr\<rparr>) s)
           else (p, s)))"

text \<open>\<open>memcpy(&REG_STATE.regs[value], &state->cie_regs[value], ...)\<close>, guarded.\<close>

definition restore_rule :: "u64 \<Rightarrow> unwind_state \<Rightarrow> unwind_state" where
  "restore_rule reg s =
     (if unat reg < NREGS then upd_item (unat reg) (\<lambda>_. cie_regs s ! unat reg) s else s)"

section \<open>One instruction\<close>

record cfi_args =
  c_mem :: kmem
  c_ua :: uaccess
  c_end :: addr
  c_target :: u64
  c_ptrType :: u32
  c_user :: bool
  c_compat :: bool

datatype cfi_out = CfiReturn bool unwind_state | CfiNext bool addr unwind_state

definition cfi_uleb :: "cfi_args \<Rightarrow> addr \<Rightarrow> (u64 \<times> addr) res" where
  "cfi_uleb a p = get_uleb128 (c_mem a) p (c_end a)"

definition cfi_sleb :: "cfi_args \<Rightarrow> addr \<Rightarrow> (u64 \<times> addr) res" where
  "cfi_sleb a p = get_sleb128 (c_mem a) p (c_end a)"

definition cfi_map :: "cfi_args \<Rightarrow> u64 \<Rightarrow> u64" where
  "cfi_map a r = map_reg (c_compat a) r"

text \<open>
  The register of a CFA rule: \<open>COMPAT_REG_MAP(value)\<close> for a 32-bit task, and the number as read
  otherwise.
\<close>

definition cfa_map :: "cfi_args \<Rightarrow> u64 \<Rightarrow> u64" where
  "cfa_map a r = (if c_compat a then COMPAT_REG_MAP r else r)"

definition cfi_advance :: "u64 \<Rightarrow> addr \<Rightarrow> unwind_state \<Rightarrow> cfi_out" where
  "cfi_advance delta p s = (let (r, s') = advance_loc delta s in CfiNext r p s')"

text \<open>\<open>DW_CFA_GNU_args_size\<close>, \<open>DW_CFA_GNU_negative_offset_extended\<close> and the default.\<close>

definition cfi_gnu_op :: "cfi_args \<Rightarrow> u8 \<Rightarrow> addr \<Rightarrow> unwind_state \<Rightarrow> cfi_out res" where
  "cfi_gnu_op a op p s =
     (if op = DW_CFA_GNU_args_size then
        rbind (cfi_uleb a p) (\<lambda>(_, p). Ok (CfiNext True p s))
      else if op = DW_CFA_GNU_negative_offset_extended then
        rbind (cfi_uleb a p) (\<lambda>(r, p). rbind (cfi_uleb a p) (\<lambda>(v, p).
          Ok (CfiNext True p (set_offset_rule (cfi_map a r) Memory (0 - v) s))))
      else Ok (CfiNext False p s))"

text \<open>The definitions of the CFA.\<close>

definition cfi_cfa_offset :: "cfi_args \<Rightarrow> addr \<Rightarrow> unwind_state \<Rightarrow> cfi_out res" where
  "cfi_cfa_offset a p s =
     (if cfa_is_expr (REG_STATE s) then Ok (CfiNext True p s)
      else rbind (cfi_uleb a p) (\<lambda>(v, p).
        Ok (CfiNext True p (upd_reg_state (\<lambda>rs. rs\<lparr>cfa_off := v\<rparr>) s))))"

definition cfi_cfa_offset_sf :: "cfi_args \<Rightarrow> addr \<Rightarrow> unwind_state \<Rightarrow> cfi_out res" where
  "cfi_cfa_offset_sf a p s =
     (if cfa_is_expr (REG_STATE s) then Ok (CfiNext True p s)
      else rbind (cfi_sleb a p) (\<lambda>(v, p).
        Ok (CfiNext True p (upd_reg_state (\<lambda>rs. rs\<lparr>cfa_off := v * dataAlign s\<rparr>) s))))"

definition cfi_cfa_op :: "cfi_args \<Rightarrow> u8 \<Rightarrow> addr \<Rightarrow> unwind_state \<Rightarrow> cfi_out res" where
  "cfi_cfa_op a op p s =
     (if op = DW_CFA_def_cfa then
        rbind (cfi_uleb a p) (\<lambda>(v, p).
          cfi_cfa_offset a p
            (upd_reg_state (\<lambda>rs. rs\<lparr>cfa_is_expr := False, cfa_reg := cfa_map a v\<rparr>) s))
      else if op = DW_CFA_def_cfa_offset then cfi_cfa_offset a p s
      else if op = DW_CFA_def_cfa_sf then
        rbind (cfi_uleb a p) (\<lambda>(v, p).
          cfi_cfa_offset_sf a p
            (upd_reg_state (\<lambda>rs. rs\<lparr>cfa_is_expr := False, cfa_reg := cfa_map a v\<rparr>) s))
      else if op = DW_CFA_def_cfa_offset_sf then cfi_cfa_offset_sf a p s
      else if op = DW_CFA_def_cfa_register then
        (if cfa_is_expr (REG_STATE s) then Ok (CfiNext True p s)
         else rbind (cfi_uleb a p) (\<lambda>(v, p).
           Ok (CfiNext True p (upd_reg_state (\<lambda>rs. rs\<lparr>cfa_reg := cfa_map a v\<rparr>) s))))
      else if op = DW_CFA_def_cfa_expression then
        rbind (cfi_uleb a p) (\<lambda>(v, q).
          Ok (if q < c_end a \<and> v \<le> c_end a - q
              then CfiNext True (q + v)
                     (upd_reg_state (\<lambda>rs. rs\<lparr>cfa_is_expr := True, cfa_reg := p\<rparr>) s)
              else CfiNext True q s))
      else cfi_gnu_op a op p s)"

text \<open>\<open>DW_CFA_remember_state\<close> and \<open>DW_CFA_restore_state\<close>.\<close>

definition cfi_remember :: "addr \<Rightarrow> unwind_state \<Rightarrow> cfi_out" where
  "cfi_remember p s =
     (let s1 = s\<lparr>stackDepth := stackDepth s + 1\<rparr>
      in if unat (stackDepth s1) \<ge> STP_MAX_STACK_DEPTH then CfiReturn False s1
         else CfiNext True p
                (s1\<lparr>reg_stack := (reg_stack s1)[unat (stackDepth s1) := reg_stack s1 ! (unat (stackDepth s1) - 1)]\<rparr>))"

definition cfi_restore :: "addr \<Rightarrow> unwind_state \<Rightarrow> cfi_out" where
  "cfi_restore p s =
     (if stackDepth s = 0 then CfiReturn False s
      else CfiNext True p (s\<lparr>stackDepth := stackDepth s - 1\<rparr>))"

text \<open>The register rules.\<close>

definition cfi_offset_op ::
  "cfi_args \<Rightarrow> item_location \<Rightarrow> bool \<Rightarrow> addr \<Rightarrow> unwind_state \<Rightarrow> cfi_out res" where
  "cfi_offset_op a wh sf p s =
     rbind (cfi_uleb a p) (\<lambda>(r, p).
     rbind (if sf then cfi_sleb a p else cfi_uleb a p) (\<lambda>(v, p).
       Ok (CfiNext True p (set_offset_rule (cfi_map a r) wh (v * dataAlign s) s))))"

definition cfi_no_state_op ::
  "cfi_args \<Rightarrow> item_location \<Rightarrow> addr \<Rightarrow> unwind_state \<Rightarrow> cfi_out res" where
  "cfi_no_state_op a wh p s =
     rbind (cfi_uleb a p) (\<lambda>(r, p). Ok (CfiNext True p (set_no_state_rule (cfi_map a r) wh s)))"

definition cfi_expr_op ::
  "cfi_args \<Rightarrow> item_location \<Rightarrow> addr \<Rightarrow> unwind_state \<Rightarrow> cfi_out res" where
  "cfi_expr_op a wh p s =
     rbind (cfi_uleb a p) (\<lambda>(r, p).
     rbind (set_expr_rule (c_mem a) (cfi_map a r) wh p (c_end a) s) (\<lambda>(p, s).
       Ok (CfiNext True p s)))"

text \<open>In \<open>DW_CFA_register\<close> the second register is not mapped for a 32-bit task.\<close>

definition cfi_rule_op :: "cfi_args \<Rightarrow> u8 \<Rightarrow> addr \<Rightarrow> unwind_state \<Rightarrow> cfi_out res" where
  "cfi_rule_op a op p s =
     (if op = DW_CFA_offset_extended then cfi_offset_op a Memory False p s
      else if op = DW_CFA_val_offset then cfi_offset_op a Value False p s
      else if op = DW_CFA_offset_extended_sf then cfi_offset_op a Memory True p s
      else if op = DW_CFA_val_offset_sf then cfi_offset_op a Value True p s
      else if op = DW_CFA_same_value then cfi_no_state_op a Same p s
      else if op = DW_CFA_restore_extended then
        rbind (cfi_uleb a p) (\<lambda>(r, p). Ok (CfiNext True p (restore_rule (cfi_map a r) s)))
      else if op = DW_CFA_undefined then cfi_no_state_op a Nowhere p s
      else if op = DW_CFA_register then
        rbind (cfi_uleb a p) (\<lambda>(r, p). rbind (cfi_uleb a p) (\<lambda>(v, p).
          Ok (CfiNext True p (set_register_rule (cfi_map a r) (DWARF_REG_MAP v) s))))
      else if op = DW_CFA_expression then cfi_expr_op a Expr p s
      else if op = DW_CFA_val_expression then cfi_expr_op a ValExpr p s
      else if op = DW_CFA_remember_state then Ok (cfi_remember p s)
      else if op = DW_CFA_restore_state then Ok (cfi_restore p s)
      else cfi_cfa_op a op p s)"

text \<open>The opcodes whose two top bits are 0; \<open>p\<close> is the cursor after the opcode.\<close>

definition cfi_ext_op :: "cfi_args \<Rightarrow> u8 \<Rightarrow> addr \<Rightarrow> unwind_state \<Rightarrow> cfi_out res" where
  "cfi_ext_op a op p s =
     (if op = DW_CFA_nop then Ok (CfiNext True p s)
      else if op = DW_CFA_set_loc then
        rbind (read_pointer (c_mem a) (c_ua a) p (c_end a) (c_ptrType a) (c_user a) (c_compat a))
          (\<lambda>(v, p). Ok (CfiNext (v \<noteq> 0) p (s\<lparr>loc := v\<rparr>)))
      else if op = DW_CFA_advance_loc1 then
        (if p < c_end a
         then rbind (load8 (c_mem a) p) (\<lambda>d. Ok (cfi_advance (ucast d) (p + 1) s))
         else Ok (CfiNext False p s))
      else if op = DW_CFA_advance_loc2 then
        (if p \<le> c_end a + 2
         then rbind (load16 (c_mem a) p) (\<lambda>d. Ok (cfi_advance (ucast d) (p + 2) s))
         else Ok (CfiNext False p s))
      else if op = DW_CFA_advance_loc4 then
        (if p \<le> c_end a + 4
         then rbind (load32 (c_mem a) p) (\<lambda>d. Ok (cfi_advance (ucast d) (p + 4) s))
         else Ok (CfiNext False p s))
      else cfi_rule_op a op p s)"

definition cfi_step :: "cfi_args \<Rightarrow> addr \<Rightarrow> unwind_state \<Rightarrow> cfi_out res" where
  "cfi_step a ptr s =
     rbind (load8 (c_mem a) ptr) (\<lambda>b.
       let hi = drop_bit 6 b; low = ucast (b AND 0x3f) :: u64; p = ptr + 1
       in if hi = 0 then cfi_ext_op a b p s
          else if hi = 1 then Ok (cfi_advance low p s)
          else if hi = 2 then
            rbind (cfi_uleb a p) (\<lambda>(v, p).
              Ok (CfiNext True p (set_offset_rule (cfi_map a low) Memory (v * dataAlign s) s)))
          else Ok (CfiNext True p (restore_rule (cfi_map a low) s)))"

section \<open>The loop\<close>

definition MAX_CFI :: nat where "MAX_CFI = 512"

fun cfi_loop :: "nat \<Rightarrow> cfi_args \<Rightarrow> bool \<Rightarrow> addr \<Rightarrow> unwind_state \<Rightarrow> (bool \<times> unwind_state) res" where
  "cfi_loop fuel a result ptr s =
     (if result \<and> ptr < c_end a
      then (case fuel of
          0 \<Rightarrow> Fault NoFuel
        | Suc n \<Rightarrow> rbind (cfi_step a ptr s) (\<lambda>out.
            case out of
              CfiReturn r s' \<Rightarrow> Ok (r, s')
            | CfiNext r p s' \<Rightarrow>
                (let r' = (r \<and> \<not> p > c_end a)
                 in if r' \<and> c_target a \<noteq> 0 \<and> c_target a < loc s' then Ok (True, s')
                    else cfi_loop n a r' p s')))
      else Ok (result \<and> ptr = c_end a, s))"

declare cfi_loop.simps [simp del]

text \<open>\<open>end - start > MAX_CFI\<close> is a signed comparison.\<close>

definition run_cfi_program :: "cfi_args \<Rightarrow> addr \<Rightarrow> unwind_state \<Rightarrow> (bool \<times> unwind_state) res" where
  "run_cfi_program a start s =
     (if sint (c_end a - start) > int MAX_CFI then Ok (False, s)
      else cfi_loop MAX_CFI a True start s)"

end
