(* ===== verification/Cfi_Safety.thy ===== *)
theory Cfi_Safety
  imports Cfi_Program
begin

text \<open>
  What every CFI program keeps: the arrays of \<open>unwind_state\<close> and the bound of its state stack, the
  progress of the cursor (so that the loop ends), and the addresses the interpreter loads from.
\<close>

section \<open>The shape of the state\<close>

lemma REG_STATE_wf: "wf_state s \<Longrightarrow> wf_reg_state (REG_STATE s)"
  by (simp add: wf_state_def REG_STATE_def)

lemma wf_upd_reg_state:
  "wf_state s \<Longrightarrow> (\<And>rs. wf_reg_state rs \<Longrightarrow> wf_reg_state (f rs)) \<Longrightarrow> wf_state (upd_reg_state f s)"
  using REG_STATE_wf [of s]
  by (auto simp: wf_state_def upd_reg_state_def dest!: subsetD [OF set_update_subset_insert])

lemma wf_upd_item [intro]: "wf_state s \<Longrightarrow> wf_state (upd_item i f s)"
  unfolding upd_item_def by (rule wf_upd_reg_state) (auto simp: wf_reg_state_def)

lemma wf_setters [intro]:
  "wf_state s \<Longrightarrow> wf_state (set_no_state_rule r wh s)"
  "wf_state s \<Longrightarrow> wf_state (set_offset_rule r wh v s)"
  "wf_state s \<Longrightarrow> wf_state (set_register_rule r v s)"
  "wf_state s \<Longrightarrow> wf_state (restore_rule r s)"
  by (auto simp: set_no_state_rule_def set_offset_rule_def set_register_rule_def restore_rule_def)

lemma wf_upd_cfa [intro]:
  "wf_state s \<Longrightarrow> wf_state (upd_reg_state (\<lambda>rs. rs\<lparr>cfa_off := v\<rparr>) s)"
  "wf_state s \<Longrightarrow> wf_state (upd_reg_state (\<lambda>rs. rs\<lparr>cfa_reg := v\<rparr>) s)"
  "wf_state s \<Longrightarrow> wf_state (upd_reg_state (\<lambda>rs. rs\<lparr>cfa_is_expr := b, cfa_reg := v\<rparr>) s)"
  by (auto intro!: wf_upd_reg_state simp: wf_reg_state_def)

lemma wf_upd_loc [simp]: "wf_state (s\<lparr>loc := v\<rparr>) \<longleftrightarrow> wf_state s"
  by (simp add: wf_state_def)

text \<open>
  \<open>out_wf\<close>: a step that goes on leaves a well-formed state; a step that returns, returns 0.
\<close>

fun out_wf :: "cfi_out \<Rightarrow> bool" where
  "out_wf (CfiReturn r s) \<longleftrightarrow> \<not> r"
| "out_wf (CfiNext r p s) \<longleftrightarrow> wf_state s"

lemma wf_cfi_remember: "wf_state s \<Longrightarrow> out_wf (cfi_remember p s)"
  by (auto simp: cfi_remember_def Let_def wf_state_def depth_up
      dest!: subsetD [OF set_update_subset_insert])

lemma wf_cfi_restore: "wf_state s \<Longrightarrow> out_wf (cfi_restore p s)"
  by (auto simp: cfi_restore_def wf_state_def depth_down)

lemma wf_cfi_advance: "wf_state s \<Longrightarrow> out_wf (cfi_advance d p s)"
  by (simp add: cfi_advance_def advance_loc_def)

lemma wf_set_expr_rule: "wf_state s \<Longrightarrow> set_expr_rule m r wh p lim s = Ok (q, s') \<Longrightarrow> wf_state s'"
  by (auto simp: set_expr_rule_def rbind_eq_Ok split: if_splits)

lemma wf_cfi_gnu_op: "wf_state s \<Longrightarrow> cfi_gnu_op a op p s = Ok out \<Longrightarrow> out_wf out"
  by (auto simp: cfi_gnu_op_def rbind_eq_Ok split: if_splits)

lemma wf_cfi_cfa_offset: "wf_state s \<Longrightarrow> cfi_cfa_offset a p s = Ok out \<Longrightarrow> out_wf out"
  by (auto simp: cfi_cfa_offset_def rbind_eq_Ok split: if_splits)

lemma wf_cfi_cfa_offset_sf: "wf_state s \<Longrightarrow> cfi_cfa_offset_sf a p s = Ok out \<Longrightarrow> out_wf out"
  by (auto simp: cfi_cfa_offset_sf_def rbind_eq_Ok split: if_splits)

lemma wf_cfi_cfa_op: "wf_state s \<Longrightarrow> cfi_cfa_op a op p s = Ok out \<Longrightarrow> out_wf out"
  unfolding cfi_cfa_op_def
  by (auto simp: rbind_eq_Ok split: if_splits
      intro: wf_cfi_gnu_op wf_cfi_cfa_offset wf_cfi_cfa_offset_sf)

lemma wf_cfi_rule_op: "wf_state s \<Longrightarrow> cfi_rule_op a op p s = Ok out \<Longrightarrow> out_wf out"
  unfolding cfi_rule_op_def
  by (auto simp: rbind_eq_Ok cfi_offset_op_def cfi_no_state_op_def cfi_expr_op_def
      wf_cfi_remember wf_cfi_restore split: if_splits
      intro: wf_cfi_cfa_op wf_set_expr_rule)

lemma wf_cfi_ext_op: "wf_state s \<Longrightarrow> cfi_ext_op a op p s = Ok out \<Longrightarrow> out_wf out"
  unfolding cfi_ext_op_def
  by (auto simp: rbind_eq_Ok wf_cfi_advance split: if_splits intro: wf_cfi_rule_op)

lemma wf_cfi_step: "wf_state s \<Longrightarrow> cfi_step a p s = Ok out \<Longrightarrow> out_wf out"
  unfolding cfi_step_def Let_def
  by (auto simp: rbind_eq_Ok wf_cfi_advance split: if_splits intro: wf_cfi_ext_op)

lemma wf_cfi_loop:
  "wf_state s \<Longrightarrow> cfi_loop fuel a result p s = Ok (r, s') \<Longrightarrow> r \<Longrightarrow> wf_state s'"
proof (induction fuel arbitrary: result p s)
  case 0
  then show ?case by (auto simp: cfi_loop.simps [of 0] split: if_splits)
next
  case (Suc n)
  show ?case
  proof (cases "result \<and> p < c_end a")
    case True
    then obtain out where out: "cfi_step a p s = Ok out"
      using Suc.prems(2) by (auto simp: cfi_loop.simps [of "Suc n"] rbind_eq_Ok)
    then have wf: "out_wf out" using wf_cfi_step Suc.prems(1) by blast
    show ?thesis
      using Suc.prems(2,3) True out wf Suc.IH
      by (cases out) (auto simp: cfi_loop.simps [of "Suc n"] Let_def split: if_splits)
  qed (use Suc.prems in \<open>auto simp: cfi_loop.simps [of "Suc n"]\<close>)
qed

section \<open>The cursor and the loads\<close>

text \<open>
  \<open>room\<close>: the program does not end within eight bytes of the top of the address space.
  \<open>lebs_fit\<close>: no unsigned LEB128 number read inside the program is oversized.
  \<open>cfi_mapped\<close>: both, for a program from \<open>start\<close> to \<open>c_end a\<close> that is mapped together with the four
  bytes after it, which the operands of \<open>DW_CFA_advance_loc2\<close> and \<open>DW_CFA_advance_loc4\<close> may reach.
\<close>

definition room :: "addr \<Rightarrow> bool" where
  "room lim \<longleftrightarrow> unat lim + 8 < 2 ^ 64"

definition lebs_fit :: "kmem \<Rightarrow> addr \<Rightarrow> addr \<Rightarrow> bool" where
  "lebs_fit m start lim \<longleftrightarrow>
     (\<forall>q v q'. start \<le> q \<and> q < lim \<and> get_uleb128 m q lim = Ok (v, q') \<longrightarrow> q' \<le> lim)"

definition cfi_mapped :: "cfi_args \<Rightarrow> addr \<Rightarrow> bool" where
  "cfi_mapped a start \<longleftrightarrow>
     room (c_end a) \<and> lebs_fit (c_mem a) start (c_end a) \<and> mapped (c_mem a) start (c_end a + 4)"

lemma room_end:
  assumes "room lim"
  shows "unat (lim + 1) = unat lim + 1" "unat (lim + 2) = unat lim + 2"
    "unat (lim + 4) = unat lim + 4" "lim < lim + 1" "lim \<le> lim + 4"
  using assms unat_add_nowrap [of lim 1] unat_add_nowrap [of lim 2] unat_add_nowrap [of lim 4]
  by (simp_all add: room_def word_less_nat_alt word_le_nat_alt)

lemma cfi_mappedD:
  assumes "cfi_mapped a start"
  shows "room (c_end a)" "start \<le> p \<Longrightarrow> mapped (c_mem a) p (c_end a)"
  using assms mapped_sub [of "c_mem a" start "c_end a + 4" p "c_end a"] room_end(5)
  by (auto simp: cfi_mapped_def)

text \<open>
  \<open>near1\<close>: a cursor at most one byte past the end, where the LEB128 readers leave it;
  \<open>onward a p out\<close>: the step has gone on from \<open>p\<close>, at most four bytes past the end.
\<close>

definition near1 :: "cfi_args \<Rightarrow> addr \<Rightarrow> bool" where
  "near1 a p \<longleftrightarrow> unat p \<le> unat (c_end a) + 1"

fun onward :: "cfi_args \<Rightarrow> addr \<Rightarrow> cfi_out \<Rightarrow> bool" where
  "onward a p (CfiReturn r s) \<longleftrightarrow> True"
| "onward a p (CfiNext r q s) \<longleftrightarrow> p \<le> q \<and> unat q \<le> unat (c_end a) + 4"

lemma near1_le: "p \<le> c_end a \<Longrightarrow> near1 a p"
  by (simp add: near1_def word_le_nat_alt)

lemma onward_trans: "p \<le> q \<Longrightarrow> onward a q out \<Longrightarrow> onward a p out"
  by (cases out) auto

lemma meets_uleb:
  assumes "cfi_mapped a start" "start \<le> p" "near1 a p"
  shows "meets (\<lambda>(v, q). p \<le> q \<and> near1 a q) (cfi_uleb a p)"
  using uleb.meets_near [OF cfi_mappedD(2) [OF assms(1,2)]] cfi_mappedD(1) [OF assms(1)] assms(3)
  by (simp add: near1_def room_def cfi_uleb_def)

lemma meets_sleb:
  assumes "cfi_mapped a start" "start \<le> p" "near1 a p"
  shows "meets (\<lambda>(v, q). p \<le> q \<and> near1 a q) (cfi_sleb a p)"
  using sleb.meets_near [OF cfi_mappedD(2) [OF assms(1,2)]] cfi_mappedD(1) [OF assms(1)] assms(3)
  by (simp add: near1_def room_def cfi_sleb_def)

lemma add_within:
  assumes "len \<le> lim - p" "p \<le> (lim::addr)"
  shows "p \<le> p + len" "p + len \<le> lim"
proof -
  have "unat len \<le> unat lim - unat p" using assms by (simp add: word_le_nat_alt unat_sub)
  then have "unat p + unat len \<le> unat lim" using assms(2) by (simp add: word_le_nat_alt)
  moreover from this have "unat (p + len) = unat p + unat len"
    using unat_u64_less [of lim] unat_add_nowrap [of p "unat len"] by simp
  ultimately show "p \<le> p + len" "p + len \<le> lim" by (simp_all add: word_le_nat_alt)
qed

text \<open>Inside the program an unsigned LEB128 number ends inside it too.\<close>

lemma meets_uleb_fit:
  assumes "cfi_mapped a start" "start \<le> p" "p \<le> c_end a"
  shows "meets (\<lambda>(v, q). p \<le> q \<and> q \<le> c_end a) (cfi_uleb a p)"
proof -
  have "q \<le> c_end a" if "cfi_uleb a p = Ok (v, q)" for v q
  proof (cases "p < c_end a")
    case True
    then show ?thesis
      using assms that by (auto simp: cfi_mapped_def lebs_fit_def cfi_uleb_def)
  next
    case False
    then show ?thesis
      using assms(3) that by (simp add: cfi_uleb_def get_uleb128_def uleb_loop.simps)
  qed
  then show ?thesis using meets_uleb [OF assms(1,2) near1_le [OF assms(3)]] by (auto simp: meets_def)
qed

lemma meets_set_expr_rule:
  assumes "cfi_mapped a start" "start \<le> p" "p \<le> c_end a"
  shows "meets (\<lambda>(q, s'). p \<le> q \<and> q \<le> c_end a) (set_expr_rule (c_mem a) r wh p (c_end a) s)"
  unfolding set_expr_rule_def cfi_uleb_def [symmetric]
  by (rule meets_rbind [OF meets_uleb_fit [OF assms]])
    (auto intro: order_trans [OF _ add_within(1)] add_within(2))

lemma near1_4: "near1 a p \<Longrightarrow> unat p \<le> unat (c_end a) + 4"
  by (simp add: near1_def)

lemma meets_onward_trans: "meets (onward a q) r \<Longrightarrow> p \<le> q \<Longrightarrow> meets (onward a p) r"
  by (erule meets_mono) (rule onward_trans)

lemma meets_Next: "p \<le> q \<Longrightarrow> near1 a q \<Longrightarrow> meets (onward a p) (Ok (CfiNext r q s))"
  by (simp add: near1_def)

lemma meets_uleb_Next:
  assumes "cfi_mapped a start" "start \<le> p" "near1 a p"
  shows "meets (onward a p) (rbind (cfi_uleb a p) (\<lambda>(v, q). Ok (CfiNext (r v) q (f v))))"
  by (rule meets_rbind_pair [OF meets_uleb [OF assms]]) (rule meets_Next, simp_all)

lemma meets_sleb_Next:
  assumes "cfi_mapped a start" "start \<le> p" "near1 a p"
  shows "meets (onward a p) (rbind (cfi_sleb a p) (\<lambda>(v, q). Ok (CfiNext (r v) q (f v))))"
  by (rule meets_rbind_pair [OF meets_sleb [OF assms]]) (rule meets_Next, simp_all)

text \<open>Two operands: a register number, and what \<open>g\<close> does from the cursor after it.\<close>

lemma meets_uleb_then:
  assumes "cfi_mapped a start" "start \<le> p" "near1 a p"
    "\<And>v q. start \<le> q \<Longrightarrow> near1 a q \<Longrightarrow> meets (onward a q) (g v q)"
  shows "meets (onward a p) (rbind (cfi_uleb a p) (\<lambda>(v, q). g v q))"
proof (rule meets_rbind_pair [OF meets_uleb [OF assms(1-3)]])
  fix v q assume q: "p \<le> q \<and> near1 a q"
  then have "start \<le> q" using assms(2) by (auto intro: order_trans)
  then have "meets (onward a q) (g v q)" using q assms(4) by blast
  then show "meets (onward a p) (g v q)" using q meets_onward_trans by blast
qed

lemma meets_cfa_offset:
  assumes "cfi_mapped a start" "start \<le> p" "near1 a p"
  shows "meets (onward a p) (cfi_cfa_offset a p s)"
  using meets_uleb_Next [OF assms] near1_4 [OF assms(3)] by (simp add: cfi_cfa_offset_def)

lemma meets_cfa_offset_sf:
  assumes "cfi_mapped a start" "start \<le> p" "near1 a p"
  shows "meets (onward a p) (cfi_cfa_offset_sf a p s)"
  using meets_sleb_Next [OF assms] near1_4 [OF assms(3)] by (simp add: cfi_cfa_offset_sf_def)

lemma meets_gnu_op:
  assumes "cfi_mapped a start" "start \<le> p" "near1 a p"
  shows "meets (onward a p) (cfi_gnu_op a op p s)"
  using meets_uleb_Next [OF assms] meets_uleb_then [OF assms] meets_uleb_Next [OF assms(1)]
    near1_4 [OF assms(3)]
  by (simp add: cfi_gnu_op_def)

lemma meets_cfa_expression:
  assumes "cfi_mapped a start" "start \<le> p" "near1 a p"
  shows "meets (onward a p) (rbind (cfi_uleb a p) (\<lambda>(v, q).
     Ok (if q < c_end a \<and> v \<le> c_end a - q then CfiNext True (q + v) (f v q) else CfiNext True q s)))"
proof (rule meets_rbind_pair [OF meets_uleb [OF assms]])
  fix v q assume q: "p \<le> q \<and> near1 a q"
  have "p \<le> q + v \<and> near1 a (q + v)" if "q < c_end a \<and> v \<le> c_end a - q"
    using add_within [of v "c_end a" q] near1_le [of "q + v" a] that q order_trans [of p q "q + v"]
    by auto
  then show "meets (onward a p) (Ok (if q < c_end a \<and> v \<le> c_end a - q
     then CfiNext True (q + v) (f v q) else CfiNext True q s))"
    using q meets_Next [of p "q + v" a] meets_Next [of p q a] by auto
qed

lemma meets_cfa_op:
  assumes "cfi_mapped a start" "start \<le> p" "near1 a p"
  shows "meets (onward a p) (cfi_cfa_op a op p s)"
  unfolding cfi_cfa_op_def
  using meets_uleb_then [OF assms] meets_uleb_Next [OF assms] meets_cfa_expression [OF assms]
    meets_cfa_offset [OF assms(1)] meets_cfa_offset_sf [OF assms(1)] meets_gnu_op [OF assms]
    near1_4 [OF assms(3)] assms
  by simp

lemma meets_offset_op:
  assumes "cfi_mapped a start" "start \<le> p" "near1 a p"
  shows "meets (onward a p) (cfi_offset_op a wh sf p s)"
  unfolding cfi_offset_op_def
  using meets_uleb_then [OF assms] meets_uleb_Next [OF assms(1)] meets_sleb_Next [OF assms(1)]
  by (cases sf) simp_all

lemma meets_expr_op:
  assumes "cfi_mapped a start" "start \<le> p" "p \<le> c_end a"
  shows "meets (onward a p) (cfi_expr_op a wh p s)"
  unfolding cfi_expr_op_def
proof (rule meets_rbind_pair [OF meets_uleb_fit [OF assms]])
  fix r q assume q: "p \<le> q \<and> q \<le> c_end a"
  then have "start \<le> q" using assms(2) by auto
  then show "meets (onward a p) (rbind (set_expr_rule (c_mem a) (cfi_map a r) wh q (c_end a) s)
     (\<lambda>(p, s). Ok (CfiNext True p s)))"
    using q by (intro meets_rbind_pair [OF meets_set_expr_rule [OF assms(1)]])
      (auto simp del: onward.simps meets_Ok intro!: meets_Next near1_le)
qed

lemma meets_rule_op:
  assumes "cfi_mapped a start" "start \<le> p" "p \<le> c_end a"
  shows "meets (onward a p) (cfi_rule_op a op p s)"
proof -
  have n: "near1 a p" using assms(3) by (rule near1_le)
  have "onward a p (cfi_remember p s)" "onward a p (cfi_restore p s)"
    using assms(3) by (auto simp: cfi_remember_def cfi_restore_def Let_def word_le_nat_alt)
  then show ?thesis
    unfolding cfi_rule_op_def cfi_no_state_op_def
    using meets_uleb_then [OF assms(1,2) n] meets_uleb_Next [OF assms(1)] n assms
      meets_offset_op [OF assms(1,2) n] meets_expr_op [OF assms] meets_cfa_op [OF assms(1,2) n]
    by simp
qed

lemma safe_load_le_cfi:
  assumes "cfi_mapped a start" "start \<le> p" "p \<le> c_end a" "n \<le> 4"
  shows "safe (load_le (c_mem a) p n)"
proof (rule safe_load_le_mapped)
  show "mapped (c_mem a) start (c_end a + 4)" using assms(1) by (simp add: cfi_mapped_def)
  show "unat p + n \<le> unat (c_end a + 4)"
    using room_end(3) cfi_mappedD(1) assms by (simp add: word_le_nat_alt)
qed (rule assms(2))

lemma onward_advance:
  assumes "cfi_mapped a start" "p \<le> c_end a" "n \<le> 4"
  shows "onward a p (cfi_advance d (p + of_nat n) s)"
proof -
  have "unat p + n < 2 ^ 64"
    using cfi_mappedD(1) [OF assms(1)] assms(2,3) by (simp add: room_def word_le_nat_alt)
  then have "unat (p + of_nat n) = unat p + n" by (rule unat_add_nowrap)
  then show ?thesis
    using assms(2,3) by (simp add: cfi_advance_def advance_loc_def word_le_nat_alt)
qed

lemma meets_read_pointer:
  assumes "cfi_mapped a start" "start \<le> p" "p \<le> c_end a"
  shows "meets (\<lambda>(v, q). p \<le> q \<and> near1 a q)
    (read_pointer (c_mem a) (c_ua a) p (c_end a) ty user compat_task)"
proof -
  have r: "unat (c_end a) + 8 < 2 ^ 64" using cfi_mappedD(1) [OF assms(1)] by (simp add: room_def)
  then have "safe (read_pointer (c_mem a) (c_ua a) p (c_end a) ty user compat_task)"
    using cfi_mappedD(2) [OF assms(1,2)] assms(3)
    by (intro safe_read_pointer) (simp_all add: word_le_nat_alt)
  then show ?thesis
    using read_pointer_within [OF _ r assms(3)] near1_le by (auto simp: meets_def)
qed

lemma meets_ext_op:
  assumes "cfi_mapped a start" "start \<le> p" "p \<le> c_end a"
  shows "meets (onward a p) (cfi_ext_op a op p s)"
proof -
  have n: "unat p \<le> unat (c_end a) + 4" using assms(3) by (simp add: word_le_nat_alt)
  have "meets (onward a p) (rbind (read_pointer (c_mem a) (c_ua a) p (c_end a) ty user compat_task)
      (\<lambda>(v, p). Ok (CfiNext (v \<noteq> 0) p (f v))))" for ty user compat_task f
    by (rule meets_rbind_pair [OF meets_read_pointer [OF assms]]) (rule meets_Next, simp_all)
  moreover have "meets (onward a p) (rbind (load8 (c_mem a) p)
      (\<lambda>d. Ok (cfi_advance (ucast d) (p + 1) s)))" if "p < c_end a"
    using onward_advance [OF assms(1,3), of 1]
    by (intro meets_load safe_load8_mapped [OF cfi_mappedD(2) [OF assms(1,2)] order_refl that]) simp
  moreover have "meets (onward a p) (rbind (load16 (c_mem a) p)
      (\<lambda>d. Ok (cfi_advance (ucast d) (p + 2) s)))"
    using onward_advance [OF assms(1,3), of 2] safe_load_le_cfi [OF assms, of 2]
    by (intro meets_load) (simp_all add: load16_def safe_rbind)
  moreover have "meets (onward a p) (rbind (load32 (c_mem a) p)
      (\<lambda>d. Ok (cfi_advance (ucast d) (p + 4) s)))"
    using onward_advance [OF assms(1,3), of 4] safe_load_le_cfi [OF assms, of 4]
    by (intro meets_load) (simp_all add: load32_def safe_rbind)
  ultimately show ?thesis
    using n meets_rule_op [OF assms] unfolding cfi_ext_op_def by simp
qed

lemma meets_cfi_step:
  assumes "cfi_mapped a start" "start \<le> p" "p < c_end a"
  shows "meets (onward a (p + 1)) (cfi_step a p s)"
proof -
  have p: "start \<le> p + 1" "p + 1 \<le> c_end a"
    using assms(2) less_add1 [OF assms(3)] add1_le [OF assms(3)] by auto
  then have n: "near1 a (p + 1)" by (simp add: near1_le)
  show ?thesis
    unfolding cfi_step_def Let_def
    using meets_ext_op [OF assms(1) p] meets_uleb_Next [OF assms(1) p(1) n]
      onward_advance [OF assms(1) p(2), of 0] near1_4 [OF n]
    by (intro meets_load safe_load8_mapped [OF cfi_mappedD(2) [OF assms(1,2)] order_refl assms(3)])
      simp
qed

lemma safe_cfi_loop:
  assumes "cfi_mapped a start" "start \<le> p" "unat (c_end a) - unat p \<le> fuel"
  shows "safe (cfi_loop fuel a result p s)"
  using assms(2,3)
proof (induction fuel arbitrary: result p s)
  case 0
  then show ?case by (simp add: cfi_loop.simps [of 0] word_less_nat_alt)
next
  case (Suc n)
  show ?case
  proof (cases "result \<and> p < c_end a")
    case True
    have "safe (cfi_loop n a r q s')" if "onward a (p + 1) (CfiNext r0 q s')" for r r0 q s'
    proof (rule Suc.IH)
      have "p < p + 1" "unat (p + 1) = Suc (unat p)" using True less_add1 unat_Suc_less by blast+
      then show "start \<le> q" "unat (c_end a) - unat q \<le> n"
        using that Suc.prems by (auto simp: word_le_nat_alt)
    qed
    then show ?thesis
      using True meets_cfi_step [OF assms(1) Suc.prems(1), of s]
      by (auto simp: cfi_loop.simps [of "Suc n"] Let_def meets_def split: cfi_out.splits
          intro!: safe_rbind)
  qed (auto simp: cfi_loop.simps [of "Suc n"])
qed

lemma safe_run_cfi:
  assumes "cfi_mapped a start" "start \<le> c_end a" "unat (c_end a - start) < 2 ^ 63"
  shows "safe (run_cfi_program a start s)"
proof (cases "sint (c_end a - start) > int MAX_CFI")
  case False
  have "int (unat (c_end a - start)) \<le> int MAX_CFI"
    using False sint_nonneg [OF assms(3)] by linarith
  then have "unat (c_end a) - unat start \<le> MAX_CFI"
    using assms(2) by (simp add: unat_sub)
  then show ?thesis
    using safe_cfi_loop [OF assms(1) order_refl] False by (simp add: run_cfi_program_def)
qed (simp add: run_cfi_program_def)

section \<open>Properties\<close>

text \<open>A program at \<open>0x1000\<close> with four bytes behind it, for the witnesses.\<close>

definition ex_cfi_args :: "u8 list \<Rightarrow> u64 \<Rightarrow> cfi_args" where
  "ex_cfi_args bs target = \<lparr>c_mem = mem_of 0x1000 (bs @ replicate 4 0),
     c_ua = \<lparr>access_ok = (\<lambda>_ _ _. False), get_user = (\<lambda>_ _. None)\<rparr>,
     c_end = 0x1000 + of_nat (length bs), c_target = target, c_ptrType = 0x1b, c_user = True, c_compat = False\<rparr>"

lemma ex_cfi_mapped: "length bs \<le> 512 \<Longrightarrow> mapped (c_mem (ex_cfi_args bs t)) 0x1000 (c_end (ex_cfi_args bs t) + 4)"
  unfolding mapped_def
proof (intro allI impI)
  fix a :: addr assume l: "length bs \<le> 512" and a: "0x1000 \<le> a \<and> a < c_end (ex_cfi_args bs t) + 4"
  have "unat (0x1000 + of_nat (length bs) + 4 :: addr) = 0x1004 + length bs"
    using unat_add_nowrap [of "0x1000" "length bs + 4"] l by (simp add: add.assoc)
  then have "unat (a - 0x1000) < length bs + 4"
    using a by (simp add: ex_cfi_args_def unat_sub word_less_nat_alt word_le_nat_alt) linarith
  then show "c_mem (ex_cfi_args bs t) a \<noteq> None" by (simp add: ex_cfi_args_def mem_of_def)
qed

lemma lebs_fit_short:
  assumes "\<And>q b. start \<le> q \<Longrightarrow> q < lim \<Longrightarrow> m q = Some b \<Longrightarrow> b AND 0x80 = 0"
  shows "lebs_fit m start lim"
  unfolding lebs_fit_def
proof (intro allI impI)
  fix q q' :: addr and v
  assume q: "start \<le> q \<and> q < lim \<and> get_uleb128 m q lim = Ok (v, q')"
  then obtain b where b: "m q = Some b"
    by (auto simp: get_uleb128_def uleb_loop.simps [of m lim q] rbind_eq_Ok load8_eq_Ok)
  then have "q' = q + 1 \<or> q' = lim"
    using q assms by (auto simp: get_uleb128_def uleb_loop.simps [of m lim q] low_overflows_def shl64_def)
  then show "q' \<le> lim" using q add1_le by auto
qed

text \<open>
  C13. A CFI program, whatever its bytes are: when it is mapped with the four bytes behind it, ends below
  the top of the address space and has no oversized LEB128 number, the interpreter ends within
  \<open>MAX_CFI\<close> instructions and loads from nowhere else.
\<close>

theorem cfi_program_safe:
  assumes "cfi_mapped a start" "start \<le> c_end a" "unat (c_end a - start) < 2 ^ 63"
  shows "safe (run_cfi_program a start s)"
  using assms by (rule safe_run_cfi)

theorem cfi_program_safe_witness:
  "safe (run_cfi_program (ex_cfi_args [0x0f, 0x08, 0x00, 0x0b, 0x04] 0) 0x1000 zero_state)"
proof (rule cfi_program_safe)
  let ?a = "ex_cfi_args [0x0f, 0x08, 0x00, 0x0b, 0x04] 0"
  have e: "c_end ?a = 0x1005" by (simp add: ex_cfi_args_def)
  have m: "b \<in> {0x0f, 0x08, 0x00, 0x0b, 0x04}" if "c_mem ?a q = Some b" for q b
    using that nth_mem [of "unat (q - 0x1000)" "[0x0f, 0x08, 0x00, 0x0b, 0x04, 0, 0, 0, 0 :: u8]"]
    by (auto simp: ex_cfi_args_def mem_of_def numeral_eq_Suc split: if_splits)
  have "lebs_fit (c_mem ?a) 0x1000 (c_end ?a)"
    by (rule lebs_fit_short) (auto dest!: m)
  then show "cfi_mapped ?a 0x1000" using ex_cfi_mapped [of "[0x0f, 0x08, 0x00, 0x0b, 0x04]" 0] by (simp add: cfi_mapped_def e room_def)
  show "0x1000 \<le> c_end ?a" "unat (c_end ?a - 0x1000) < 2 ^ 63" by (simp_all add: e)
qed

text \<open>
  The bound of \<open>DW_CFA_advance_loc4\<close> (and of \<open>DW_CFA_advance_loc2\<close>) is on the wrong side: as the last
  byte of a program, with no operand left, it is not rejected. The operand is loaded from behind the
  end of the program, which is a fault when nothing is mapped there.
\<close>

lemma advance_reads_past_end:
  assumes "c_mem a start = Some b" "b \<in> {DW_CFA_advance_loc2, DW_CFA_advance_loc4}"
    "c_end a = start + 1" "c_mem a (start + 1) = None" "unat start + 5 < 2 ^ 64"
  shows "run_cfi_program a start s = Fault (BadRead (c_end a))"
proof -
  have l: "start < start + 1" "start + 1 \<le> start + 1 + 2" "start + 1 \<le> start + 1 + 4"
    using assms(5) unat_add_nowrap [of start 1] unat_add_nowrap [of "start + 1" 2] unat_add_nowrap [of "start + 1" 4]
    by (simp_all add: word_less_nat_alt word_le_nat_alt)
  have f: "load_le (c_mem a) (start + 1) (Suc n) = Fault (BadRead (start + 1))" for n
    using assms(4) by (simp add: load_le_def load8_def)
  have "load_le (c_mem a) (start + 1) 2 = Fault (BadRead (start + 1))"
    "load_le (c_mem a) (start + 1) 4 = Fault (BadRead (start + 1))"
    using f [of 1] f [of 3] by (simp_all add: numeral_2_eq_2)
  then have "cfi_step a start s = Fault (BadRead (start + 1))"
    using assms(1-3) l
    by (auto simp: cfi_step_def cfi_ext_op_def DW_CFA_defs Let_def load16_def load32_def)
  then have "cfi_loop (Suc n) a True start s = Fault (BadRead (start + 1))" for n
    using assms(3) l(1) by (simp add: cfi_loop.simps [of "Suc n"])
  from this [of 511] show ?thesis
    using assms(3) by (simp add: run_cfi_program_def MAX_CFI_def)
qed

text \<open>
  The length of an expression rule is not confined when it is oversized: such a number leaves the
  cursor one byte past the end, where the difference to the end, taken as unsigned, bounds nothing.
  The rule is stored and the cursor moves on by the length, out of the program.
\<close>

lemma expr_length_escapes:
  assumes "get_uleb128 m expr lim = Ok (len, lim + 1)" "unat reg < NREGS"
  shows "set_expr_rule m reg wh expr lim s =
    Ok (lim + 1 + len, upd_item (unat reg) (\<lambda>it. it\<lparr>iwhere := wh, istate := expr\<rparr>) s)"
  using assms by (simp add: set_expr_rule_def)

end
