(* ===== verification/Cfi_Spec.thy ===== *)
theory Cfi_Spec
  imports Cfi_Safety
begin

text \<open>
  What a CFI program means, after the DWARF standard: instructions that edit a row of register
  rules and a stack of saved rows. The interpreter \<open>run_cfi_program\<close> implements it: run on the
  encoding of a list of instructions for which the row machine has a row, it returns 1 with the
  state that represents that row. The row machine has none after an unbalanced
  \<open>DW_CFA_restore_state\<close>, when the saved rows exceed the interpreter's array, when an advance does
  not move the location, and when the register or the offset of an expression CFA is to be changed.
\<close>

section \<open>Rows\<close>

datatype reg_rule =
    RSame | RUndefined | ROffset u64 | RRegister u64 | RValOffset u64 | RExpr addr | RValExpr addr

datatype cfa_rule = CfaRegOff u64 u64 | CfaExpr addr

record row =
  row_cfa :: cfa_rule
  row_rules :: "reg_rule list"

record row_machine =
  rm_loc :: u64
  rm_code :: u64
  rm_data :: u64
  rm_row :: row
  rm_saved :: "row list"
  rm_init :: "reg_rule list"

datatype cfa_insn =
    INop
  | IAdvance u64 | IAdvance1 u8
  | IOffset nat nat | IOffsetExt nat nat | IValOffset nat nat
  | IOffsetExtSf nat int | IValOffsetSf nat int
  | IRestore nat | IRestoreExt nat
  | ISameValue nat | IUndefined nat
  | IRegister nat nat
  | IRemember | IRestoreState
  | IDefCfa nat nat | IDefCfaSf nat int
  | IDefCfaRegister nat | IDefCfaOffset nat | IDefCfaOffsetSf int
  | IArgsSize nat | INegOffsetExt nat nat

definition set_rule :: "nat \<Rightarrow> reg_rule \<Rightarrow> row_machine \<Rightarrow> row_machine" where
  "set_rule r u st = st\<lparr>rm_row := (rm_row st)\<lparr>row_rules := (row_rules (rm_row st))[r := u]\<rparr>\<rparr>"

definition set_cfa :: "cfa_rule \<Rightarrow> row_machine \<Rightarrow> row_machine" where
  "set_cfa c st = st\<lparr>rm_row := (rm_row st)\<lparr>row_cfa := c\<rparr>\<rparr>"

definition move_loc :: "u64 \<Rightarrow> row_machine \<Rightarrow> row_machine option" where
  "move_loc d st = (if d = 0 then None else Some (st\<lparr>rm_loc := rm_loc st + d * rm_code st\<rparr>))"

fun exec_insn :: "cfa_insn \<Rightarrow> row_machine \<Rightarrow> row_machine option" where
  "exec_insn INop st = Some st"
| "exec_insn (IAdvance d) st = move_loc d st"
| "exec_insn (IAdvance1 d) st = move_loc (ucast d) st"
| "exec_insn (IOffset r n) st = Some (set_rule r (ROffset (of_nat n * rm_data st)) st)"
| "exec_insn (IOffsetExt r n) st = Some (set_rule r (ROffset (of_nat n * rm_data st)) st)"
| "exec_insn (IValOffset r n) st = Some (set_rule r (RValOffset (of_nat n * rm_data st)) st)"
| "exec_insn (IOffsetExtSf r v) st = Some (set_rule r (ROffset (of_int v * rm_data st)) st)"
| "exec_insn (IValOffsetSf r v) st = Some (set_rule r (RValOffset (of_int v * rm_data st)) st)"
| "exec_insn (IRestore r) st = Some (set_rule r (rm_init st ! r) st)"
| "exec_insn (IRestoreExt r) st = Some (set_rule r (rm_init st ! r) st)"
| "exec_insn (ISameValue r) st = Some (set_rule r RSame st)"
| "exec_insn (IUndefined r) st = Some (set_rule r RUndefined st)"
| "exec_insn (IRegister r q) st = Some (set_rule r (RRegister (of_nat q)) st)"
| "exec_insn IRemember st =
     (if Suc (length (rm_saved st)) < STP_MAX_STACK_DEPTH
      then Some (st\<lparr>rm_saved := rm_row st # rm_saved st\<rparr>) else None)"
| "exec_insn IRestoreState st =
     (case rm_saved st of [] \<Rightarrow> None | w # ws \<Rightarrow> Some (st\<lparr>rm_row := w, rm_saved := ws\<rparr>))"
| "exec_insn (IDefCfa r n) st = Some (set_cfa (CfaRegOff (of_nat r) (of_nat n)) st)"
| "exec_insn (IDefCfaSf r v) st = Some (set_cfa (CfaRegOff (of_nat r) (of_int v * rm_data st)) st)"
| "exec_insn (IDefCfaRegister r) st =
     (case row_cfa (rm_row st) of
        CfaRegOff _ n \<Rightarrow> Some (set_cfa (CfaRegOff (of_nat r) n) st) | CfaExpr _ \<Rightarrow> None)"
| "exec_insn (IDefCfaOffset n) st =
     (case row_cfa (rm_row st) of
        CfaRegOff r _ \<Rightarrow> Some (set_cfa (CfaRegOff r (of_nat n)) st) | CfaExpr _ \<Rightarrow> None)"
| "exec_insn (IDefCfaOffsetSf v) st =
     (case row_cfa (rm_row st) of
        CfaRegOff r _ \<Rightarrow> Some (set_cfa (CfaRegOff r (of_int v * rm_data st)) st) | CfaExpr _ \<Rightarrow> None)"
| "exec_insn (IArgsSize n) st = Some st"
| "exec_insn (INegOffsetExt r n) st = Some (set_rule r (ROffset (- of_nat n)) st)"

text \<open>
  The row for a location: the instructions run until one moves the location beyond the target;
  the target 0 stands for none, as the initial instructions of a CIE are run.
\<close>

fun exec_insns :: "u64 \<Rightarrow> cfa_insn list \<Rightarrow> row_machine \<Rightarrow> row_machine option" where
  "exec_insns target [] st = Some st"
| "exec_insns target (i # is) st =
     (case exec_insn i st of
        None \<Rightarrow> None
      | Some st' \<Rightarrow> if target \<noteq> 0 \<and> target < rm_loc st' then Some st' else exec_insns target is st')"

section \<open>Encoding\<close>

fun enc_insn :: "cfa_insn \<Rightarrow> u8 list" where
  "enc_insn INop = [DW_CFA_nop]"
| "enc_insn (IAdvance d) = [of_nat (64 + unat d)]"
| "enc_insn (IAdvance1 d) = [DW_CFA_advance_loc1, d]"
| "enc_insn (IOffset r n) = of_nat (128 + r) # uleb_enc n"
| "enc_insn (IOffsetExt r n) = DW_CFA_offset_extended # uleb_enc r @ uleb_enc n"
| "enc_insn (IValOffset r n) = DW_CFA_val_offset # uleb_enc r @ uleb_enc n"
| "enc_insn (IOffsetExtSf r v) = DW_CFA_offset_extended_sf # uleb_enc r @ sleb_enc v"
| "enc_insn (IValOffsetSf r v) = DW_CFA_val_offset_sf # uleb_enc r @ sleb_enc v"
| "enc_insn (IRestore r) = [of_nat (192 + r)]"
| "enc_insn (IRestoreExt r) = DW_CFA_restore_extended # uleb_enc r"
| "enc_insn (ISameValue r) = DW_CFA_same_value # uleb_enc r"
| "enc_insn (IUndefined r) = DW_CFA_undefined # uleb_enc r"
| "enc_insn (IRegister r q) = DW_CFA_register # uleb_enc r @ uleb_enc q"
| "enc_insn IRemember = [DW_CFA_remember_state]"
| "enc_insn IRestoreState = [DW_CFA_restore_state]"
| "enc_insn (IDefCfa r n) = DW_CFA_def_cfa # uleb_enc r @ uleb_enc n"
| "enc_insn (IDefCfaSf r v) = DW_CFA_def_cfa_sf # uleb_enc r @ sleb_enc v"
| "enc_insn (IDefCfaRegister r) = DW_CFA_def_cfa_register # uleb_enc r"
| "enc_insn (IDefCfaOffset n) = DW_CFA_def_cfa_offset # uleb_enc n"
| "enc_insn (IDefCfaOffsetSf v) = DW_CFA_def_cfa_offset_sf # sleb_enc v"
| "enc_insn (IArgsSize n) = DW_CFA_GNU_args_size # uleb_enc n"
| "enc_insn (INegOffsetExt r n) = DW_CFA_GNU_negative_offset_extended # uleb_enc r @ uleb_enc n"

text \<open>
  The operands an instruction can carry: registers of the architecture, 64-bit numbers, and
  signed numbers in the range the signed LEB128 reader gets right.
\<close>

definition ok_reg :: "nat \<Rightarrow> bool" where "ok_reg r \<longleftrightarrow> r < NREGS"
definition ok_num :: "nat \<Rightarrow> bool" where "ok_num n \<longleftrightarrow> n < 2 ^ 64"
definition ok_int :: "int \<Rightarrow> bool" where "ok_int v \<longleftrightarrow> - (2 ^ 27) \<le> v \<and> v < 2 ^ 34"

fun ok_insn :: "cfa_insn \<Rightarrow> bool" where
  "ok_insn (IAdvance d) \<longleftrightarrow> d < 64"
| "ok_insn (IOffset r n) \<longleftrightarrow> ok_reg r \<and> ok_num n"
| "ok_insn (IOffsetExt r n) \<longleftrightarrow> ok_reg r \<and> ok_num n"
| "ok_insn (IValOffset r n) \<longleftrightarrow> ok_reg r \<and> ok_num n"
| "ok_insn (IOffsetExtSf r v) \<longleftrightarrow> ok_reg r \<and> ok_int v"
| "ok_insn (IValOffsetSf r v) \<longleftrightarrow> ok_reg r \<and> ok_int v"
| "ok_insn (IRestore r) \<longleftrightarrow> ok_reg r"
| "ok_insn (IRestoreExt r) \<longleftrightarrow> ok_reg r"
| "ok_insn (ISameValue r) \<longleftrightarrow> ok_reg r"
| "ok_insn (IUndefined r) \<longleftrightarrow> ok_reg r"
| "ok_insn (IRegister r q) \<longleftrightarrow> ok_reg r \<and> ok_num q"
| "ok_insn (IDefCfa r n) \<longleftrightarrow> ok_num r \<and> ok_num n"
| "ok_insn (IDefCfaSf r v) \<longleftrightarrow> ok_num r \<and> ok_int v"
| "ok_insn (IDefCfaRegister r) \<longleftrightarrow> ok_num r"
| "ok_insn (IDefCfaOffset n) \<longleftrightarrow> ok_num n"
| "ok_insn (IDefCfaOffsetSf v) \<longleftrightarrow> ok_int v"
| "ok_insn (IArgsSize n) \<longleftrightarrow> ok_num n"
| "ok_insn (INegOffsetExt r n) \<longleftrightarrow> ok_reg r \<and> ok_num n"
| "ok_insn _ \<longleftrightarrow> True"

section \<open>The state as a row\<close>

definition abs_item :: "unwind_item \<Rightarrow> reg_rule" where
  "abs_item it =
     (case iwhere it of
        Same \<Rightarrow> RSame | Nowhere \<Rightarrow> RUndefined | Memory \<Rightarrow> ROffset (istate it)
      | Register \<Rightarrow> RRegister (istate it) | Value \<Rightarrow> RValOffset (istate it)
      | Expr \<Rightarrow> RExpr (istate it) | ValExpr \<Rightarrow> RValExpr (istate it))"

definition abs_row :: "unwind_reg_state \<Rightarrow> row" where
  "abs_row rs =
     \<lparr>row_cfa = (if cfa_is_expr rs then CfaExpr (cfa_expr rs) else CfaRegOff (cfa_reg rs) (cfa_off rs)),
      row_rules = map abs_item (rs_regs rs)\<rparr>"

definition abs_state :: "unwind_state \<Rightarrow> row_machine" where
  "abs_state s =
     \<lparr>rm_loc = loc s, rm_code = codeAlign s, rm_data = dataAlign s,
      rm_row = abs_row (REG_STATE s),
      rm_saved = map abs_row (rev (take (unat (stackDepth s)) (reg_stack s))),
      rm_init = map abs_item (cie_regs s)\<rparr>"

lemma abs_upd_reg_state:
  assumes "wf_state s"
  shows "abs_state (upd_reg_state f s) = (abs_state s)\<lparr>rm_row := abs_row (f (REG_STATE s))\<rparr>"
  using assms
  by (simp add: abs_state_def upd_reg_state_def REG_STATE_def wf_state_def)

lemma abs_upd_item:
  assumes "wf_state s" "i < NREGS"
  shows "abs_state (upd_item i f s) =
    set_rule i (abs_item (f (rs_regs (REG_STATE s) ! i))) (abs_state s)"
  using abs_upd_reg_state [OF assms(1)]
  by (simp add: upd_item_def set_rule_def abs_row_def map_update abs_state_def)

lemma abs_setters:
  assumes "wf_state s" "r < NREGS"
  shows "abs_state (set_no_state_rule (of_nat r) Same s) = set_rule r RSame (abs_state s)"
    "abs_state (set_no_state_rule (of_nat r) Nowhere s) = set_rule r RUndefined (abs_state s)"
    "abs_state (set_offset_rule (of_nat r) Memory v s) = set_rule r (ROffset v) (abs_state s)"
    "abs_state (set_offset_rule (of_nat r) Value v s) = set_rule r (RValOffset v) (abs_state s)"
    "abs_state (set_register_rule (of_nat r) v s) = set_rule r (RRegister v) (abs_state s)"
    "abs_state (restore_rule (of_nat r) s) = set_rule r (rm_init (abs_state s) ! r) (abs_state s)"
proof -
  have "unat (of_nat r :: u64) = r" using assms(2) by (simp add: unat_of_nat)
  then show "abs_state (set_no_state_rule (of_nat r) Same s) = set_rule r RSame (abs_state s)"
    "abs_state (set_no_state_rule (of_nat r) Nowhere s) = set_rule r RUndefined (abs_state s)"
    "abs_state (set_offset_rule (of_nat r) Memory v s) = set_rule r (ROffset v) (abs_state s)"
    "abs_state (set_offset_rule (of_nat r) Value v s) = set_rule r (RValOffset v) (abs_state s)"
    "abs_state (set_register_rule (of_nat r) v s) = set_rule r (RRegister v) (abs_state s)"
    "abs_state (restore_rule (of_nat r) s) = set_rule r (rm_init (abs_state s) ! r) (abs_state s)"
    using assms abs_upd_item [OF assms]
    by (simp_all add: set_no_state_rule_def set_offset_rule_def set_register_rule_def
        restore_rule_def abs_item_def abs_state_def wf_state_def)
qed

section \<open>Reading the encoding\<close>

definition enc_at :: "cfi_args \<Rightarrow> addr \<Rightarrow> u8 list \<Rightarrow> bool" where
  "enc_at a p bs \<longleftrightarrow> bytes_at (c_mem a) p bs \<and> unat p + length bs \<le> unat (c_end a)"

lemma enc_at_bound: "enc_at a p bs \<Longrightarrow> unat (p + of_nat (length bs)) = unat p + length bs"
  using unat_u64_less [of "c_end a"] by (auto simp: enc_at_def intro!: unat_add_nowrap)

lemma enc_at_Cons:
  assumes "enc_at a p (b # bs)"
  shows "c_mem a p = Some b" "enc_at a (p + 1) bs" "p < c_end a"
proof -
  show p: "p < c_end a" using assms by (simp add: enc_at_def word_less_nat_alt)
  show "c_mem a p = Some b" "enc_at a (p + 1) bs"
    using assms unat_Suc_less [OF p] by (simp_all add: enc_at_def)
qed

lemma enc_at_append:
  assumes "enc_at a p (xs @ ys)"
  shows "enc_at a p xs" "enc_at a (p + of_nat (length xs)) ys"
proof -
  show x: "enc_at a p xs" using assms by (simp add: enc_at_def bytes_at_append)
  show "enc_at a (p + of_nat (length xs)) ys"
    using assms enc_at_bound [OF x] by (simp add: enc_at_def bytes_at_append)
qed

lemma cfi_uleb_enc:
  assumes "enc_at a p (uleb_enc n)" "ok_num n"
  shows "cfi_uleb a p = Ok (of_nat n, p + of_nat (length (uleb_enc n)))"
  using uleb_loop_enc [of "c_mem a" p n "c_end a" 0 0] assms
  by (simp add: cfi_uleb_def get_uleb128_def enc_at_def ok_num_def)

lemma cfi_sleb_enc:
  assumes "enc_at a p (sleb_enc v)" "ok_int v"
  shows "cfi_sleb a p = Ok (of_int v, p + of_nat (length (sleb_enc v)))"
  using sleb_loop_enc [of "c_mem a" p v "c_end a" 0 0] assms
  by (simp add: cfi_sleb_def get_sleb128_def enc_at_def ok_int_def sleb_lost_def)

lemma ok_reg_num: "ok_reg r \<Longrightarrow> ok_num r"
  by (simp add: ok_reg_def ok_num_def)

text \<open>The opcodes that carry six bits of operand.\<close>

lemma op_bits:
  assumes "k < 64"
  shows "drop_bit 6 (of_nat (64 + k) :: u8) = 1" "drop_bit 6 (of_nat (128 + k) :: u8) = 2"
    "drop_bit 6 (of_nat (192 + k) :: u8) = 3"
    "ucast (of_nat (64 + k) AND 0x3f :: u8) = (of_nat k :: u64)"
    "ucast (of_nat (128 + k) AND 0x3f :: u8) = (of_nat k :: u64)"
    "ucast (of_nat (192 + k) AND 0x3f :: u8) = (of_nat k :: u64)"
proof -
  have m: "(0x3f :: u8) = mask 6" by (simp add: mask_eq_exp_minus_1)
  have u: "unat (of_nat (c * 64 + k) :: u8) = c * 64 + k" if "c < 4" for c
  proof -
    have "c * 64 + k < 256" using that assms by linarith
    then show ?thesis by (simp only: unat_of_nat) simp
  qed
  have d: "drop_bit 6 (of_nat (c * 64 + k) :: u8) = of_nat c" if "c < 4" for c
  proof (rule word_unat_eq_iff [THEN iffD2])
    have "unat (drop_bit 6 (of_nat (c * 64 + k) :: u8)) = (c * 64 + k) div 64"
      unfolding unat_drop_bit_eq u [OF that] by (simp add: drop_bit_eq_div)
    then show "unat (drop_bit 6 (of_nat (c * 64 + k) :: u8)) = unat (of_nat c :: u8)"
      using that assms by (simp add: unat_of_nat)
  qed
  have l: "ucast (of_nat (c * 64 + k) AND 0x3f :: u8) = (of_nat k :: u64)" if "c < 4" for c
  proof (rule word_unat_eq_iff [THEN iffD2])
    have "unat (of_nat (c * 64 + k) AND 0x3f :: u8) = (c * 64 + k) mod 64"
      unfolding m take_bit_eq_mask [symmetric] unsigned_take_bit_eq u [OF that] by (simp add: take_bit_eq_mod)
    then show "unat (ucast (of_nat (c * 64 + k) AND 0x3f :: u8) :: u64) = unat (of_nat k :: u64)"
      using assms by (simp add: unsigned_ucast_eq unat_of_nat take_bit_eq_mod del: of_nat_add of_nat_mult)
  qed
  show "drop_bit 6 (of_nat (64 + k) :: u8) = 1" "drop_bit 6 (of_nat (128 + k) :: u8) = 2"
    "drop_bit 6 (of_nat (192 + k) :: u8) = 3"
    using d [of 1] d [of 2] d [of 3] by simp_all
  show "ucast (of_nat (64 + k) AND 0x3f :: u8) = (of_nat k :: u64)"
    "ucast (of_nat (128 + k) AND 0x3f :: u8) = (of_nat k :: u64)"
    "ucast (of_nat (192 + k) AND 0x3f :: u8) = (of_nat k :: u64)"
    using l [of 1] l [of 2] l [of 3] by simp_all
qed


section \<open>One instruction\<close>

lemma REG_STATE_upd [simp]: "wf_state s \<Longrightarrow> REG_STATE (upd_reg_state f s) = f (REG_STATE s)"
  by (simp add: REG_STATE_def upd_reg_state_def wf_state_def)

lemma upd_reg_state_frame [simp]: "dataAlign (upd_reg_state f s) = dataAlign s"
  by (simp add: upd_reg_state_def)

lemma abs_state_sel [simp]:
  "rm_loc (abs_state s) = loc s" "rm_code (abs_state s) = codeAlign s"
  "rm_data (abs_state s) = dataAlign s" "rm_row (abs_state s) = abs_row (REG_STATE s)"
  by (simp_all add: abs_state_def)

text \<open>The step on an encoded instruction goes on behind it, in a state with this abstraction.\<close>

definition steps_to :: "cfi_args \<Rightarrow> addr \<Rightarrow> unwind_state \<Rightarrow> u8 list \<Rightarrow> row_machine \<Rightarrow> bool" where
  "steps_to a p s bs st \<longleftrightarrow>
     (\<exists>s'. cfi_step a p s = Ok (CfiNext True (p + of_nat (length bs)) s') \<and> abs_state s' = st)"

lemma step_op:
  "enc_at a p (b # bs) \<Longrightarrow> drop_bit 6 b = 0 \<Longrightarrow>
   cfi_ext_op a b (p + 1) s = Ok (CfiNext True (p + 1 + of_nat (length bs)) s') \<Longrightarrow>
   steps_to a p s (b # bs) (abs_state s')"
  using enc_at_Cons(1) [of a p b bs]
  by (auto simp: steps_to_def cfi_step_def algebra_simps)

lemma step_op1:
  assumes "enc_at a p (b # uleb_enc n)" "ok_num n" "drop_bit 6 b = 0"
    "\<And>q. cfi_uleb a (p + 1) = Ok (of_nat n, q) \<Longrightarrow> cfi_ext_op a b (p + 1) s = Ok (CfiNext True q s')"
  shows "steps_to a p s (b # uleb_enc n) (abs_state s')"
  using step_op [OF assms(1,3)] assms(4) cfi_uleb_enc [OF enc_at_Cons(2) [OF assms(1)] assms(2)]
  by simp

lemma step_op1s:
  assumes "enc_at a p (b # sleb_enc v)" "ok_int v" "drop_bit 6 b = 0"
    "\<And>q. cfi_sleb a (p + 1) = Ok (of_int v, q) \<Longrightarrow> cfi_ext_op a b (p + 1) s = Ok (CfiNext True q s')"
  shows "steps_to a p s (b # sleb_enc v) (abs_state s')"
  using step_op [OF assms(1,3)] assms(4) cfi_sleb_enc [OF enc_at_Cons(2) [OF assms(1)] assms(2)]
  by simp

lemma step_op2:
  assumes "enc_at a p (b # uleb_enc r @ uleb_enc n)" "ok_num r" "ok_num n" "drop_bit 6 b = 0"
    "\<And>q q'. cfi_uleb a (p + 1) = Ok (of_nat r, q) \<Longrightarrow> cfi_uleb a q = Ok (of_nat n, q') \<Longrightarrow>
       cfi_ext_op a b (p + 1) s = Ok (CfiNext True q' s')"
  shows "steps_to a p s (b # uleb_enc r @ uleb_enc n) (abs_state s')"
proof -
  note e = enc_at_append [OF enc_at_Cons(2) [OF assms(1)]]
  show ?thesis
    using assms(5) [OF cfi_uleb_enc [OF e(1) assms(2)] cfi_uleb_enc [OF e(2) assms(3)]]
    by (intro step_op [OF assms(1,4)]) (simp add: algebra_simps)
qed

lemma step_op2s:
  assumes "enc_at a p (b # uleb_enc r @ sleb_enc v)" "ok_num r" "ok_int v" "drop_bit 6 b = 0"
    "\<And>q q'. cfi_uleb a (p + 1) = Ok (of_nat r, q) \<Longrightarrow> cfi_sleb a q = Ok (of_int v, q') \<Longrightarrow>
       cfi_ext_op a b (p + 1) s = Ok (CfiNext True q' s')"
  shows "steps_to a p s (b # uleb_enc r @ sleb_enc v) (abs_state s')"
proof -
  note e = enc_at_append [OF enc_at_Cons(2) [OF assms(1)]]
  show ?thesis
    using assms(5) [OF cfi_uleb_enc [OF e(1) assms(2)] cfi_sleb_enc [OF e(2) assms(3)]]
    by (intro step_op [OF assms(1,4)]) (simp add: algebra_simps)
qed

lemmas step_unfolds = cfi_ext_op_def cfi_rule_op_def cfi_cfa_op_def cfi_gnu_op_def
  cfi_offset_op_def cfi_no_state_op_def DW_CFA_defs cfi_map_def map_reg_def DWARF_REG_MAP_def
  cfa_map_def

lemma sim_rule2:
  assumes "wf_state s" "\<not> c_compat a" "ok_reg r" "ok_num n"
  shows "enc_at a p (enc_insn i) \<Longrightarrow> i \<in> {IOffsetExt r n, IValOffset r n, IRegister r n, INegOffsetExt r n} \<Longrightarrow>
     exec_insn i (abs_state s) = Some st \<Longrightarrow> steps_to a p s (enc_insn i) st"
  using assms abs_setters(3-5) [OF assms(1), of r, symmetric] ok_reg_num [OF assms(3)]
  by (auto simp: ok_reg_def step_unfolds intro!: step_op2)

lemma sim_rule2s:
  assumes "wf_state s" "\<not> c_compat a" "ok_reg r" "ok_int v"
  shows "enc_at a p (enc_insn i) \<Longrightarrow> i \<in> {IOffsetExtSf r v, IValOffsetSf r v} \<Longrightarrow>
     exec_insn i (abs_state s) = Some st \<Longrightarrow> steps_to a p s (enc_insn i) st"
  using assms abs_setters(3-4) [OF assms(1), of r, symmetric] ok_reg_num [OF assms(3)]
  by (auto simp: ok_reg_def step_unfolds intro!: step_op2s)

lemma sim_rule1:
  assumes "wf_state s" "\<not> c_compat a" "ok_reg r"
  shows "enc_at a p (enc_insn i) \<Longrightarrow> i \<in> {IRestoreExt r, ISameValue r, IUndefined r} \<Longrightarrow>
     exec_insn i (abs_state s) = Some st \<Longrightarrow> steps_to a p s (enc_insn i) st"
  using assms abs_setters(1,2,6) [OF assms(1), of r, symmetric] ok_reg_num [OF assms(3)]
  by (auto simp: ok_reg_def step_unfolds intro!: step_op1)


lemma abs_cfa:
  assumes "wf_state s"
  shows "set_cfa (CfaRegOff r v) (abs_state s) =
     abs_state (upd_reg_state (\<lambda>rs. rs\<lparr>cfa_off := v\<rparr>)
       (upd_reg_state (\<lambda>rs. rs\<lparr>cfa_is_expr := False, cfa_reg := r\<rparr>) s))"
    "\<not> cfa_is_expr (REG_STATE s) \<Longrightarrow> set_cfa (CfaRegOff (cfa_reg (REG_STATE s)) v) (abs_state s) =
     abs_state (upd_reg_state (\<lambda>rs. rs\<lparr>cfa_off := v\<rparr>) s)"
    "\<not> cfa_is_expr (REG_STATE s) \<Longrightarrow> set_cfa (CfaRegOff r (cfa_off (REG_STATE s))) (abs_state s) =
     abs_state (upd_reg_state (\<lambda>rs. rs\<lparr>cfa_reg := r\<rparr>) s)"
  using assms
  by (simp_all add: set_cfa_def abs_upd_reg_state wf_upd_cfa abs_row_def)

lemma sim_def_cfa:
  assumes "wf_state s" "\<not> c_compat a" "ok_num r"
  shows "ok_num n \<Longrightarrow> enc_at a p (enc_insn (IDefCfa r n)) \<Longrightarrow> exec_insn (IDefCfa r n) (abs_state s) = Some st \<Longrightarrow>
      steps_to a p s (enc_insn (IDefCfa r n)) st"
    "ok_int v \<Longrightarrow> enc_at a p (enc_insn (IDefCfaSf r v)) \<Longrightarrow> exec_insn (IDefCfaSf r v) (abs_state s) = Some st \<Longrightarrow>
      steps_to a p s (enc_insn (IDefCfaSf r v)) st"
  using assms
  by (auto simp: abs_cfa(1) step_unfolds cfi_cfa_offset_def cfi_cfa_offset_sf_def wf_upd_cfa
      intro!: step_op2 step_op2s)

lemma sim_cfa1:
  assumes "wf_state s" "\<not> c_compat a" "ok_num n"
  shows "enc_at a p (enc_insn i) \<Longrightarrow> i \<in> {IDefCfaRegister n, IDefCfaOffset n, IArgsSize n} \<Longrightarrow>
     exec_insn i (abs_state s) = Some st \<Longrightarrow> steps_to a p s (enc_insn i) st"
  using assms abs_cfa(2,3) [OF assms(1)]
  by (auto simp: abs_row_def step_unfolds cfi_cfa_offset_def intro!: step_op1 split: if_splits)

lemma sim_cfa1s:
  assumes "wf_state s" "\<not> c_compat a" "ok_int v" "enc_at a p (enc_insn (IDefCfaOffsetSf v))"
    "exec_insn (IDefCfaOffsetSf v) (abs_state s) = Some st"
  shows "steps_to a p s (enc_insn (IDefCfaOffsetSf v)) st"
  using assms abs_cfa(2) [OF assms(1)]
  by (auto simp: abs_row_def step_unfolds cfi_cfa_offset_sf_def intro!: step_op1s split: if_splits)

lemma abs_loc: "abs_state (s\<lparr>loc := v\<rparr>) = (abs_state s)\<lparr>rm_loc := v\<rparr>"
  by (simp add: abs_state_def REG_STATE_def)

lemma sim_offset:
  assumes "wf_state s" "\<not> c_compat a" "ok_reg r" "ok_num n" "enc_at a p (enc_insn (IOffset r n))"
  shows "steps_to a p s (enc_insn (IOffset r n)) (set_rule r (ROffset (of_nat n * dataAlign s)) (abs_state s))"
proof -
  have r: "r < 64" "r < NREGS" using assms(3) by (simp_all add: ok_reg_def)
  have e: "enc_at a p (of_nat (128 + r) # uleb_enc n)" using assms(5) by (simp only: enc_insn.simps)
  have l: "load8 (c_mem a) p = Ok (of_nat (128 + r))"
    by (rule load8_Some) (rule enc_at_Cons(1) [OF e])
  have "cfi_step a p s = Ok (CfiNext True (p + 1 + of_nat (length (uleb_enc n)))
     (set_offset_rule (of_nat r) Memory (of_nat n * dataAlign s) s))"
    using assms(2) unfolding cfi_step_def l rbind.simps Let_def op_bits [OF r(1)]
      cfi_uleb_enc [OF enc_at_Cons(2) [OF e] assms(4)]
    by (simp add: cfi_map_def map_reg_def DWARF_REG_MAP_def)
  then show ?thesis
    using abs_setters(3) [OF assms(1) r(2)] by (simp add: steps_to_def algebra_simps)
qed

lemma sim_restore:
  assumes "wf_state s" "\<not> c_compat a" "ok_reg r" "enc_at a p (enc_insn (IRestore r))"
  shows "steps_to a p s (enc_insn (IRestore r)) (set_rule r (rm_init (abs_state s) ! r) (abs_state s))"
proof -
  have r: "r < 64" "r < NREGS" using assms(3) by (simp_all add: ok_reg_def)
  have e: "enc_at a p [of_nat (192 + r)]" using assms(4) by (simp only: enc_insn.simps)
  have l: "load8 (c_mem a) p = Ok (of_nat (192 + r))"
    by (rule load8_Some) (rule enc_at_Cons(1) [OF e])
  have "cfi_step a p s = Ok (CfiNext True (p + 1) (restore_rule (of_nat r) s))"
    using assms(2) unfolding cfi_step_def l rbind.simps Let_def op_bits [OF r(1)]
    by (simp add: cfi_map_def map_reg_def DWARF_REG_MAP_def)
  then show ?thesis
    using abs_setters(6) [OF assms(1) r(2)] by (simp add: steps_to_def)
qed

lemma abs_advance:
  "move_loc d (abs_state s) = Some st \<Longrightarrow> \<exists>s'. cfi_advance d p s = CfiNext True p s' \<and> abs_state s' = st"
  by (auto simp: move_loc_def cfi_advance_def advance_loc_def abs_loc word_gt_0 split: if_splits)

lemma sim_advance:
  assumes "d < 64" "enc_at a p (enc_insn (IAdvance d))" "move_loc d (abs_state s) = Some st"
  shows "steps_to a p s (enc_insn (IAdvance d)) st"
proof -
  have r: "unat d < 64" using assms(1) by (simp add: word_less_nat_alt)
  have e: "enc_at a p [of_nat (64 + unat d)]" using assms(2) by (simp only: enc_insn.simps)
  have l: "load8 (c_mem a) p = Ok (of_nat (64 + unat d))"
    by (rule load8_Some) (rule enc_at_Cons(1) [OF e])
  have "cfi_step a p s = Ok (cfi_advance d (p + 1) s)"
    unfolding cfi_step_def l rbind.simps Let_def op_bits [OF r]
    by simp
  then show ?thesis using abs_advance [OF assms(3)] by (simp add: steps_to_def)
qed

lemma sim_advance1:
  assumes "enc_at a p (enc_insn (IAdvance1 b))" "move_loc (ucast b) (abs_state s) = Some st"
  shows "steps_to a p s (enc_insn (IAdvance1 b)) st"
proof -
  have e: "enc_at a p [DW_CFA_advance_loc1, b]" using assms(1) by simp
  note e' = enc_at_Cons(2) [OF e]
  obtain s' where "cfi_advance (ucast b) (p + 1 + 1) s = CfiNext True (p + 1 + 1) s'" "abs_state s' = st"
    using abs_advance [OF assms(2)] by blast
  then show ?thesis
    using step_op [OF e, of s s'] enc_at_Cons(1,3) [OF e']
    by (simp add: cfi_ext_op_def DW_CFA_defs)
qed

lemma sim_stack:
  assumes "wf_state s" "enc_at a p (enc_insn i)" "i \<in> {INop, IRemember, IRestoreState}"
    "exec_insn i (abs_state s) = Some st"
  shows "steps_to a p s (enc_insn i) st"
proof -
  have "\<exists>s'. cfi_remember q s = CfiNext True q s' \<and> abs_state s' = st" if "i = IRemember" for q
    using assms that
    by (auto simp: cfi_remember_def abs_state_def REG_STATE_def wf_state_def take_Suc_conv_app_nth
        depth_up Let_def split: if_splits)
  moreover have "\<exists>s'. cfi_restore q s = CfiNext True q s' \<and> abs_state s' = st" if "i = IRestoreState" for q
  proof (cases "unat (stackDepth s)")
    case (Suc k)
    moreover from Suc have "stackDepth s \<noteq> 0" by auto
    ultimately show ?thesis
      using assms that
      by (auto simp: cfi_restore_def abs_state_def REG_STATE_def wf_state_def take_Suc_conv_app_nth
          depth_down)
  qed (use assms that in \<open>simp add: abs_state_def\<close>)
  ultimately show ?thesis
    using assms(2-4) step_op [of a p _ "[]" s]
    by (fastforce simp: cfi_ext_op_def cfi_rule_op_def DW_CFA_defs)
qed

lemma cfi_step_enc:
  assumes "wf_state s" "\<not> c_compat a" "ok_insn i" "enc_at a p (enc_insn i)"
    "exec_insn i (abs_state s) = Some st"
  shows "steps_to a p s (enc_insn i) st"
  using assms
proof (cases i)
  case (IOffset r n)
  then show ?thesis using assms sim_offset [of s a r n p] by (simp del: enc_insn.simps)
next
  case (IRestore r)
  then show ?thesis using assms sim_restore [of s a r p] by (simp del: enc_insn.simps)
next
  case (IAdvance d)
  then show ?thesis using assms sim_advance [of d a p s] by (simp del: enc_insn.simps)
next
  case (IAdvance1 d)
  then show ?thesis using assms sim_advance1 [of a p d s] by (simp del: enc_insn.simps)
qed (auto simp del: enc_insn.simps exec_insn.simps
    intro: sim_rule1 sim_rule2 sim_rule2s sim_def_cfa sim_cfa1 sim_cfa1s sim_stack)


section \<open>Programs\<close>

definition enc_insns :: "cfa_insn list \<Rightarrow> u8 list" where
  "enc_insns is = concat (map enc_insn is)"

lemma enc_insn_Suc: "Suc 0 \<le> length (enc_insn i)"
  by (cases i) simp_all

lemma enc_insns_length: "length is \<le> length (enc_insns is)"
proof (induction "is")
  case (Cons i "is")
  then show ?case
    using enc_insn_Suc [of i] by (simp add: enc_insns_def del: length_concat)
qed (simp add: enc_insns_def)

lemma enc_insns_simps [simp]:
  "enc_insns [] = []" "enc_insns (i # is) = enc_insn i @ enc_insns is"
  by (simp_all add: enc_insns_def)

lemma cfi_loop_enc:
  assumes "wf_state s" "\<not> c_compat a" "list_all ok_insn is" "enc_at a p (enc_insns is)"
    "p + of_nat (length (enc_insns is)) = c_end a" "length is \<le> fuel"
    "exec_insns (c_target a) is (abs_state s) = Some st"
  shows "\<exists>s'. cfi_loop fuel a True p s = Ok (True, s') \<and> abs_state s' = st \<and> wf_state s'"
  using assms
proof (induction "is" arbitrary: p s fuel)
  case Nil
  then show ?case by (simp add: cfi_loop.simps)
next
  case (Cons i "is")
  obtain n where fuel: "fuel = Suc n" using Cons.prems(6) by (cases fuel) auto
  obtain st1 where st1: "exec_insn i (abs_state s) = Some st1"
    using Cons.prems(7) by (auto split: option.splits)
  let ?q = "p + of_nat (length (enc_insn i))"
  have e: "enc_at a p (enc_insn i)" "enc_at a ?q (enc_insns is)"
    using enc_at_append Cons.prems(4) by auto
  obtain s1 where s1: "cfi_step a p s = Ok (CfiNext True ?q s1)" "abs_state s1 = st1"
    using cfi_step_enc [OF Cons.prems(1,2) _ e(1) st1] Cons.prems(3) by (auto simp: steps_to_def)
  have wf: "wf_state s1" using wf_cfi_step [OF Cons.prems(1) s1(1)] by simp
  have "p < c_end a"
    using e(1) enc_insn_Suc [of i] unfolding enc_at_def word_less_nat_alt by linarith
  moreover have "\<not> ?q > c_end a"
    using e(2) by (simp add: enc_at_def word_less_nat_alt)
  moreover have loc1: "rm_loc st1 = loc s1" using s1(2) by auto
  ultimately have step: "cfi_loop fuel a True p s =
    (if c_target a \<noteq> 0 \<and> c_target a < rm_loc st1 then Ok (True, s1) else cfi_loop n a True ?q s1)"
    using s1(1) by (simp add: cfi_loop.simps [of "Suc n"] fuel)
  show ?case
  proof (cases "c_target a \<noteq> 0 \<and> c_target a < rm_loc st1")
    case True
    then show ?thesis using step st1 s1(2) wf Cons.prems(7) by simp
  next
    case False
    then have "exec_insns (c_target a) is (abs_state s1) = Some st"
      using Cons.prems(7) st1 s1(2) by auto
    then show ?thesis
      using Cons.IH [OF wf Cons.prems(2) _ e(2)] Cons.prems(3,5,6) step False fuel
      by (auto simp: algebra_simps)
  qed
qed

lemma run_cfi_enc:
  assumes "wf_state s" "\<not> c_compat a" "list_all ok_insn is" "bytes_at (c_mem a) start (enc_insns is)"
    "unat (c_end a) = unat start + length (enc_insns is)" "length (enc_insns is) \<le> MAX_CFI"
    "exec_insns (c_target a) is (abs_state s) = Some st"
  shows "\<exists>s'. run_cfi_program a start s = Ok (True, s') \<and> abs_state s' = st \<and> wf_state s'"
proof -
  have e: "enc_at a start (enc_insns is)" using assms(4,5) by (simp add: enc_at_def)
  have en: "start + of_nat (length (enc_insns is)) = c_end a"
    using enc_at_bound [OF e] assms(5) by (simp add: word_unat_eq_iff)
  then have "c_end a - start = of_nat (length (enc_insns is))" by (simp flip: en)
  moreover have "unat (of_nat (length (enc_insns is)) :: u64) = length (enc_insns is)"
    using assms(6) by (simp add: unat_of_nat MAX_CFI_def)
  ultimately have "\<not> sint (c_end a - start) > int MAX_CFI"
    using sint_nonneg [of "c_end a - start"] assms(6) by (simp add: MAX_CFI_def)
  moreover have "length is \<le> MAX_CFI" using enc_insns_length [of "is"] assms(6) by simp
  ultimately show ?thesis
    using cfi_loop_enc [OF assms(1-3) e en _ assms(7), of MAX_CFI] by (simp add: run_cfi_program_def)
qed

section \<open>Properties\<close>

text \<open>
  C4. The CFI interpreter implements DWARF's row machine: on the encoding of a list of instructions
  whose meaning, from the row the state stands for, is the row \<open>st\<close>, \<open>run_cfi_program\<close> returns 1, and
  the state it leaves stands for \<open>st\<close>.
\<close>

theorem cfi_program_implements_rows:
  assumes "wf_state s" "\<not> c_compat a" "list_all ok_insn is" "bytes_at (c_mem a) start (enc_insns is)"
    "unat (c_end a) = unat start + length (enc_insns is)" "length (enc_insns is) \<le> MAX_CFI"
    "exec_insns (c_target a) is (abs_state s) = Some st"
  shows "\<exists>s'. run_cfi_program a start s = Ok (True, s') \<and> abs_state s' = st \<and> wf_state s'"
  using assms by (rule run_cfi_enc)

theorem cfi_program_implements_rows_witness:
  "\<exists>s'. run_cfi_program (ex_cfi_args [0x0c, 0x07, 0x08, 0x0a, 0x0e, 0x10, 0x0b, 0x90, 0x01] 0) 0x1000
      (zero_state\<lparr>dataAlign := - 8\<rparr>) = Ok (True, s') \<and>
    row_cfa (rm_row (abs_state s')) = CfaRegOff 7 8 \<and> row_rules (rm_row (abs_state s')) ! 16 = ROffset (- 8)"
proof -
  let ?a = "ex_cfi_args [0x0c, 0x07, 0x08, 0x0a, 0x0e, 0x10, 0x0b, 0x90, 0x01] 0"
  let ?s = "zero_state\<lparr>dataAlign := - 8\<rparr>"
  let ?is = "[IDefCfa 7 8, IRemember, IDefCfaOffset 16, IRestoreState, IOffset 16 1]"
  have e: "enc_insns ?is = [0x0c, 0x07, 0x08, 0x0a, 0x0e, 0x10, 0x0b, 0x90, 0x01]"
    by (simp add: DW_CFA_defs uleb_enc.simps)
  have "\<exists>st. exec_insns 0 ?is (abs_state ?s) = Some st \<and>
      row_cfa (rm_row st) = CfaRegOff 7 8 \<and> row_rules (rm_row st) ! 16 = ROffset (- 8)"
    by (simp add: abs_state_def zero_state_def zero_reg_state_def STP_MAX_STACK_DEPTH_def set_rule_def set_cfa_def abs_row_def
        REG_STATE_def)
  then obtain st where st: "exec_insns 0 ?is (abs_state ?s) = Some st"
    "row_cfa (rm_row st) = CfaRegOff 7 8" "row_rules (rm_row st) ! 16 = ROffset (- 8)" by blast
  have "wf_state ?s" using wf_zero_state by (simp add: wf_state_def)
  then show ?thesis
    using cfi_program_implements_rows [of ?s ?a ?is "0x1000" st, unfolded e] st
    by (auto simp: ex_cfi_args_def mem_of_def MAX_CFI_def ok_reg_def ok_num_def
        simp del: exec_insns.simps exec_insn.simps)
qed

text \<open>
  C22. The interpreter keeps the shape of \<open>struct unwind_state\<close>: from a well-formed state, a program
  that is accepted leaves the arrays with their declared lengths and the eight-bit depth of the state
  stack below \<open>STP_MAX_STACK_DEPTH\<close>, so that no later access through \<open>REG_STATE\<close> or to a register rule is
  out of bounds. In particular no sequence of \<open>DW_CFA_restore_state\<close> makes the unsigned depth wrap to
  255, and no sequence of \<open>DW_CFA_remember_state\<close> makes it run past the array.
\<close>

theorem cfi_program_keeps_state:
  assumes "wf_state s" "run_cfi_program a start s = Ok (True, s')"
  shows "wf_state s'"
  using assms wf_cfi_loop [OF assms(1)] by (auto simp: run_cfi_program_def split: if_splits)

theorem cfi_program_keeps_state_witness:
  "\<exists>s'. run_cfi_program (ex_cfi_args [0x0a, 0x0c, 0x07, 0x08, 0x0b] 0) 0x1000 zero_state = Ok (True, s') \<and>
     wf_state s'"
proof -
  let ?a = "ex_cfi_args [0x0a, 0x0c, 0x07, 0x08, 0x0b] 0"
  let ?is = "[IRemember, IDefCfa 7 8, IRestoreState]"
  have e: "enc_insns ?is = [0x0a, 0x0c, 0x07, 0x08, 0x0b]" by (simp add: DW_CFA_defs uleb_enc.simps)
  have "\<exists>st. exec_insns 0 ?is (abs_state zero_state) = Some st"
    by (simp add: abs_state_def zero_state_def STP_MAX_STACK_DEPTH_def set_cfa_def)
  then obtain s' where "run_cfi_program ?a 0x1000 zero_state = Ok (True, s')"
    using run_cfi_enc [of zero_state ?a ?is "0x1000", unfolded e]
    by (auto simp: ex_cfi_args_def mem_of_def MAX_CFI_def ok_reg_def ok_num_def
        simp del: exec_insns.simps exec_insn.simps)
  then show ?thesis using cfi_program_keeps_state [OF wf_zero_state] by blast
qed

end
