(* ===== verification/Cie_Fde.thy ===== *)
theory Cie_Fde
  imports Cfi_Safety
begin

text \<open>
  The records of \<^verbatim>\<open>.eh_frame\<close>, common information entries and frame description entries:
  \<open>has_cie_id\<close>, \<open>check_fde\<close>, \<open>cie_for_fde\<close> and \<open>parse_fde_cie\<close> of \<^verbatim>\<open>src/unwind.c\<close>, and
  \<open>struct section\<close> of \<^verbatim>\<open>src/unwind/unwind.h\<close>. A pointer is its address, \<open>NULL\<close> the address 0.
\<close>

section \<open>Sections\<close>

record eh_section =
  sec_offset :: u64
  sec_ubuf :: addr
  sec_kbuf :: addr
  sec_size :: u32

section \<open>Entries of the table\<close>

definition has_cie_id :: "kmem \<Rightarrow> addr \<Rightarrow> bool \<Rightarrow> bool res" where
  "has_cie_id m cie is_ehframe =
     rbind (load32 m (cie + 4)) (\<lambda>id.
       Ok (if is_ehframe \<and> id = 0 then True else if id = 0xffffffff then True else False))"

definition check_fde :: "kmem \<Rightarrow> addr \<Rightarrow> addr \<Rightarrow> u32 \<Rightarrow> bool \<Rightarrow> bool res" where
  "check_fde m fde table table_len is_ehframe =
     rbind (load32 m fde) (\<lambda>len.
       if len = 0 \<or> len AND 3 \<noteq> 0 then Ok False
       else rbind (has_cie_id m fde is_ehframe) (\<lambda>c.
         if c then Ok False
         else let fend = fde + 4 + ucast len
              in Ok (\<not> (fend < table \<or> fend > table + ucast table_len))))"

text \<open>
  The CIE pointer of an FDE is an offset back from its own field in \<^verbatim>\<open>.eh_frame\<close>, and an offset
  from the start of the table in \<^verbatim>\<open>.debug_frame\<close>. The comparisons with \<open>sizeof\<close> are made in
  \<open>unsigned long\<close>.
\<close>

definition cie_address :: "addr \<Rightarrow> addr \<Rightarrow> u32 \<Rightarrow> bool \<Rightarrow> addr" where
  "cie_address fde unwind_data ptr is_ehframe =
     (if is_ehframe then fde + 4 - 4 * (ucast ptr div 4) else unwind_data + ucast ptr)"

definition cie_for_fde :: "kmem \<Rightarrow> addr \<Rightarrow> eh_section \<Rightarrow> bool \<Rightarrow> addr res" where
  "cie_for_fde m fde ehf is_ehframe =
     (let unwind_data = sec_kbuf ehf; tend = unwind_data + ucast (sec_size ehf)
      in rbind (load32 m (fde + 4)) (\<lambda>ptr.
        if ptr AND 3 \<noteq> 0 \<or> ucast ptr > fde + 4 - unwind_data then Ok 0
        else let cie = cie_address fde unwind_data ptr is_ehframe
          in if cie < unwind_data \<or> cie > tend then Ok 0
             else rbind (load32 m cie) (\<lambda>len.
               if (ucast len :: u64) \<le> 8 \<or> ucast len \<ge> (ucast ptr - 4 :: u64) then Ok 0
               else rbind (has_cie_id m cie is_ehframe) (\<lambda>c.
                 if \<not> c then Ok 0
                 else rbind (load8 m (cie + 8)) (\<lambda>version.
                   if version \<noteq> 1 \<and> version \<noteq> 3 \<and> version \<noteq> 4 then Ok 0
                   else let cend = cie + 4 + ucast len
                        in Ok (if cend < unwind_data \<or> cend > tend then 0 else cie))))))"

section \<open>Parsing\<close>

text \<open>The out parameters of \<open>parse_fde_cie\<close>; a failing call's are not used by its caller.\<close>

record fde_cie =
  fc_ptrType :: u32
  fc_startLoc :: u64
  fc_locRange :: u64
  fc_fdeStart :: addr
  fc_fdeEnd :: addr
  fc_cieStart :: addr
  fc_cieEnd :: addr
  fc_codeAlign :: u64
  fc_dataAlign :: u64
  fc_retAddrReg :: u64
  fc_call_frame :: bool

text \<open>\<open>memchr(p, 0, n)\<close>; \<open>None\<close> is \<open>NULL\<close>.\<close>

fun memchr0 :: "kmem \<Rightarrow> addr \<Rightarrow> nat \<Rightarrow> addr option res" where
  "memchr0 m p 0 = Ok None"
| "memchr0 m p (Suc n) =
     rbind (load8 m p) (\<lambda>b. if b = 0 then Ok (Some p) else memchr0 m (p + 1) n)"

text \<open>
  One character of the augmentation string: it consumes augmentation data at the cursor, and may
  set the pointer encoding or clear \<open>call_frame\<close>. \<open>None\<close> is \<open>return -1\<close>.
\<close>

definition aug_char ::
  "kmem \<Rightarrow> uaccess \<Rightarrow> bool \<Rightarrow> bool \<Rightarrow> addr \<Rightarrow> u8 \<Rightarrow> addr \<times> u32 \<times> bool \<Rightarrow> (addr \<times> u32 \<times> bool) option res"
where
  "aug_char m ua user compat_task cieStart ch st =
     (let (ciePtr, ptrType, cf) = st
      in if ciePtr > cieStart then Ok None
         else if ch = 0x7a then Ok (Some (ciePtr, ptrType, cf))
         else if ch = 0x4c then Ok (Some (ciePtr + 1, ptrType, cf))
         else if ch = 0x50 then
           rbind (load8 m ciePtr) (\<lambda>b.
           rbind (read_pointer m ua (ciePtr + 1) cieStart (ucast (b AND 0x7f)) user compat_task)
             (\<lambda>(v, q). Ok (if v = 0 then None else Some (q, ptrType, cf))))
         else if ch = 0x52 then
           rbind (load8 m ciePtr) (\<lambda>b. Ok (Some (ciePtr + 1, ucast b, cf)))
         else if ch = 0x53 then Ok (Some (ciePtr, ptrType, False))
         else Ok None)"

text \<open>
  The loop over the augmentation string. Its fuel is the distance to the NUL that \<open>memchr\<close> found,
  where it stops.
\<close>

fun aug_loop ::
  "nat \<Rightarrow> kmem \<Rightarrow> uaccess \<Rightarrow> bool \<Rightarrow> bool \<Rightarrow> addr \<Rightarrow> addr \<Rightarrow> addr \<times> u32 \<times> bool \<Rightarrow>
   (addr \<times> u32 \<times> bool) option res" where
  "aug_loop fuel m ua user compat_task cieStart aug st =
     rbind (load8 m aug) (\<lambda>ch.
       if ch = 0 then Ok (Some st)
       else case fuel of
           0 \<Rightarrow> Fault NoFuel
         | Suc n \<Rightarrow> rbind (aug_char m ua user compat_task cieStart ch st) (\<lambda>r.
             case r of
               None \<Rightarrow> Ok None
             | Some st' \<Rightarrow> aug_loop n m ua user compat_task cieStart (aug + 1) st'))"

declare aug_loop.simps [simp del]

text \<open>
  The augmentation length, read when the string starts with 'z'. The bound's pointer difference
  \<open>cie - cieEnd\<close> is negative and is compared as an \<open>unsigned long\<close>.
\<close>

definition aug_length :: "kmem \<Rightarrow> addr \<Rightarrow> addr \<Rightarrow> addr \<Rightarrow> (u64 \<times> addr) option res" where
  "aug_length m base p lim =
     rbind (get_uleb128 m p lim) (\<lambda>(augLen, q).
       Ok (if augLen > base - lim \<or> q + augLen > lim then None else Some (augLen, q)))"

text \<open>The FDE's fields: the location, the range and, after augmentation data, the program.\<close>

definition parse_fde ::
  "kmem \<Rightarrow> uaccess \<Rightarrow> bool \<Rightarrow> bool \<Rightarrow> addr \<Rightarrow> addr \<Rightarrow> u64 \<Rightarrow> u32 \<Rightarrow> (u64 \<times> u64 \<times> addr) option res" where
  "parse_fde m ua user compat_task fde fdeEnd augLen ptrType =
     rbind (read_pointer m ua (fde + 8) fdeEnd ptrType user compat_task) (\<lambda>(startLoc, p).
     rbind (read_pointer m ua p fdeEnd (ptrType AND (DW_EH_PE_FORM OR DW_EH_PE_signed)) user compat_task)
       (\<lambda>(locRange, p).
         if augLen \<noteq> 0
         then rbind (aug_length m fde p fdeEnd) (\<lambda>r.
           Ok (case r of None \<Rightarrow> None | Some (n, q) \<Rightarrow> Some (startLoc, locRange, q + n)))
         else Ok (Some (startLoc, locRange, p + augLen))))"

text \<open>The CIE after its alignment factors: return register, augmentation data, then the FDE.\<close>

definition parse_aug ::
  "kmem \<Rightarrow> uaccess \<Rightarrow> bool \<Rightarrow> bool \<Rightarrow> addr \<Rightarrow> addr \<Rightarrow> addr \<Rightarrow> addr \<Rightarrow> nat \<Rightarrow>
   (u64 \<times> addr \<times> u32 \<times> bool) option res" where
  "parse_aug m ua user compat_task cie cieEnd aug ciePtr fuel =
     rbind (load8 m aug) (\<lambda>a0.
     rbind (if a0 = 0x7a then aug_length m cie ciePtr cieEnd else Ok (Some (0, ciePtr))) (\<lambda>r.
       case r of
         None \<Rightarrow> Ok None
       | Some (augLen, p) \<Rightarrow>
           let cieStart = p + augLen
           in rbind (aug_loop fuel m ua user compat_task cieStart aug (p, DW_EH_PE_absptr, True)) (\<lambda>r.
                case r of
                  None \<Rightarrow> Ok None
                | Some (q, ptrType, cf) \<Rightarrow>
                    Ok (if q \<noteq> cieStart then None
                        else Some (augLen, cieStart, ptrType, cf)))))"

definition parse_fde_cie ::
  "kmem \<Rightarrow> uaccess \<Rightarrow> addr \<Rightarrow> addr \<Rightarrow> bool \<Rightarrow> bool \<Rightarrow> fde_cie option res" where
  "parse_fde_cie m ua fde cie user compat_task =
     rbind (load8 m (cie + 8)) (\<lambda>version.
     rbind (load32 m cie) (\<lambda>cieLen.
     rbind (load32 m fde) (\<lambda>fdeLen.
     let aug = cie + 9; cieEnd = cie + 4 + ucast cieLen; fdeEnd = fde + 4 + ucast fdeLen
     in rbind (memchr0 m aug (unat (cieEnd - aug))) (\<lambda>r.
       case r of
         None \<Rightarrow> Ok None
       | Some nul \<Rightarrow>
         rbind (get_uleb128 m (nul + 1) cieEnd) (\<lambda>(codeAlign, p).
         rbind (get_sleb128 m p cieEnd) (\<lambda>(dataAlign, p).
           if codeAlign = 0 \<or> dataAlign = 0 then Ok None
           else rbind (if version \<le> 1 then rbind (load8 m p) (\<lambda>b. Ok (ucast b, p + 1))
                       else get_uleb128 m p cieEnd) (\<lambda>(ra, p).
             rbind (parse_aug m ua user compat_task cie cieEnd aug p (unat (nul - aug))) (\<lambda>r.
               case r of
                 None \<Rightarrow> Ok None
               | Some (augLen, cieStart, ptrType, cf) \<Rightarrow>
                 rbind (parse_fde m ua user compat_task fde fdeEnd augLen ptrType) (\<lambda>r.
                   Ok (case r of
                         None \<Rightarrow> None
                       | Some (startLoc, locRange, fdeStart) \<Rightarrow>
                           Some \<lparr>fc_ptrType = ptrType, fc_startLoc = startLoc,
                             fc_locRange = locRange, fc_fdeStart = fdeStart, fc_fdeEnd = fdeEnd,
                             fc_cieStart = cieStart, fc_cieEnd = cieEnd,
                             fc_codeAlign = codeAlign, fc_dataAlign = dataAlign,
                             fc_retAddrReg = map_reg compat_task ra,
                             fc_call_frame = cf\<rparr>))))))))))"

end
