(* ===== verification/Cie_Enc.thy ===== *)
theory Cie_Enc
  imports Cfi_Spec Cie_Fde
begin

text \<open>
  The entries that compilers emit for x86-64: CIEs of version 1 or 3 whose augmentation starts with \<^verbatim>\<open>z\<close>, followed by
  any of \<^verbatim>\<open>L\<close>, \<^verbatim>\<open>P\<close>, \<^verbatim>\<open>R\<close> and \<^verbatim>\<open>S\<close>, and FDEs with code pointers in any encoding that is not indirect, and any augmentation data.
  \<open>parse_fde_cie\<close> reads back from their bytes what was encoded.
\<close>

section \<open>Images\<close>

text \<open>
  Augmentations: the encoding of the language specific data pointers, the personality routine (as an
  indirect pc-relative pointer), the encoding of the code pointers, and signal frames.
\<close>

datatype aug_item = AugL u8 | AugP u32 | AugR u8 | AugS

primrec aug_ch :: "aug_item \<Rightarrow> u8" where
  "aug_ch (AugL b) = 0x4c"
| "aug_ch (AugP v) = 0x50"
| "aug_ch (AugR b) = 0x52"
| "aug_ch AugS = 0x53"

primrec aug_bytes :: "aug_item \<Rightarrow> u8 list" where
  "aug_bytes (AugL b) = [b]"
| "aug_bytes (AugP v) = 0x9b # w32 v"
| "aug_bytes (AugR b) = [b]"
| "aug_bytes AugS = []"

definition aug_data :: "aug_item list \<Rightarrow> u8 list" where
  "aug_data augs = concat (map aug_bytes augs)"

text \<open>The encoding of the code pointers: the last one given, and absolute addresses where there is none.\<close>

primrec aug_type :: "u32 \<Rightarrow> aug_item list \<Rightarrow> u32" where
  "aug_type ty [] = ty"
| "aug_type ty (a # augs) = aug_type (case a of AugR b \<Rightarrow> ucast b | _ \<Rightarrow> ty) augs"

definition code_type :: "aug_item list \<Rightarrow> u32" where
  "code_type augs = aug_type DW_EH_PE_absptr augs"

text \<open>The return address register is a byte in version 1, and a LEB128 number later.\<close>

definition ra_enc :: "u8 \<Rightarrow> u8 \<Rightarrow> u8 list" where
  "ra_enc ver ra = (if ver \<le> 1 then [ra] else uleb_enc (unat ra))"

definition cie_body :: "u8 \<Rightarrow> aug_item list \<Rightarrow> nat \<Rightarrow> int \<Rightarrow> u8 \<Rightarrow> u8 list \<Rightarrow> u8 list" where
  "cie_body ver augs code data ra prog =
     w32 0 @ [ver, 0x7a] @ map aug_ch augs @ [0] @ uleb_enc code @ sleb_enc data @
     ra_enc ver ra @ uleb_enc (length (aug_data augs)) @ aug_data augs @ prog"

definition cie_image :: "u8 \<Rightarrow> aug_item list \<Rightarrow> nat \<Rightarrow> int \<Rightarrow> u8 \<Rightarrow> u8 list \<Rightarrow> u8 list" where
  "cie_image ver augs code data ra prog =
     (let body = cie_body ver augs code data ra prog in w32 (of_nat (length body)) @ body)"

text \<open>The location of the function, relative to what its type names, and the size of its code.\<close>

definition fde_body :: "u32 \<Rightarrow> u32 \<Rightarrow> u64 \<Rightarrow> u64 \<Rightarrow> u8 list \<Rightarrow> u8 list \<Rightarrow> u8 list" where
  "fde_body ty ptr start rng lsda prog =
     w32 ptr @ ptr_bytes False ty start @ ptr_bytes False ty rng @ uleb_enc (length lsda) @ lsda @ prog"

definition fde_image :: "u32 \<Rightarrow> u32 \<Rightarrow> u64 \<Rightarrow> u64 \<Rightarrow> u8 list \<Rightarrow> u8 list \<Rightarrow> u8 list" where
  "fde_image ty ptr start rng lsda prog =
     (let body = fde_body ty ptr start rng lsda prog in w32 (of_nat (length body)) @ body)"

text \<open>The encodings that can be written and read back.\<close>

definition fde_ptrs_ok :: "u32 \<Rightarrow> u64 \<Rightarrow> u64 \<Rightarrow> bool" where
  "fde_ptrs_ok ty start rng \<longleftrightarrow> ptr_direct ty \<and> ptr_fits False ty start \<and> ptr_fits False ty rng"

text \<open>
  Where a personality routine is given, its address is not null: a pointer that reads as 0 counts as
  unreadable.
\<close>

fun personality_ok :: "addr \<Rightarrow> aug_item list \<Rightarrow> bool" where
  "personality_ok p [] = True"
| "personality_ok p (a # augs) =
     ((case a of AugP v \<Rightarrow> scast v + (p + 1) \<noteq> 0 | _ \<Rightarrow> True) \<and>
      personality_ok (p + of_nat (length (aug_bytes a))) augs)"

section \<open>Reading them back\<close>

lemma load32_w32: "bytes_at m p (w32 x) \<Longrightarrow> load32 m p = Ok x"
  by (simp add: load32_def load_le_w32) (rule bit_word_eqI, simp add: bit_simps)

lemma u32_length: "n < 2 ^ 32 \<Longrightarrow> (ucast (of_nat n :: u32) :: u64) = of_nat n"
  by (simp add: unsigned_of_nat take_bit_nat_eq_self)

lemma uleb_enc_nonempty: "Suc 0 \<le> length (uleb_enc n)"
  by (subst uleb_enc.simps) simp

lemma get_uleb_enc:
  assumes "bytes_at m p (uleb_enc n)" "unat p + length (uleb_enc n) \<le> unat lim" "ok_num n"
  shows "get_uleb128 m p lim = Ok (of_nat n, p + of_nat (length (uleb_enc n)))"
  using uleb_loop_enc [OF assms(1,2), of 0 0] assms(3) by (simp add: get_uleb128_def ok_num_def)

lemma get_sleb_enc:
  assumes "bytes_at m p (sleb_enc v)" "unat p + length (sleb_enc v) \<le> unat lim" "ok_int v"
  shows "get_sleb128 m p lim = Ok (of_int v, p + of_nat (length (sleb_enc v)))"
  using sleb_loop_enc [OF assms(1,2), of 0 0] assms(3) by (simp add: get_sleb128_def ok_int_def sleb_lost_def)

lemma unat_diff_neg:
  assumes "unat (a :: u64) < unat b"
  shows "unat (a - b) = 2 ^ 64 - (unat b - unat a)"
proof -
  let ?d = "unat b - unat a"
  have "(of_nat ?d :: u64) = b - a" using assms by (simp add: of_nat_diff)
  moreover have "(of_nat (2 ^ 64 - ?d) :: u64) = - of_nat ?d"
    using unat_u64_less [of b] by (subst of_nat_diff) simp_all
  ultimately have "a - b = of_nat (2 ^ 64 - ?d)" by simp
  moreover have "2 ^ 64 - ?d < (2 :: nat) ^ 64" using assms by simp
  ultimately show ?thesis by (simp add: unat_of_nat take_bit_nat_eq_self)
qed

text \<open>
  The length of augmentation data, read at \<open>p\<close>, with the data and what follows it below \<open>lim\<close>; the first
  comparison of the code holds for every length that fits, as its difference is a negative one.
\<close>

lemma aug_length_enc:
  assumes "bytes_at m p (uleb_enc n)" "unat p + length (uleb_enc n) + n \<le> unat lim" "unat base \<le> unat p"
    "unat lim < unat base + 2 ^ 33"
  shows "aug_length m base p lim = Ok (Some (of_nat n, p + of_nat (length (uleb_enc n))))"
proof -
  let ?k = "length (uleb_enc n)"
  have k: "Suc 0 \<le> ?k" by (rule uleb_enc_nonempty)
  have n: "n < 2 ^ 33" using assms(2-4) by linarith
  have "unat (p + of_nat (?k + n)) = unat p + (?k + n)"
    using assms(2) unat_u64_less [of lim] by (intro unat_add_nowrap) linarith
  then have le: "\<not> lim < p + of_nat ?k + of_nat n" using assms(2) by (simp add: word_less_nat_alt add.assoc)
  have un: "unat (of_nat n :: u64) = n" using n by (simp add: unat_of_nat take_bit_nat_eq_self)
  have "unat base < unat lim" using assms(2,3) k by linarith
  then have "unat (base - lim) = 2 ^ 64 - (unat lim - unat base)" by (rule unat_diff_neg)
  then have "\<not> base - lim < of_nat n" using assms(3,4) un n by (simp add: word_less_nat_alt)
  then show ?thesis
    using get_uleb_enc [OF assms(1), of lim] assms(2) n le by (simp add: aug_length_def ok_num_def)
qed

text \<open>The size of the code is read in the form of its location, and relative to nothing.\<close>

lemma range_type:
  "ptr_direct ty \<Longrightarrow> ptr_direct (ty AND (DW_EH_PE_FORM OR DW_EH_PE_signed))"
  "ptr_bytes c (ty AND (DW_EH_PE_FORM OR DW_EH_PE_signed)) x = ptr_bytes c ty x"
  "ptr_fits c (ty AND (DW_EH_PE_FORM OR DW_EH_PE_signed)) x = ptr_fits c ty x"
  "ptr_base (ty AND (DW_EH_PE_FORM OR DW_EH_PE_signed)) p ta da = 0"
proof -
  have "0 \<le> sint (ty AND 15)" by (simp add: signed_and_eq)
  then show "ptr_direct ty \<Longrightarrow> ptr_direct (ty AND (DW_EH_PE_FORM OR DW_EH_PE_signed))"
    by (simp add: ptr_direct_def DW_EH_PE_defs and.assoc)
qed (simp_all add: ptr_bytes_def ptr_fits_def ptr_base_def DW_EH_PE_defs and.assoc Let_def)

lemma ptr_bytes_nonempty: "Suc 0 \<le> length (ptr_bytes c ty x)"
proof -
  have "Suc 0 \<le> length (sleb_enc v)" for v by (subst sleb_enc.simps) simp
  then show ?thesis
    using uleb_enc_nonempty by (auto simp: ptr_bytes_def Let_def Suc_le_eq simp del: length_greater_0_conv)
qed

lemma parse_fde_image:
  assumes "bytes_at m fde (fde_image ty ptr start rng lsda prog)"
    "unat fde + 4 + length (fde_body ty ptr start rng lsda prog) < 2 ^ 64"
    "length (fde_body ty ptr start rng lsda prog) < 2 ^ 32" "augLen \<noteq> 0"
    "fdeEnd = fde + 4 + of_nat (length (fde_body ty ptr start rng lsda prog))" "fde_ptrs_ok ty start rng"
  shows "parse_fde m ua user False fde fdeEnd augLen ty =
    Ok (Some (start + ptr_base ty (fde + 8) 0 0, rng, fdeEnd - of_nat (length prog)))"
proof -
  define k where "k = length (uleb_enc (length lsda))"
  define i where "i = length (ptr_bytes False ty start)"
  define j where "j = length (ptr_bytes False ty rng)"
  define n where "n = 8 + i + j + k + length lsda + length prog"
  have len: "4 + length (fde_body ty ptr start rng lsda prog) = n" by (simp add: fde_body_def k_def i_def j_def n_def)
  have e: "fdeEnd = fde + of_nat n" unfolding len [symmetric] by (simp add: assms(5))
  have b: "bytes_at m (fde + 8) (ptr_bytes False ty start)" "bytes_at m (fde + of_nat (8 + i)) (ptr_bytes False ty rng)"
    "bytes_at m (fde + of_nat (8 + i + j)) (uleb_enc (length lsda))"
    using assms(1) by (simp_all add: fde_image_def fde_body_def Let_def bytes_at_append i_def j_def algebra_simps)
  have u: "unat (fde + of_nat l) = unat fde + l" if "l \<le> n" for l
    using assms(2) that len by (intro unat_add_nowrap) linarith
  have ul: "unat fdeEnd = unat fde + n" unfolding e by (rule u) simp
  have u8: "unat (fde + 8) = unat fde + 8" using u [of 8] by (simp add: n_def)
  have d: "ptr_direct ty" "ptr_fits False ty start" "ptr_fits False ty rng" using assms(6) by (simp_all add: fde_ptrs_ok_def)
  have f1: "read_pointer m ua (fde + 8) fdeEnd ty user False = Ok (start + ptr_base ty (fde + 8) 0 0, fde + of_nat (8 + i))"
    unfolding read_pointer_def using read_ptr_bytes [OF b(1) _ d(2) _ d(1)] u8 ul
    by (simp add: i_def [symmetric] n_def algebra_simps)
  have f2: "read_pointer m ua (fde + of_nat (8 + i)) fdeEnd (ty AND (DW_EH_PE_FORM OR DW_EH_PE_signed)) user False =
      Ok (rng, fde + of_nat (8 + i + j))"
    unfolding read_pointer_def
    using read_ptr_bytes [of m "fde + of_nat (8 + i)" False "ty AND (DW_EH_PE_FORM OR DW_EH_PE_signed)" rng fdeEnd 0 ua 0 0 user]
      b(2) d u [of "8 + i"] ul
    by (simp add: range_type j_def [symmetric] n_def algebra_simps)
  have l: "aug_length m fde (fde + of_nat (8 + i + j)) fdeEnd =
      Ok (Some (of_nat (length lsda), fde + of_nat (8 + i + j) + of_nat k))"
    unfolding k_def
    by (rule aug_length_enc [OF b(3)]) (use u [of "8 + i + j"] ul assms(3) len in \<open>simp_all add: k_def n_def\<close>)
  show ?thesis
    unfolding parse_fde_def using f1 f2 l assms(4) by (simp add: e n_def algebra_simps)
qed

lemma aug_char_item:
  assumes "bytes_at m p (aug_bytes a)" "unat p + length (aug_bytes a) \<le> unat lim"
    "case a of AugP v \<Rightarrow> scast v + (p + 1) \<noteq> 0 | _ \<Rightarrow> True"
  shows "aug_char m ua user False lim (aug_ch a) (p, ty, cf) =
    Ok (Some (p + of_nat (length (aug_bytes a)), case a of AugR b \<Rightarrow> ucast b | _ \<Rightarrow> ty, cf \<and> a \<noteq> AugS))"
proof -
  have le: "\<not> lim < p" using assms(2) by (simp add: word_less_nat_alt)
  show ?thesis
  proof (cases a)
    case (AugP v)
    have b: "bytes_at m (p + 1) (w32 v)" "m p = Some 0x9b" using assms(1) AugP by (simp_all add: add.commute)
    have u: "unat (p + 1) = unat p + 1" "unat (p + 5) = unat p + 5"
      using unat_add_nowrap [of p 1] unat_add_nowrap [of p 5] assms(2) AugP unat_u64_less [of lim] by simp_all
    have "read_fixed m (p + 1) lim 4 True = Ok (Some (scast v, p + 5))"
      using read_fixed_w32 [OF b(1), of lim True] u assms(2) AugP unat_u64_less [of lim]
      by (simp add: word_le_nat_alt add.commute [of _ p])
    then have "read_pointer m ua (p + 1) lim 0x1b user False = Ok (scast v + (p + 1), p + 5)"
      by (simp add: read_pointer_def read_ptr_sect_def read_form_def DW_EH_PE_defs adjust_ptr_def)
    then show ?thesis
      using AugP b(2) assms(3) le by (simp add: aug_char_def)
  qed (use assms le in \<open>simp_all add: aug_char_def\<close>)
qed

lemma aug_loop_items:
  assumes "bytes_at m aug (map aug_ch augs @ [0])" "bytes_at m p (aug_data augs)"
    "unat p + length (aug_data augs) = unat lim" "personality_ok p augs"
  shows "aug_loop (length augs) m ua user False lim aug (p, ty, cf) =
    Ok (Some (lim, aug_type ty augs, cf \<and> AugS \<notin> set augs))"
  using assms
proof (induction augs arbitrary: aug p ty cf)
  case Nil
  then have "p = lim" by (simp add: aug_data_def word_unat_eq_iff)
  then show ?case using Nil by (simp add: aug_loop.simps)
next
  case (Cons a augs)
  let ?n = "length (aug_bytes a)"
  have u: "unat (p + of_nat ?n) = unat p + ?n"
    using Cons.prems(3) unat_u64_less [of lim] by (intro unat_add_nowrap) (simp add: aug_data_def)
  have ch: "aug_ch a \<noteq> 0" by (cases a) simp_all
  have c: "aug_char m ua user False lim (aug_ch a) (p, ty, cf) =
      Ok (Some (p + of_nat ?n, case a of AugR b \<Rightarrow> ucast b | _ \<Rightarrow> ty, cf \<and> a \<noteq> AugS))"
    using Cons.prems by (intro aug_char_item) (simp_all add: aug_data_def bytes_at_append)
  have "aug_loop (length augs) m ua user False lim (aug + 1) (p + of_nat ?n, case a of AugR b \<Rightarrow> ucast b | _ \<Rightarrow> ty, cf \<and> a \<noteq> AugS) =
      Ok (Some (lim, aug_type (case a of AugR b \<Rightarrow> ucast b | _ \<Rightarrow> ty) augs, (cf \<and> a \<noteq> AugS) \<and> AugS \<notin> set augs))"
    using Cons.prems u by (intro Cons.IH) (simp_all add: aug_data_def bytes_at_append add.commute)
  then show ?case
    using Cons.prems(1) ch c by (auto simp: aug_loop.simps [of "Suc _"])
qed

lemma parse_aug_items:
  assumes "bytes_at m aug (0x7a # map aug_ch augs @ [0])" "bytes_at m p (uleb_enc (length (aug_data augs)))"
    "bytes_at m q (aug_data augs)" "q = p + of_nat (length (uleb_enc (length (aug_data augs))))"
    "unat p + length (uleb_enc (length (aug_data augs))) + length (aug_data augs) \<le> unat cieEnd"
    "unat cie \<le> unat p" "unat cieEnd < unat cie + 2 ^ 33" "personality_ok q augs"
  shows "parse_aug m ua user False cie cieEnd aug p (Suc (length augs)) =
    Ok (Some (of_nat (length (aug_data augs)), q + of_nat (length (aug_data augs)), code_type augs, AugS \<notin> set augs))"
proof -
  let ?n = "length (aug_data augs)"
  let ?lim = "q + of_nat ?n"
  have u: "unat q = unat p + length (uleb_enc ?n)" "unat (q + of_nat ?n) = unat q + ?n"
    using assms(4,5) unat_u64_less [of cieEnd] unat_add_nowrap [of p "length (uleb_enc ?n)"]
      unat_add_nowrap [of p "length (uleb_enc ?n) + ?n"] by (simp_all add: add.assoc)
  then have "\<not> ?lim < q" by (simp add: word_less_nat_alt)
  then have z: "aug_char m ua user False ?lim 0x7a (q, DW_EH_PE_absptr, True) = Ok (Some (q, DW_EH_PE_absptr, True))"
    by (simp add: aug_char_def)
  have "aug_loop (length augs) m ua user False ?lim (aug + 1) (q, DW_EH_PE_absptr, True) =
      Ok (Some (?lim, code_type augs, AugS \<notin> set augs))"
    using aug_loop_items [of m "aug + 1" augs q ?lim ua user DW_EH_PE_absptr True] assms(1,3,8) u by (simp add: add.commute code_type_def)
  then have "aug_loop (Suc (length augs)) m ua user False ?lim aug (q, DW_EH_PE_absptr, True) =
      Ok (Some (?lim, code_type augs, AugS \<notin> set augs))"
    using assms(1) z by (simp add: aug_loop.simps [of "Suc _"])
  then show ?thesis
    using aug_length_enc [OF assms(2,5-7)] assms(1,4) by (simp add: parse_aug_def)
qed

text \<open>The decoded entries of an image.\<close>

definition image_parsed ::
  "addr \<Rightarrow> addr \<Rightarrow> u8 \<Rightarrow> aug_item list \<Rightarrow> nat \<Rightarrow> int \<Rightarrow> u8 \<Rightarrow> u8 list \<Rightarrow> u32 \<Rightarrow> u64 \<Rightarrow> u64 \<Rightarrow> u8 list \<Rightarrow> u8 list \<Rightarrow> fde_cie" where
  "image_parsed cie fde ver augs code data ra cprog ptr start rng lsda fprog =
     (let cend = cie + 4 + of_nat (length (cie_body ver augs code data ra cprog));
          fend = fde + 4 + of_nat (length (fde_body (code_type augs) ptr start rng lsda fprog))
      in \<lparr>fc_ptrType = code_type augs, fc_startLoc = start + ptr_base (code_type augs) (fde + 8) 0 0, fc_locRange = rng,
          fc_fdeStart = fend - of_nat (length fprog), fc_fdeEnd = fend,
          fc_cieStart = cend - of_nat (length cprog), fc_cieEnd = cend, fc_codeAlign = of_nat code,
          fc_dataAlign = of_int data, fc_retAddrReg = ucast ra, fc_call_frame = (AugS \<notin> set augs)\<rparr>)"

text \<open>The offsets of the parts of a CIE: alignment factors, return register, augmentation data and program.\<close>

definition cie_code_pos :: "aug_item list \<Rightarrow> nat" where "cie_code_pos augs = 11 + length augs"
definition cie_data_pos :: "aug_item list \<Rightarrow> nat \<Rightarrow> nat" where
  "cie_data_pos augs code = cie_code_pos augs + length (uleb_enc code)"
definition cie_ra_pos :: "aug_item list \<Rightarrow> nat \<Rightarrow> int \<Rightarrow> nat" where
  "cie_ra_pos augs code data = cie_data_pos augs code + length (sleb_enc data)"
definition cie_len_pos :: "u8 \<Rightarrow> aug_item list \<Rightarrow> nat \<Rightarrow> int \<Rightarrow> u8 \<Rightarrow> nat" where
  "cie_len_pos ver augs code data ra = cie_ra_pos augs code data + length (ra_enc ver ra)"
definition cie_aug_pos :: "u8 \<Rightarrow> aug_item list \<Rightarrow> nat \<Rightarrow> int \<Rightarrow> u8 \<Rightarrow> nat" where
  "cie_aug_pos ver augs code data ra = cie_len_pos ver augs code data ra + length (uleb_enc (length (aug_data augs)))"
definition cie_prog_pos :: "u8 \<Rightarrow> aug_item list \<Rightarrow> nat \<Rightarrow> int \<Rightarrow> u8 \<Rightarrow> nat" where
  "cie_prog_pos ver augs code data ra = cie_aug_pos ver augs code data ra + length (aug_data augs)"

lemmas cie_pos_defs = cie_code_pos_def cie_data_pos_def cie_ra_pos_def cie_len_pos_def cie_aug_pos_def cie_prog_pos_def

lemma cie_image_length:
  "4 + length (cie_body ver augs code data ra prog) = cie_prog_pos ver augs code data ra + length prog"
  by (simp add: cie_body_def cie_pos_defs)

lemma cie_image_bytes:
  assumes "bytes_at m cie (cie_image ver augs code data ra prog)"
  shows "load32 m cie = Ok (of_nat (length (cie_body ver augs code data ra prog)))" "load32 m (cie + 4) = Ok 0"
    "m (cie + 8) = Some ver" "bytes_at m (cie + 9) (0x7a # map aug_ch augs @ [0])"
    "bytes_at m (cie + of_nat (cie_code_pos augs)) (uleb_enc code)"
    "bytes_at m (cie + of_nat (cie_data_pos augs code)) (sleb_enc data)"
    "bytes_at m (cie + of_nat (cie_ra_pos augs code data)) (ra_enc ver ra)"
    "bytes_at m (cie + of_nat (cie_len_pos ver augs code data ra)) (uleb_enc (length (aug_data augs)))"
    "bytes_at m (cie + of_nat (cie_aug_pos ver augs code data ra)) (aug_data augs)"
    "bytes_at m (cie + of_nat (cie_prog_pos ver augs code data ra)) prog"
proof -
  let ?n = "of_nat (length (cie_body ver augs code data ra prog)) :: u32"
  have "bytes_at m cie (w32 ?n @ w32 0 @ [ver] @ (0x7a # map aug_ch augs @ [0]) @ uleb_enc code @ sleb_enc data @
      ra_enc ver ra @ uleb_enc (length (aug_data augs)) @ aug_data augs @ prog)"
    using assms by (simp add: cie_image_def cie_body_def Let_def)
  note b = this [unfolded bytes_at_append length_w32 length_Cons length_append length_map list.size]
  show "load32 m cie = Ok ?n" "load32 m (cie + 4) = Ok 0" using b by (simp_all add: load32_w32)
  show "m (cie + 8) = Some ver" "bytes_at m (cie + 9) (0x7a # map aug_ch augs @ [0])"
    "bytes_at m (cie + of_nat (cie_code_pos augs)) (uleb_enc code)"
    "bytes_at m (cie + of_nat (cie_data_pos augs code)) (sleb_enc data)"
    "bytes_at m (cie + of_nat (cie_ra_pos augs code data)) (ra_enc ver ra)"
    "bytes_at m (cie + of_nat (cie_len_pos ver augs code data ra)) (uleb_enc (length (aug_data augs)))"
    "bytes_at m (cie + of_nat (cie_aug_pos ver augs code data ra)) (aug_data augs)"
    "bytes_at m (cie + of_nat (cie_prog_pos ver augs code data ra)) prog"
    using b by (simp_all add: cie_pos_defs bytes_at_append algebra_simps)
qed

lemma of_int_nonzero:
  assumes "ok_int v" "v \<noteq> 0"
  shows "(of_int v :: u64) \<noteq> 0"
proof
  assume "(of_int v :: u64) = 0"
  then have "2 ^ 64 dvd v" by (simp add: of_int_eq_0_iff word_of_int_eq_0_iff)
  then show False using assms zdvd_imp_le [of "2 ^ 64" "\<bar>v\<bar>"] by (auto simp: ok_int_def)
qed

lemma memchr_nul:
  assumes "bytes_at m p (cs @ [0])" "0 \<notin> set cs" "length cs < n"
  shows "memchr0 m p n = Ok (Some (p + of_nat (length cs)))"
  using assms
proof (induction cs arbitrary: p n)
  case Nil
  then show ?case by (cases n) simp_all
next
  case (Cons c cs)
  then obtain n' where "n = Suc n'" by (cases n) simp_all
  then show ?case using Cons by (simp add: algebra_simps)
qed

lemma aug_ch_nonzero: "0 \<notin> set (map aug_ch augs)"
proof -
  have "aug_ch a \<noteq> 0" for a by (cases a) simp_all
  then show ?thesis by (metis ex_map_conv)
qed

lemma cie_pos_order:
  "cie_code_pos augs + length (uleb_enc code) = cie_data_pos augs code"
  "cie_data_pos augs code + length (sleb_enc data) = cie_ra_pos augs code data"
  "cie_ra_pos augs code data + length (ra_enc ver ra) = cie_len_pos ver augs code data ra"
  "cie_len_pos ver augs code data ra + length (uleb_enc (length (aug_data augs))) = cie_aug_pos ver augs code data ra"
  "cie_aug_pos ver augs code data ra + length (aug_data augs) = cie_prog_pos ver augs code data ra"
  by (simp_all add: cie_pos_defs)

text \<open>The fixed parts of a CIE, up to the return address register.\<close>

lemma cie_fields:
  assumes "bytes_at m cie (cie_image ver augs code data ra prog)"
    "unat cie + 4 + length (cie_body ver augs code data ra prog) < 2 ^ 64" "ok_num code" "ok_int data"
    "cend = cie + 4 + of_nat (length (cie_body ver augs code data ra prog))"
  shows "memchr0 m (cie + 9) (unat (cend - (cie + 9))) = Ok (Some (cie + 10 + of_nat (length augs)))"
    "get_uleb128 m (cie + 11 + of_nat (length augs)) cend = Ok (of_nat code, cie + of_nat (cie_data_pos augs code))"
    "get_sleb128 m (cie + of_nat (cie_data_pos augs code)) cend = Ok (of_int data, cie + of_nat (cie_ra_pos augs code data))"
    "(if ver \<le> 1 then rbind (load8 m (cie + of_nat (cie_ra_pos augs code data)))
          (\<lambda>b. Ok (ucast b, cie + of_nat (cie_ra_pos augs code data) + 1))
      else get_uleb128 m (cie + of_nat (cie_ra_pos augs code data)) cend) =
     Ok (ucast ra, cie + of_nat (cie_len_pos ver augs code data ra))"
    "unat (cie + 10 + of_nat (length augs) - (cie + 9)) = Suc (length augs)"
proof -
  note b = cie_image_bytes [OF assms(1)]
  define k where "k = cie_prog_pos ver augs code data ra + length prog"
  have len: "4 + length (cie_body ver augs code data ra prog) = k" by (simp add: cie_image_length k_def)
  have u: "unat (cie + of_nat i) = unat cie + i" if "i \<le> k" for i
    using assms(2) that len by (intro unat_add_nowrap) linarith
  have "cend = cie + of_nat k" unfolding assms(5) len [symmetric] by simp
  then have ue: "unat cend = unat cie + k" by (simp add: u)
  note o = cie_pos_order(1) [of augs code] cie_pos_order(2) [of augs code data] cie_pos_order(3) [of augs code data ver ra] cie_pos_order(4,5) [of ver augs code data ra] k_def
  have n9: "Suc (length augs) < unat (cend - (cie + 9))"
    using u [of 9] ue o by (simp add: unat_sub word_le_nat_alt cie_code_pos_def)
  show "memchr0 m (cie + 9) (unat (cend - (cie + 9))) = Ok (Some (cie + 10 + of_nat (length augs)))"
    using memchr_nul [of m "cie + 9" "0x7a # map aug_ch augs" "unat (cend - (cie + 9))"] b(4) aug_ch_nonzero n9
    by (simp add: add.assoc)
  have c: "cie + of_nat (cie_code_pos augs) = cie + 11 + of_nat (length augs)" by (simp add: cie_code_pos_def)
  show "get_uleb128 m (cie + 11 + of_nat (length augs)) cend = Ok (of_nat code, cie + of_nat (cie_data_pos augs code))"
    using get_uleb_enc [OF b(5), of cend] u [of "cie_code_pos augs"] ue o assms(3)
    unfolding c [symmetric] by (simp add: add.assoc flip: of_nat_add)
  show "get_sleb128 m (cie + of_nat (cie_data_pos augs code)) cend = Ok (of_int data, cie + of_nat (cie_ra_pos augs code data))"
    using get_sleb_enc [OF b(6), of cend] u [of "cie_data_pos augs code"] ue o assms(4) by (simp add: add.assoc flip: of_nat_add)
  show "(if ver \<le> 1 then rbind (load8 m (cie + of_nat (cie_ra_pos augs code data)))
          (\<lambda>b. Ok (ucast b, cie + of_nat (cie_ra_pos augs code data) + 1))
      else get_uleb128 m (cie + of_nat (cie_ra_pos augs code data)) cend) =
     Ok (ucast ra, cie + of_nat (cie_len_pos ver augs code data ra))"
  proof (cases "ver \<le> 1")
    case True
    then show ?thesis using b(7) by (simp add: ra_enc_def flip: o(3))
  next
    case False
    then have e: "ra_enc ver ra = uleb_enc (unat ra)" by (simp add: ra_enc_def)
    have "ok_num (unat ra)" using unsigned_less [of ra, where 'a = nat] by (simp add: ok_num_def)
    moreover have "unat (cie + of_nat (cie_ra_pos augs code data)) + length (uleb_enc (unat ra)) \<le> unat cend"
      using u [of "cie_ra_pos augs code data"] ue o by (simp add: e)
    ultimately show ?thesis
      using get_uleb_enc [of m "cie + of_nat (cie_ra_pos augs code data)" "unat ra" cend] b(7) False
      by (simp add: e flip: o(3))
  qed
  have "cie + 10 + of_nat (length augs) - (cie + 9) = of_nat (Suc (length augs))" by simp
  then show "unat (cie + 10 + of_nat (length augs) - (cie + 9)) = Suc (length augs)"
    using n9 unat_u64_less [of "cend - (cie + 9)"] by (simp only: unat_of_nat) (simp add: take_bit_nat_eq_self)
qed

text \<open>Its augmentation.\<close>

lemma cie_augmentation:
  assumes "bytes_at m cie (cie_image ver augs code data ra prog)"
    "unat cie + 4 + length (cie_body ver augs code data ra prog) < 2 ^ 64" "length (cie_body ver augs code data ra prog) < 2 ^ 32"
    "aug_data augs \<noteq> []" "personality_ok (cie + of_nat (cie_aug_pos ver augs code data ra)) augs"
    "cend = cie + 4 + of_nat (length (cie_body ver augs code data ra prog))"
  shows "parse_aug m ua user False cie cend (cie + 9) (cie + of_nat (cie_len_pos ver augs code data ra)) (Suc (length augs)) =
      Ok (Some (of_nat (length (aug_data augs)), cend - of_nat (length prog), code_type augs, AugS \<notin> set augs))"
    "(of_nat (length (aug_data augs)) :: u64) \<noteq> 0"
proof -
  note b = cie_image_bytes [OF assms(1)]
  define k where "k = cie_prog_pos ver augs code data ra + length prog"
  have len: "4 + length (cie_body ver augs code data ra prog) = k" by (simp add: cie_image_length k_def)
  have u: "unat (cie + of_nat i) = unat cie + i" if "i \<le> k" for i
    using assms(2) that len by (intro unat_add_nowrap) linarith
  have ce: "cend = cie + of_nat k" unfolding assms(6) len [symmetric] by simp
  then have ue: "unat cend = unat cie + k" by (simp add: u)
  note o = cie_pos_order(4,5) [of ver augs code data ra] k_def
  have st: "cie + of_nat (cie_aug_pos ver augs code data ra) + of_nat (length (aug_data augs)) = cend - of_nat (length prog)"
    by (simp add: ce k_def flip: cie_pos_order(5))
  have ar: "cie + of_nat (cie_aug_pos ver augs code data ra) =
      cie + of_nat (cie_len_pos ver augs code data ra) + of_nat (length (uleb_enc (length (aug_data augs))))"
    by (simp flip: cie_pos_order(4))
  show "parse_aug m ua user False cie cend (cie + 9) (cie + of_nat (cie_len_pos ver augs code data ra)) (Suc (length augs)) =
      Ok (Some (of_nat (length (aug_data augs)), cend - of_nat (length prog), code_type augs, AugS \<notin> set augs))"
    unfolding st [symmetric]
    by (rule parse_aug_items [OF b(4,8,9) ar])
      (use u [of "cie_len_pos ver augs code data ra"] ue o assms(3-5) len in simp_all)
  have "length (aug_data augs) < 2 ^ 64" using assms(3) o len by simp
  then show "(of_nat (length (aug_data augs)) :: u64) \<noteq> 0"
    using assms(4) by (simp add: word_unat_eq_iff unat_of_nat take_bit_nat_eq_self)
qed

lemma parse_image:
  assumes "bytes_at m cie (cie_image ver augs code data ra cprog)" "bytes_at m fde (fde_image (code_type augs) ptr start rng lsda fprog)"
    "unat cie + 4 + length (cie_body ver augs code data ra cprog) < 2 ^ 64" "length (cie_body ver augs code data ra cprog) < 2 ^ 32"
    "unat fde + 4 + length (fde_body (code_type augs) ptr start rng lsda fprog) < 2 ^ 64" "length (fde_body (code_type augs) ptr start rng lsda fprog) < 2 ^ 32"
    "code \<noteq> 0" "ok_num code" "data \<noteq> 0" "ok_int data" "aug_data augs \<noteq> []"
    "personality_ok (cie + of_nat (cie_aug_pos ver augs code data ra)) augs"
    "fde_ptrs_ok (code_type augs) start rng"
  shows "parse_fde_cie m ua fde cie user False =
    Ok (Some (image_parsed cie fde ver augs code data ra cprog ptr start rng lsda fprog))"
proof -
  note b = cie_image_bytes(1,3) [OF assms(1)]
  note f = cie_fields [OF assms(1,3,8,10) refl]
  note g = cie_augmentation [OF assms(1,3,4,11,12) refl]
  note fd = parse_fde_image [OF assms(2,5,6) g(2) refl assms(13)]
  have nz: "(of_nat code :: u64) \<noteq> 0" "(of_int data :: u64) \<noteq> 0"
    using assms(7,8) of_int_nonzero [OF assms(10,9)]
    by (simp_all add: ok_num_def word_unat_eq_iff unat_of_nat take_bit_nat_eq_self)
  have fl: "load32 m fde = Ok (of_nat (length (fde_body (code_type augs) ptr start rng lsda fprog)))"
    using assms(2) by (simp add: fde_image_def Let_def bytes_at_append load32_w32)
  have v: "load8 m (cie + 8) = Ok ver" and n1: "cie + 10 + of_nat (length augs) + 1 = cie + 11 + of_nat (length augs)"
    using b(2) by simp_all
  show ?thesis
    unfolding parse_fde_cie_def v b(1) fl rbind.simps Let_def u32_length [OF assms(4)] u32_length [OF assms(6)] f(1)
      option.case n1 f(2) prod.case f(3,4,5)
    using nz g(1) fd
    by (simp add: image_parsed_def Let_def map_reg_def DWARF_REG_MAP_def)
qed

section \<open>Version 4\<close>

text \<open>
  A CIE of version 4 has the sizes of an address and of a segment selector behind the augmentation string,
  the latter 0 on x86-64.
\<close>

definition cie4_body :: "aug_item list \<Rightarrow> u8 \<Rightarrow> nat \<Rightarrow> int \<Rightarrow> u8 \<Rightarrow> u8 list \<Rightarrow> u8 list" where
  "cie4_body augs asize code data ra prog =
     w32 0 @ [4, 0x7a] @ map aug_ch augs @ [0, asize, 0] @ uleb_enc code @ sleb_enc data @
     uleb_enc (unat ra) @ uleb_enc (length (aug_data augs)) @ aug_data augs @ prog"

lemma uleb_byte:
  assumes "load8 m p = Ok b" "p < lim" "b < 0x80"
  shows "get_uleb128 m p lim = Ok (ucast b, p + 1)"
proof -
  have e: "uleb_enc (unat b) = [b]" using assms(3) by (subst uleb_enc.simps) (simp add: word_less_nat_alt)
  have "m p = Some b" using assms(1) by (simp add: load8_def split: option.splits)
  moreover have "ok_num (unat b)" using unsigned_less [of b, where 'a = nat] by (simp add: ok_num_def)
  ultimately show ?thesis
    using get_uleb_enc [of m p "unat b" lim] assms(2) by (simp add: e word_less_nat_alt)
qed

lemma sleb_zero:
  assumes "load8 m p = Ok 0" "p < lim"
  shows "get_sleb128 m p lim = Ok (0, p + 1)"
proof -
  have e: "sleb_enc 0 = [0]" by (simp add: sleb_enc.simps)
  have "m p = Some 0" using assms(1) by (simp add: load8_def split: option.splits)
  then show ?thesis
    using get_sleb_enc [of m p 0 lim] assms(2) by (simp add: e word_less_nat_alt ok_int_def)
qed

section \<open>Properties\<close>

text \<open>
  A CIE of version 4, which \<open>cie_for_fde\<close> accepts, is not understood: its two sizes are not skipped but taken
  for the alignment factors, and as the second one is 0 the entry is refused.
\<close>

lemma version4_rejected:
  assumes "bytes_at m cie (w32 (of_nat (length (cie4_body augs asize code data ra prog))) @ cie4_body augs asize code data ra prog)"
    "unat cie + 4 + length (cie4_body augs asize code data ra prog) < 2 ^ 64"
    "length (cie4_body augs asize code data ra prog) < 2 ^ 32" "asize < 0x80" "load32 m fde = Ok flen"
  shows "parse_fde_cie m ua fde cie user compat_task = Ok None"
proof -
  define n where "n = length (cie4_body augs asize code data ra prog)"
  define cend where "cend = cie + 4 + of_nat n"
  have len: "10 + length augs < n"
    using uleb_enc_nonempty [of code] uleb_enc_nonempty [of "unat ra"] by (simp add: n_def cie4_body_def)
  have b: "load32 m cie = Ok (of_nat n)" "load8 m (cie + 8) = Ok 4" "bytes_at m (cie + 9) ((0x7a # map aug_ch augs) @ [0])"
    "load8 m (cie + 11 + of_nat (length augs)) = Ok asize" "load8 m (cie + 12 + of_nat (length augs)) = Ok 0"
    using assms(1) unfolding n_def [symmetric]
    by (simp_all add: bytes_at_append load32_w32 cie4_body_def algebra_simps)
  have u: "unat (cie + of_nat i) = unat cie + i" if "i \<le> 4 + n" for i
    using assms(2) that by (intro unat_add_nowrap) (simp add: n_def)
  have ue: "unat cend = unat cie + (4 + n)" using u [of "4 + n"] by (simp add: cend_def add.assoc)
  have lt: "cie + 11 + of_nat (length augs) < cend" "cie + 12 + of_nat (length augs) < cend"
    using u [of "11 + length augs"] u [of "12 + length augs"] ue len by (simp_all add: word_less_nat_alt add.assoc)
  have "unat (cend - (cie + 9)) = n - 5"
    using u [of 9] ue len by (simp add: unat_sub word_le_nat_alt)
  then have mc: "memchr0 m (cie + 9) (unat (cend - (cie + 9))) = Ok (Some (cie + 10 + of_nat (length augs)))"
    using memchr_nul [OF b(3), of "n - 5"] aug_ch_nonzero len by (simp add: add.assoc)
  have s: "get_uleb128 m (cie + 11 + of_nat (length augs)) cend = Ok (ucast asize, cie + 12 + of_nat (length augs))"
    "get_sleb128 m (cie + 12 + of_nat (length augs)) cend = Ok (0, cie + 13 + of_nat (length augs))"
    using uleb_byte [OF b(4) lt(1) assms(4)] sleb_zero [OF b(5) lt(2)] by (simp_all add: algebra_simps)
  have n1: "cie + 10 + of_nat (length augs) + 1 = cie + 11 + of_nat (length augs)" by simp
  have ce: "cie + 4 + ucast (of_nat n :: u32) = cend" using assms(3) by (simp add: cend_def n_def u32_length)
  show ?thesis
    unfolding parse_fde_cie_def b(1,2) assms(5) rbind.simps Let_def ce mc option.case n1 s(1) prod.case s(2) by simp
qed

end
