(* ===== verification/Fde_Search.thy ===== *)
theory Fde_Search
  imports Cie_Fde "HOL-Library.Signed_Division"
begin

text \<open>
  The lookup of the frame description entry for a program counter: \<open>adjust_start_loc\<close> and the
  binary search \<open>_stp_search_fde\<close> of \<^verbatim>\<open>src/unwind.c\<close> over the sorted table of \<^verbatim>\<open>.eh_frame_hdr\<close>,
  with \<open>struct kunwind_module\<close> of \<^verbatim>\<open>src/modules.h\<close>.
\<close>

section \<open>Modules\<close>

text \<open>Of a \<open>vm_area_struct\<close> the program uses the bounds and the page offset.\<close>

record vm_area =
  vm_start :: u64
  vm_end :: u64
  vm_pgoff :: u64

record kunwind_module =
  elf_vma :: vm_area
  elf_vmap :: addr
  mod_pages :: "nat list"
  npages :: nat
  ehf_hdr :: eh_section
  ehf :: eh_section
  is_dynamic :: bool

section \<open>The search\<close>

definition adjust_start_loc :: "u64 \<Rightarrow> u32 \<Rightarrow> bool \<Rightarrow> kunwind_module \<Rightarrow> u64" where
  "adjust_start_loc start_loc ptr_type is_ehframe km =
     (if start_loc = 0 \<or> \<not> is_ehframe then 0
      else let a = (if ptr_type AND DW_EH_PE_ADJUST = DW_EH_PE_pcrel
                    then start_loc - sec_kbuf (ehf km) + sec_offset (ehf km) else start_loc)
           in if is_dynamic km then a + vm_start (elf_vma km) else a)"

text \<open>The size of a table field; \<open>None\<close> for a bad encoding.\<close>

definition table_field_size :: "u8 \<Rightarrow> bool \<Rightarrow> u32 option" where
  "table_field_size enc compat_task =
     (let form = (ucast enc :: u32) AND DW_EH_PE_FORM
      in if form = DW_EH_PE_absptr then Some (if \<not> compat_task then 8 else 4)
         else if form = DW_EH_PE_data2 then Some 2
         else if form = DW_EH_PE_data4 then Some 4
         else if form = DW_EH_PE_data8 then Some 8
         else None)"

record search_env =
  s_mem :: kmem
  s_ua :: uaccess
  s_ehframe :: bool
  s_user :: bool
  s_compat :: bool
  s_mod :: kunwind_module
  s_tsize :: u32
  s_enc :: u8

text \<open>\<open>read_ptr_sect(&p, end, enc, 0, eh_hdr_addr, user, compat_task, table_size)\<close>.\<close>

definition hdr_read :: "search_env \<Rightarrow> addr \<Rightarrow> addr \<Rightarrow> u8 \<Rightarrow> (u64 \<times> addr) res" where
  "hdr_read e p lim enc =
     read_ptr_sect (s_mem e) (s_ua e) p lim (ucast enc) 0 (sec_offset (ehf_hdr (s_mod e)))
       (s_user e) (s_compat e) (int (unat (s_tsize e)))"

text \<open>A field of the table at \<open>p\<close>, and the adjusted location it stands for.\<close>

definition field_read :: "search_env \<Rightarrow> addr \<Rightarrow> (u64 \<times> addr) res" where
  "field_read e p = hdr_read e p (p + ucast (s_tsize e)) (s_enc e)"

definition field_loc :: "search_env \<Rightarrow> u64 \<Rightarrow> u64" where
  "field_loc e v = adjust_start_loc v (ucast (s_enc e)) (s_ehframe e) (s_mod e)"

lemma half_less: "(num::u32) div 2 > 1 \<Longrightarrow> unat (num div 2) < unat num"
  by (simp add: unat_div word_less_nat_alt)

lemma half_up_less:
  assumes "((num::u32) + 1) div 2 > 1"
  shows "unat ((num + 1) div 2) < unat num"
proof -
  have "unat ((num + 1) div 2) = unat (num + 1) div 2" by (simp add: unat_div)
  moreover have "unat (num + 1) \<le> Suc (unat num)" by (simp add: unat_word_ariths)
  moreover have "1 < unat ((num + 1) div 2)" using assms by (simp add: word_less_nat_alt)
  ultimately show ?thesis by linarith
qed

text \<open>
  The \<open>do\<close> loop. \<open>num\<close> and the size are 32-bit, so is the byte offset of the middle entry.
  \<open>None\<close> is \<open>return NULL\<close> on a location that adjusts to 0.
\<close>

function search_loop :: "search_env \<Rightarrow> u64 \<Rightarrow> addr \<Rightarrow> u32 \<Rightarrow> (addr \<times> u32) option res" where
  "search_loop e pc ptr num =
     (let cur = ptr + ucast ((num div 2) * (2 * s_tsize e))
      in rbind (field_read e cur) (\<lambda>(v, cur).
           let start_loc = field_loc e v
           in if start_loc = 0 then Ok None
              else let (ptr', num') = (if pc < start_loc then (ptr, num div 2)
                                       else (cur - ucast (s_tsize e), (num + 1) div 2))
                   in if num' > 1 then search_loop e pc ptr' num' else Ok (Some (ptr', num'))))"
  by pat_completeness auto
termination
  by (relation "measure (\<lambda>(e, pc, ptr, num). unat num)")
    (auto simp: half_less half_up_less split: if_splits)

declare search_loop.simps [simp del]

text \<open>The header before the table: its checks, and the table's address and number of entries.\<close>

definition hdr_table :: "search_env \<Rightarrow> addr \<Rightarrow> u64 \<Rightarrow> u8 \<Rightarrow> (addr \<times> u32) option res" where
  "hdr_table e hdr hdr_len enc1 =
     (let hend = hdr + hdr_len; eh_hdr_addr = sec_offset (ehf_hdr (s_mod e))
      in rbind (hdr_read e (hdr + 4) hend enc1) (\<lambda>(v, p).
         let eh = (if (ucast enc1 :: u32) AND DW_EH_PE_ADJUST = DW_EH_PE_pcrel
                   then v - hdr + eh_hdr_addr else v)
         in if s_ehframe e \<and> eh \<noteq> sec_offset (ehf (s_mod e)) then Ok None
            else rbind (load8 (s_mem e) (hdr + 2)) (\<lambda>enc2.
                 rbind (hdr_read e p hend enc2) (\<lambda>(n, p).
              let num = ucast n :: u32; left = sint (hend - p);
                  esize = 2 * int (unat (s_tsize e))
              in Ok (if num = 0 \<or> int (unat num) \<noteq> left sdiv esize \<or> left smod esize \<noteq> 0
                     then None else Some (p, num))))))"

text \<open>The entry the loop ended at, as the address of an FDE; 0 when there is none.\<close>

definition found_fde :: "search_env \<Rightarrow> u64 \<Rightarrow> addr \<Rightarrow> u32 \<Rightarrow> addr res" where
  "found_fde e pc ptr num =
     (if num = 1
      then rbind (field_read e ptr) (\<lambda>(v, ptr).
        let start_loc = field_loc e v
        in if start_loc \<noteq> 0 \<and> pc \<ge> start_loc
           then rbind (field_read e ptr) (\<lambda>(off, _).
             Ok (if s_ehframe e
                 then off - sec_offset (ehf (s_mod e)) + sec_kbuf (ehf (s_mod e))
                 else sec_kbuf (ehf (s_mod e)) + off))
           else Ok 0)
      else Ok 0)"

definition stp_search_fde ::
  "kmem \<Rightarrow> uaccess \<Rightarrow> u64 \<Rightarrow> bool \<Rightarrow> bool \<Rightarrow> bool \<Rightarrow> kunwind_module \<Rightarrow> addr res" where
  "stp_search_fde m ua pc is_ehframe user compat_task km =
     (let hdr = sec_kbuf (ehf_hdr km); hdr_len = sec_size (ehf_hdr km)
      in if hdr = 0 \<or> hdr_len < 4 then Ok 0
         else rbind (load8 m hdr) (\<lambda>version.
           if version \<noteq> 1 then Ok 0
           else rbind (load8 m (hdr + 3)) (\<lambda>enc3.
             case table_field_size enc3 compat_task of
               None \<Rightarrow> Ok 0
             | Some tsize \<Rightarrow>
               let e = \<lparr>s_mem = m, s_ua = ua, s_ehframe = is_ehframe, s_user = user,
                        s_compat = compat_task, s_mod = km, s_tsize = tsize, s_enc = enc3\<rparr>
               in rbind (load8 m (hdr + 1)) (\<lambda>enc1.
                  rbind (hdr_table e hdr (ucast hdr_len) enc1) (\<lambda>r.
                    case r of
                      None \<Rightarrow> Ok 0
                    | Some (ptr, num) \<Rightarrow>
                      rbind (search_loop e pc ptr num) (\<lambda>r.
                        case r of
                          None \<Rightarrow> Ok 0
                        | Some (ptr, num) \<Rightarrow>
                          rbind (found_fde e pc ptr num) (\<lambda>fde.
                          rbind (check_fde m fde (sec_kbuf (ehf km)) (sec_size (ehf km)) is_ehframe)
                            (\<lambda>ok. Ok (if ok then fde else 0)))))))))"

section \<open>What the search finds\<close>

text \<open>
  \<open>table_reads e base s v n\<close>: the table of \<open>n\<close> entries at \<open>base\<close> reads as the values \<open>v\<close>, which stand
  for the locations \<open>s\<close>.
\<close>

definition table_at :: "search_env \<Rightarrow> addr \<Rightarrow> nat \<Rightarrow> addr" where
  "table_at e base k = base + of_nat (k * (2 * unat (s_tsize e)))"

definition table_reads ::
  "search_env \<Rightarrow> addr \<Rightarrow> (nat \<Rightarrow> u64) \<Rightarrow> (nat \<Rightarrow> u64) \<Rightarrow> nat \<Rightarrow> bool" where
  "table_reads e base s v n \<longleftrightarrow>
     (\<forall>k < n. field_read e (table_at e base k) = Ok (v k, table_at e base k + ucast (s_tsize e)) \<and>
              field_loc e (v k) = s k \<and> s k \<noteq> 0)"

lemma table_at_mid:
  assumes "unat (num div 2) * (2 * unat (s_tsize e)) < 2 ^ 32" "unat (s_tsize e) < 2 ^ 31"
  shows "table_at e base i + ucast ((num div 2) * (2 * s_tsize e)) =
    table_at e base (i + unat (num div 2))"
proof -
  have "unat (2 * s_tsize e) = 2 * unat (s_tsize e)"
    using assms(2) by (simp add: unat_word_ariths)
  then have "unat ((num div 2) * (2 * s_tsize e)) = unat (num div 2) * (2 * unat (s_tsize e))"
    using assms(1) by (simp add: unat_word_ariths)
  then have "(ucast ((num div 2) * (2 * s_tsize e)) :: u64) =
      of_nat (unat (num div 2) * (2 * unat (s_tsize e)))"
    by (metis of_nat_unat)
  then show ?thesis by (simp add: table_at_def algebra_simps)
qed

text \<open>
  The search keeps a range of \<open>num\<close> entries from the \<open>i\<close>-th on that holds the last entry not
  beyond \<open>pc\<close>, if there is one.
\<close>

definition search_inv :: "(nat \<Rightarrow> u64) \<Rightarrow> u64 \<Rightarrow> nat \<Rightarrow> nat \<Rightarrow> nat \<Rightarrow> bool" where
  "search_inv s pc n i num \<longleftrightarrow>
     i + num \<le> n \<and> (i = 0 \<or> s i \<le> pc) \<and> (\<forall>k. i + num \<le> k \<and> k < n \<longrightarrow> pc < s k)"

lemma search_mid_small:
  assumes "n * (2 * unat (s_tsize e)) < 2 ^ 32" "mid < n" "0 < s_tsize e"
  shows "mid * (2 * unat (s_tsize e)) < 2 ^ 32" "unat (s_tsize e) < 2 ^ 31" "n * 2 < 2 ^ 32"
proof -
  have "mid * (2 * unat (s_tsize e)) \<le> n * (2 * unat (s_tsize e))" using assms(2) by simp
  then show "mid * (2 * unat (s_tsize e)) < 2 ^ 32" using assms(1) by linarith
  have "2 * unat (s_tsize e) \<le> n * (2 * unat (s_tsize e))" using assms(2) by simp
  then have "2 * unat (s_tsize e) < 2 ^ 32" using assms(1) by linarith
  then show "unat (s_tsize e) < 2 ^ 31" by simp
  have "n * 2 \<le> n * (2 * unat (s_tsize e))"
    using assms(3) by (intro mult_le_mono) (auto simp: word_less_nat_alt)
  then show "n * 2 < 2 ^ 32" using assms(1) by linarith
qed

text \<open>One round, on the part of the table from \<open>i\<close> with \<open>num\<close> entries.\<close>

lemma search_loop_half:
  assumes "table_reads e base s v n" "n * (2 * unat (s_tsize e)) < 2 ^ 32" "0 < s_tsize e"
    "i + unat num \<le> n" "0 < num" "mid = unat num div 2"
  shows "mid < unat num" "unat (num div 2) = mid" "unat ((num + 1) div 2) = unat num - mid"
    "search_loop e pc (table_at e base i) num =
       (if pc < s (i + mid)
        then if num div 2 > 1 then search_loop e pc (table_at e base i) (num div 2)
             else Ok (Some (table_at e base i, num div 2))
        else if (num + 1) div 2 > 1 then search_loop e pc (table_at e base (i + mid)) ((num + 1) div 2)
             else Ok (Some (table_at e base (i + mid), (num + 1) div 2)))"
proof -
  show m: "mid < unat num" "unat (num div 2) = mid"
    using assms(5) by (simp_all add: assms(6) word_less_nat_alt unat_div)
  then have k: "mid < n" "i + mid < n" using assms(4) by simp_all
  note small = search_mid_small [OF assms(2) k(1) assms(3)]
  have "unat num * 2 < 2 ^ 32" using small(3) assms(4) by linarith
  then show "unat ((num + 1) div 2) = unat num - mid" by (simp add: unat_div unat_word_ariths assms(6))
  have "table_at e base i + ucast ((num div 2) * (2 * s_tsize e)) = table_at e base (i + mid)"
    using table_at_mid [of num e base i] small by (simp add: m(2))
  moreover have "field_read e (table_at e base (i + mid)) =
      Ok (v (i + mid), table_at e base (i + mid) + ucast (s_tsize e))"
    "field_loc e (v (i + mid)) = s (i + mid)" "s (i + mid) \<noteq> 0"
    using assms(1) k(2) by (simp_all add: table_reads_def)
  ultimately show "search_loop e pc (table_at e base i) num =
       (if pc < s (i + mid)
        then if num div 2 > 1 then search_loop e pc (table_at e base i) (num div 2)
             else Ok (Some (table_at e base i, num div 2))
        else if (num + 1) div 2 > 1 then search_loop e pc (table_at e base (i + mid)) ((num + 1) div 2)
             else Ok (Some (table_at e base (i + mid), (num + 1) div 2)))"
    by (simp add: search_loop.simps [of e pc _ num] Let_def)
qed

lemma search_loop_inv:
  assumes "table_reads e base s v n" "\<And>i j. i \<le> j \<Longrightarrow> j < n \<Longrightarrow> s i \<le> s j"
    "n * (2 * unat (s_tsize e)) < 2 ^ 32" "0 < s_tsize e"
    "search_inv s pc n i (unat num)" "0 < num" "i < n"
  shows "\<exists>j num'. search_loop e pc (table_at e base i) num = Ok (Some (table_at e base j, num')) \<and>
    num' \<le> 1 \<and> j < n \<and> search_inv s pc n j (unat num')"
  using assms(5-7)
proof (induction "unat num" arbitrary: i num rule: less_induct)
  case less
  define mid where "mid = unat num div 2"
  have "i + unat num \<le> n" using less.prems(1) by (simp add: search_inv_def)
  note r = search_loop_half [OF assms(1,3,4) this less.prems(2) mid_def]
  then have k: "i + mid < n" using \<open>i + unat num \<le> n\<close> by simp
  show ?case
  proof (cases "pc < s (i + mid)")
    case True
    have "pc < s j" if "i + mid \<le> j" "j < n" for j using assms(2) [OF that] True by simp
    then have inv: "search_inv s pc n i (unat (num div 2))"
      using less.prems(1) r(1,2) by (simp add: search_inv_def)
    then show ?thesis
      using less.hyps [OF half_less inv _ less.prems(3)] inv less.prems(3) r(4) [of pc] True
      by (cases "num div 2 > 1") (auto simp: not_less order_less_trans [of 0 1])
  next
    case False
    have inv: "search_inv s pc n (i + mid) (unat ((num + 1) div 2))"
      using less.prems(1) False r(1,3) by (auto simp: search_inv_def not_less)
    then show ?thesis
      using less.hyps [OF half_up_less inv _ k] inv k r(4) [of pc] False
      by (cases "(num + 1) div 2 > 1") (auto simp: not_less order_less_trans [of 0 1])
  qed
qed

text \<open>
  So the loop ends at the last entry whose location is not beyond \<open>pc\<close>; when all are, at an entry
  that is beyond it or with no entry left.
\<close>

lemma search_loop_finds:
  assumes "table_reads e base s v n" "\<And>i j. i \<le> j \<Longrightarrow> j < n \<Longrightarrow> s i \<le> s j"
    "n * (2 * unat (s_tsize e)) < 2 ^ 32" "0 < s_tsize e" "unat num = n" "0 < n"
  shows "\<exists>j num'. search_loop e pc base num = Ok (Some (table_at e base j, num')) \<and> j < n \<and>
    (if s 0 \<le> pc then num' = 1 \<and> s j \<le> pc \<and> (\<forall>k. j < k \<and> k < n \<longrightarrow> pc < s k)
     else j = 0 \<and> num' \<le> 1)"
proof -
  have base: "table_at e base 0 = base" by (simp add: table_at_def)
  have "search_inv s pc n 0 (unat num)" using assms(5) by (auto simp: search_inv_def)
  then obtain j num' where r: "search_loop e pc base num = Ok (Some (table_at e base j, num'))"
    "num' \<le> 1" "j < n" "search_inv s pc n j (unat num')"
    using search_loop_inv [OF assms(1-4), where i = 0 and num = num and pc = pc] assms(5,6)
    by (auto simp: base word_less_nat_alt)
  have c: "num' = 1 \<or> num' = 0" using r(2) by (auto simp: word_le_nat_alt word_unat_eq_iff)
  show ?thesis
  proof (cases "s 0 \<le> pc")
    case True
    have "num' \<noteq> 0"
    proof
      assume "num' = 0"
      then have "pc < s j" "j = 0 \<or> s j \<le> pc" using r(3,4) by (auto simp: search_inv_def)
      then show False using True by auto
    qed
    then have "num' = 1" using c by simp
    then have "s j \<le> pc" using r(4) True by (auto simp: search_inv_def)
    then show ?thesis using r True \<open>num' = 1\<close> by (auto simp: search_inv_def)
  next
    case False
    have "\<not> s j \<le> pc" using assms(2) [of 0 j] r(3) False by (meson order_trans le0)
    then have "j = 0" using r(4) by (auto simp: search_inv_def)
    then show ?thesis using r False by auto
  qed
qed

end
