(* ===== verification/Fde_Table.thy ===== *)
theory Fde_Table
  imports Fde_Search
begin

text \<open>
  The search on the table the GNU linker writes: \<open>gnu_hdr\<close> is the byte image of an
  \<^verbatim>\<open>.eh_frame_hdr\<close> with a pc-relative pointer to \<^verbatim>\<open>.eh_frame\<close>, an absolute count and a sorted table of
  data-relative pairs. On it \<open>_stp_search_fde\<close> finds the row that governs the program counter.
\<close>

section \<open>The header GNU tools write\<close>

definition gnu_hdr :: "u32 \<Rightarrow> (u32 \<times> u32) list \<Rightarrow> u8 list" where
  "gnu_hdr ehptr rows =
     [1, 0x1b, 0x03, 0x3b] @ w32 ehptr @ w32 (of_nat (length rows)) @
     concat (map (\<lambda>(a, b). w32 a @ w32 b) rows)"

definition row_loc :: "kunwind_module \<Rightarrow> u32 \<times> u32 \<Rightarrow> u64" where
  "row_loc km r = scast (fst r) + sec_offset (ehf_hdr km) +
     (if is_dynamic km then vm_start (elf_vma km) else 0)"

definition row_fde :: "kunwind_module \<Rightarrow> u32 \<times> u32 \<Rightarrow> addr" where
  "row_fde km r = scast (snd r) + sec_offset (ehf_hdr km) - sec_offset (ehf km) + sec_kbuf (ehf km)"

lemma hdr_read_w32:
  assumes "bytes_at (s_mem e) p (w32 x)" "unat p + 4 < 2 ^ 64" "p + 4 \<le> lim" "\<not> s_compat e"
  shows "hdr_read e p lim 0x1b = Ok (scast x + p, p + 4)" "hdr_read e p lim 3 = Ok (ucast x, p + 4)"
    "hdr_read e p lim 0x3b = Ok (scast x + sec_offset (ehf_hdr (s_mod e)), p + 4)"
  using read_fixed_w32 [OF assms(1-3)] assms(4)
  by (simp_all add: hdr_read_def read_ptr_sect_def read_form_def DW_EH_PE_defs adjust_ptr_def)

lemma field_read_w32:
  assumes "bytes_at (s_mem e) p (w32 x)" "unat p + 4 < 2 ^ 64" "s_tsize e = 4" "s_enc e = 0x3b"
    "\<not> s_compat e"
  shows "field_read e p = Ok (scast x + sec_offset (ehf_hdr (s_mod e)), p + 4)"
  using hdr_read_w32(3) [OF assms(1,2) order_refl assms(5)] assms(3,4) by (simp add: field_read_def)

lemma rows_bytes:
  assumes "bytes_at m p (concat (map (\<lambda>(a, b). w32 a @ w32 b) rows))" "k < length rows"
  shows "bytes_at m (p + of_nat (8 * k)) (w32 (fst (rows ! k)))"
    "bytes_at m (p + of_nat (8 * k) + 4) (w32 (snd (rows ! k)))"
proof -
  have "bytes_at m (p + of_nat (8 * k)) (w32 (fst (rows ! k)) @ w32 (snd (rows ! k)))"
    using assms
  proof (induction rows arbitrary: p k)
    case (Cons r rows)
    have "bytes_at m (p + 8) (concat (map (\<lambda>(a, b). w32 a @ w32 b) rows))"
      using Cons.prems(1) by (simp add: bytes_at_append split: prod.splits)
    then show ?case
      using Cons.IH [of "p + 8" "k - 1"] Cons.prems
      by (cases k) (simp_all add: bytes_at_append algebra_simps split: prod.splits)
  qed simp
  then show "bytes_at m (p + of_nat (8 * k)) (w32 (fst (rows ! k)))"
    "bytes_at m (p + of_nat (8 * k) + 4) (w32 (snd (rows ! k)))"
    by (simp_all add: bytes_at_append)
qed

lemma hdr_table_gnu:
  assumes "bytes_at (s_mem e) hdr (gnu_hdr ehptr rows)" "s_tsize e = 4" "\<not> s_compat e"
    "unat hdr + 12 + 8 * length rows < 2 ^ 64" "12 + 8 * length rows < 2 ^ 32" "rows \<noteq> []"
    "scast ehptr + 4 + sec_offset (ehf_hdr (s_mod e)) = sec_offset (ehf (s_mod e))"
  shows "hdr_table e hdr (12 + 8 * of_nat (length rows)) 0x1b =
    Ok (Some (hdr + 12, of_nat (length rows)))"
proof -
  let ?hend = "hdr + (12 + 8 * of_nat (length rows))"
  have un: "unat (hdr + of_nat k) = unat hdr + k" if "k \<le> 12 + 8 * length rows" for k
    using assms(4) that by (intro unat_add_nowrap) linarith
  have he: "unat ?hend = unat hdr + (12 + 8 * length rows)"
    using un [of "12 + 8 * length rows"] by simp
  have b: "bytes_at (s_mem e) (hdr + 4) (w32 ehptr)" 
    "bytes_at (s_mem e) (hdr + 8) (w32 (of_nat (length rows)))" "s_mem e (hdr + 2) = Some 3"
    using assms(1) by (simp_all add: gnu_hdr_def bytes_at_append add.commute)
  have u: "unat (hdr + 4) = unat hdr + 4" "unat (hdr + 8) = unat hdr + 8" "unat (hdr + 12) = unat hdr + 12"
    using un [of 4] un [of 8] un [of 12] by simp_all
  have l: "length rows < 2 ^ 32" using assms(5) by linarith
  have le: "hdr + 4 + 4 \<le> ?hend" "hdr + 8 + 4 \<le> ?hend"
    using u he by (simp_all add: word_le_nat_alt add.commute [of _ hdr])
  have r1: "hdr_read e (hdr + 4) ?hend 0x1b = Ok (scast ehptr + (hdr + 4), hdr + 8)"
    using hdr_read_w32(1) [OF b(1) _ le(1) assms(3)] u(1) assms(4) by simp
  have r2: "hdr_read e (hdr + 8) ?hend 3 = Ok (of_nat (length rows), hdr + 12)"
    using hdr_read_w32(2) [OF b(2) _ le(2) assms(3)] u(2) assms(4) l
    by (simp add: unsigned_of_nat take_bit_nat_eq_self)
  have d: "?hend - (hdr + 12) = of_nat (8 * length rows)" by simp
  have "unat (of_nat (8 * length rows) :: u64) = 8 * length rows"
    using l by (simp only: unat_of_nat) simp
  then have s: "sint (?hend - (hdr + 12)) = 8 * int (length rows)"
    unfolding d using sint_nonneg [of "of_nat (8 * length rows)"] l by simp
  have n: "(of_nat (length rows) :: u32) \<noteq> 0" "unat (of_nat (length rows) :: u32) = length rows"
    using l assms(6) by (simp_all add: unat_of_nat take_bit_nat_eq_self word_unat_eq_iff)
  have q: "(8 * int (length rows)) sdiv 8 = int (length rows)" "(8 * int (length rows)) smod 8 = 0"
    by (simp_all add: signed_divide_int_def signed_modulo_int_def abs_mult sgn_mult)
  have eh: "scast ehptr + (hdr + 4) - hdr + sec_offset (ehf_hdr (s_mod e)) = sec_offset (ehf (s_mod e))"
    unfolding assms(7) [symmetric] by simp
  have c: "(ucast (of_nat (length rows) :: u64) :: u32) = of_nat (length rows)"
    "uint (of_nat (length rows) :: u32) = int (length rows)"
    using l by (simp_all add: unsigned_of_nat take_bit_nat_eq_self take_bit_int_eq_self)
  have b2: "load8 (s_mem e) (hdr + 2) = Ok 3" using b(3) by simp
  show ?thesis
    unfolding hdr_table_def Let_def r1 rbind.simps prod.case b2 r2 s
    using assms(2) n q eh c by (simp add: DW_EH_PE_defs)
qed


lemma table_reads_gnu:
  assumes "bytes_at (s_mem e) base (concat (map (\<lambda>(a, b). w32 a @ w32 b) rows))"
    "s_tsize e = 4" "s_enc e = 0x3b" "\<not> s_compat e" "s_ehframe e"
    "unat base + 8 * length rows < 2 ^ 64"
    "\<forall>r \<in> set rows. row_loc (s_mod e) r \<noteq> 0 \<and> scast (fst r) + sec_offset (ehf_hdr (s_mod e)) \<noteq> 0"
  shows "table_reads e base (\<lambda>k. row_loc (s_mod e) (rows ! k))
    (\<lambda>k. scast (fst (rows ! k)) + sec_offset (ehf_hdr (s_mod e))) (length rows)"
  unfolding table_reads_def
proof (intro allI impI)
  fix k assume k: "k < length rows"
  have t: "table_at e base k = base + of_nat (8 * k)" using assms(2) by (simp add: table_at_def)
  have "unat (base + of_nat (8 * k)) = unat base + 8 * k"
    using assms(6) k by (intro unat_add_nowrap) linarith
  then have "field_read e (table_at e base k) =
      Ok (scast (fst (rows ! k)) + sec_offset (ehf_hdr (s_mod e)), table_at e base k + 4)"
    unfolding t using k assms(6) by (intro field_read_w32 [OF rows_bytes(1) [OF assms(1) k] _ assms(2-4)]) linarith
  then show "field_read e (table_at e base k) =
      Ok (scast (fst (rows ! k)) + sec_offset (ehf_hdr (s_mod e)),
          table_at e base k + ucast (s_tsize e)) \<and>
    field_loc e (scast (fst (rows ! k)) + sec_offset (ehf_hdr (s_mod e))) =
      row_loc (s_mod e) (rows ! k) \<and> row_loc (s_mod e) (rows ! k) \<noteq> 0"
    using assms(2,3,5,7) nth_mem [OF k]
    by (simp add: field_loc_def adjust_start_loc_def row_loc_def DW_EH_PE_defs Let_def)
qed

lemma found_fde_gnu:
  assumes "bytes_at (s_mem e) base (concat (map (\<lambda>(a, b). w32 a @ w32 b) rows))"
    "s_tsize e = 4" "s_enc e = 0x3b" "\<not> s_compat e" "s_ehframe e"
    "unat base + 8 * length rows < 2 ^ 64" "k < length rows"
    "\<forall>r \<in> set rows. row_loc (s_mod e) r \<noteq> 0 \<and> scast (fst r) + sec_offset (ehf_hdr (s_mod e)) \<noteq> 0"
  shows "found_fde e pc (table_at e base k) num =
    Ok (if num = 1 \<and> row_loc (s_mod e) (rows ! k) \<le> pc then row_fde (s_mod e) (rows ! k) else 0)"
proof -
  have t: "table_at e base k + 4 = base + of_nat (8 * k) + 4" using assms(2) by (simp add: table_at_def)
  have u8: "unat (base + of_nat (8 * k)) = unat base + 8 * k"
    using assms(6,7) by (intro unat_add_nowrap) linarith
  then have "unat (base + of_nat (8 * k) + 4) = unat base + 8 * k + 4"
    using assms(6,7) unat_add_nowrap [of "base + of_nat (8 * k)" 4] by simp
  then have "field_read e (table_at e base k + 4) =
      Ok (scast (snd (rows ! k)) + sec_offset (ehf_hdr (s_mod e)), table_at e base k + 4 + 4)"
    unfolding t using assms(6,7)
    by (intro field_read_w32 [OF rows_bytes(2) [OF assms(1,7)] _ assms(2-4)]) linarith
  moreover have "field_read e (table_at e base k) =
      Ok (scast (fst (rows ! k)) + sec_offset (ehf_hdr (s_mod e)), table_at e base k + 4)"
    "field_loc e (scast (fst (rows ! k)) + sec_offset (ehf_hdr (s_mod e))) = row_loc (s_mod e) (rows ! k)"
    "row_loc (s_mod e) (rows ! k) \<noteq> 0"
    using table_reads_gnu [OF assms(1-6,8)] assms(2,7) by (simp_all add: table_reads_def)
  ultimately show ?thesis using assms(5) by (simp add: found_fde_def row_fde_def Let_def)
qed

text \<open>
  \<open>gnu_table m km rows\<close>: the module's header is mapped, has the encodings that the GNU linker
  writes, points to the module's \<^verbatim>\<open>.eh_frame\<close> and holds these rows, sorted by location.
\<close>

definition gnu_table :: "kmem \<Rightarrow> kunwind_module \<Rightarrow> (u32 \<times> u32) list \<Rightarrow> bool" where
  "gnu_table m km rows \<longleftrightarrow>
     (let hdr = sec_kbuf (ehf_hdr km); n = length rows;
          ehptr = ucast (sec_offset (ehf km) - sec_offset (ehf_hdr km) - 4) :: u32
      in hdr \<noteq> 0 \<and> rows \<noteq> [] \<and> unat hdr + 12 + 8 * n < 2 ^ 64 \<and> 12 + 8 * n < 2 ^ 32 \<and>
         sec_size (ehf_hdr km) = of_nat (12 + 8 * n) \<and> bytes_at m hdr (gnu_hdr ehptr rows) \<and>
         scast ehptr = sec_offset (ehf km) - sec_offset (ehf_hdr km) - 4 \<and>
         sorted (map (row_loc km) rows) \<and>
         (\<forall>r \<in> set rows. row_loc km r \<noteq> 0 \<and> scast (fst r) + sec_offset (ehf_hdr km) \<noteq> 0))"

text \<open>The row that governs \<open>pc\<close>: the last one that is not beyond it.\<close>

definition governs :: "kunwind_module \<Rightarrow> (u32 \<times> u32) list \<Rightarrow> u64 \<Rightarrow> nat \<Rightarrow> bool" where
  "governs km rows pc j \<longleftrightarrow>
     j < length rows \<and> row_loc km (rows ! j) \<le> pc \<and>
     (\<forall>k < length rows. j < k \<longrightarrow> pc < row_loc km (rows ! k))"

text \<open>The header's fields and its table, as \<open>_stp_search_fde\<close> reads them before its loop.\<close>

lemma gnu_header:
  assumes "gnu_table m km rows" "s_mem e = m" "s_ehframe e" "\<not> s_compat e" "s_mod e = km" "s_tsize e = 4" "s_enc e = 0x3b"
    "hdr = sec_kbuf (ehf_hdr km)"
  shows "load8 m hdr = Ok 1" "load8 m (hdr + 1) = Ok 0x1b" "load8 m (hdr + 3) = Ok 0x3b"
    "hdr_table e hdr (ucast (sec_size (ehf_hdr km))) 0x1b = Ok (Some (hdr + 12, of_nat (length rows)))"
    "bytes_at m (hdr + 12) (concat (map (\<lambda>(a, b). w32 a @ w32 b) rows))"
    "unat (hdr + 12) + 8 * length rows < 2 ^ 64" "\<not> sec_size (ehf_hdr km) < 4"
    "unat (of_nat (length rows) :: u32) = length rows"
proof -
  define n where "n = length rows"
  define ehptr :: u32 where "ehptr = ucast (sec_offset (ehf km) - sec_offset (ehf_hdr km) - 4)"
  have h: "rows \<noteq> []" "unat hdr + 12 + 8 * n < 2 ^ 64" "12 + 8 * n < 2 ^ 32"
    "sec_size (ehf_hdr km) = of_nat (12 + 8 * n)" "bytes_at m hdr (gnu_hdr ehptr rows)"
    "scast ehptr = sec_offset (ehf km) - sec_offset (ehf_hdr km) - 4"
    using assms(1) by (simp_all add: gnu_table_def Let_def assms(8) n_def ehptr_def)
  show "unat (of_nat (length rows) :: u32) = length rows"
    using h(3) by (simp add: n_def unat_of_nat take_bit_nat_eq_self)
  have us: "unat (sec_size (ehf_hdr km)) = 12 + 8 * n"
    unfolding h(4) using h(3) by (simp only: unat_of_nat) (simp add: take_bit_nat_eq_self)
  have sz: "ucast (sec_size (ehf_hdr km)) = (12 + 8 * of_nat n :: u64)"
    using us by (metis of_nat_unat of_nat_add of_nat_mult of_nat_numeral)
  show "\<not> sec_size (ehf_hdr km) < 4" using us by (simp add: word_less_nat_alt)
  show "load8 m hdr = Ok 1" "load8 m (hdr + 1) = Ok 0x1b" "load8 m (hdr + 3) = Ok 0x3b"
    "bytes_at m (hdr + 12) (concat (map (\<lambda>(a, b). w32 a @ w32 b) rows))"
    using h(5) by (simp_all add: gnu_hdr_def bytes_at_append add.commute)
  have "scast ehptr + 4 + sec_offset (ehf_hdr km) = sec_offset (ehf km)" unfolding h(6) by simp
  then show "hdr_table e hdr (ucast (sec_size (ehf_hdr km))) 0x1b = Ok (Some (hdr + 12, of_nat (length rows)))"
    unfolding sz n_def by (intro hdr_table_gnu) (use h(1-5) assms(2-7) in \<open>simp_all add: n_def\<close>)
  show "unat (hdr + 12) + 8 * length rows < 2 ^ 64"
    using unat_add_nowrap [of hdr 12] h(2) by (simp add: n_def)
qed

lemma search_fde_gnu:
  assumes "gnu_table m km rows"
  shows "\<exists>fde. stp_search_fde m ua pc True user False km =
      rbind (check_fde m fde (sec_kbuf (ehf km)) (sec_size (ehf km)) True)
        (\<lambda>ok. Ok (if ok then fde else 0)) \<and>
    (if row_loc km (hd rows) \<le> pc then \<exists>j. governs km rows pc j \<and> fde = row_fde km (rows ! j)
     else fde = 0)"
proof -
  define hdr n where "hdr = sec_kbuf (ehf_hdr km)" and "n = length rows"
  define e where "e = \<lparr>s_mem = m, s_ua = ua, s_ehframe = True, s_user = user, s_compat = False,
    s_mod = km, s_tsize = 4, s_enc = 0x3b\<rparr>"
  have e [simp]: "s_mem e = m" "s_ehframe e" "\<not> s_compat e" "s_mod e = km" "s_tsize e = 4" "s_enc e = 0x3b"
    by (simp_all add: e_def)
  note b = gnu_header [OF assms e hdr_def]
  have h: "hdr \<noteq> 0" "12 + 8 * n < 2 ^ 32" "sorted (map (row_loc km) rows)"
    and nz: "\<forall>r \<in> set rows. row_loc km r \<noteq> 0 \<and> scast (fst r) + sec_offset (ehf_hdr km) \<noteq> 0"
    and n0: "0 < n" "hd rows = rows ! 0"
    using assms by (auto simp: gnu_table_def Let_def hdr_def n_def hd_conv_nth)
  have tr: "table_reads e (hdr + 12) (\<lambda>k. row_loc km (rows ! k))
      (\<lambda>k. scast (fst (rows ! k)) + sec_offset (ehf_hdr km)) n"
    using table_reads_gnu [of e "hdr + 12" rows] b(5,6) nz by (simp add: n_def)
  have so: "row_loc km (rows ! i) \<le> row_loc km (rows ! j)" if "i \<le> j" "j < n" for i j
    using sorted_nth_mono [OF h(3), of i j] that by (simp add: n_def)
  obtain j num' where j: "search_loop e pc (hdr + 12) (of_nat n) = Ok (Some (table_at e (hdr + 12) j, num'))"
    "j < n" "if row_loc km (rows ! 0) \<le> pc then num' = 1 \<and> row_loc km (rows ! j) \<le> pc \<and>
        (\<forall>k. j < k \<and> k < n \<longrightarrow> pc < row_loc km (rows ! k)) else j = 0 \<and> num' \<le> 1"
    using search_loop_finds [OF tr so _ _ _ n0(1), of "of_nat n" pc] h(2) b(8) by (auto simp: n_def)
  let ?fde = "if num' = 1 \<and> row_loc km (rows ! j) \<le> pc then row_fde km (rows ! j) else 0"
  have f: "found_fde e pc (table_at e (hdr + 12) j) num' = Ok ?fde"
    using found_fde_gnu [of e "hdr + 12" rows j pc num'] b(5,6) nz j(2) by (simp add: n_def)
  have "table_field_size 0x3b False = Some 4" by (simp add: table_field_size_def DW_EH_PE_defs)
  then have "stp_search_fde m ua pc True user False km =
      rbind (check_fde m ?fde (sec_kbuf (ehf km)) (sec_size (ehf km)) True)
        (\<lambda>ok. Ok (if ok then ?fde else 0))"
    unfolding stp_search_fde_def Let_def hdr_def [symmetric]
    using h(1) b(1-4,7) j(1) f by (simp add: e_def [symmetric] n_def)
  then show ?thesis using j(2,3) by (auto simp: n0(2) governs_def n_def split: if_splits)
qed

lemma search_fde_governs:
  assumes "gnu_table m km rows" "governs km rows pc j"
  shows "stp_search_fde m ua pc True user False km =
      rbind (check_fde m (row_fde km (rows ! j)) (sec_kbuf (ehf km)) (sec_size (ehf km)) True)
        (\<lambda>ok. Ok (if ok then row_fde km (rows ! j) else 0))"
proof -
  obtain fde where f: "stp_search_fde m ua pc True user False km =
      rbind (check_fde m fde (sec_kbuf (ehf km)) (sec_size (ehf km)) True) (\<lambda>ok. Ok (if ok then fde else 0))"
    "if row_loc km (hd rows) \<le> pc then \<exists>j. governs km rows pc j \<and> fde = row_fde km (rows ! j) else fde = 0"
    using search_fde_gnu [OF assms(1)] by blast
  have so: "sorted (map (row_loc km) rows)" "rows \<noteq> []" using assms(1) by (simp_all add: gnu_table_def Let_def)
  have j: "j < length rows" "row_loc km (rows ! j) \<le> pc" using assms(2) by (simp_all add: governs_def)
  have "row_loc km (hd rows) \<le> pc"
    using sorted_nth_mono [OF so(1), of 0 j] j so(2) by (simp add: hd_conv_nth)
  then obtain i where i: "governs km rows pc i" "fde = row_fde km (rows ! i)" using f(2) by auto
  have "i = j" using i(1) assms(2) by (auto simp: governs_def) (metis leD nat_neq_iff)
  then have fde: "fde = row_fde km (rows ! j)" using i(2) by simp
  show ?thesis using f(1) unfolding fde .
qed

end
