(* ===== verification/Dwarf_Expr.thy ===== *)
theory Dwarf_Expr
  imports Cfi_Safety "HOL-Library.Signed_Division"
begin

text \<open>
  The DWARF expression evaluator \<open>compute_expr\<close> of \<^verbatim>\<open>src/unwind.c\<close>: a stack machine over eight
  signed slots. \<open>None\<close> is \<open>return 1\<close>, the function's error; a \<open>Fault\<close> is a behaviour C leaves
  undefined. The slots of the local array start out unassigned and keep what was popped, because
  \<open>DW_OP_pick\<close> may read above the top of the stack.
\<close>

section \<open>Opcodes\<close>

definition DW_OP_addr :: u8 where "DW_OP_addr = 0x03"
definition DW_OP_deref :: u8 where "DW_OP_deref = 0x06"
definition DW_OP_const1u :: u8 where "DW_OP_const1u = 0x08"
definition DW_OP_const1s :: u8 where "DW_OP_const1s = 0x09"
definition DW_OP_const2u :: u8 where "DW_OP_const2u = 0x0a"
definition DW_OP_const2s :: u8 where "DW_OP_const2s = 0x0b"
definition DW_OP_const4u :: u8 where "DW_OP_const4u = 0x0c"
definition DW_OP_const4s :: u8 where "DW_OP_const4s = 0x0d"
definition DW_OP_const8u :: u8 where "DW_OP_const8u = 0x0e"
definition DW_OP_const8s :: u8 where "DW_OP_const8s = 0x0f"
definition DW_OP_constu :: u8 where "DW_OP_constu = 0x10"
definition DW_OP_consts :: u8 where "DW_OP_consts = 0x11"
definition DW_OP_dup :: u8 where "DW_OP_dup = 0x12"
definition DW_OP_drop :: u8 where "DW_OP_drop = 0x13"
definition DW_OP_over :: u8 where "DW_OP_over = 0x14"
definition DW_OP_pick :: u8 where "DW_OP_pick = 0x15"
definition DW_OP_swap :: u8 where "DW_OP_swap = 0x16"
definition DW_OP_rot :: u8 where "DW_OP_rot = 0x17"
definition DW_OP_abs :: u8 where "DW_OP_abs = 0x19"
definition DW_OP_and :: u8 where "DW_OP_and = 0x1a"
definition DW_OP_div :: u8 where "DW_OP_div = 0x1b"
definition DW_OP_minus :: u8 where "DW_OP_minus = 0x1c"
definition DW_OP_mod :: u8 where "DW_OP_mod = 0x1d"
definition DW_OP_mul :: u8 where "DW_OP_mul = 0x1e"
definition DW_OP_neg :: u8 where "DW_OP_neg = 0x1f"
definition DW_OP_not :: u8 where "DW_OP_not = 0x20"
definition DW_OP_or :: u8 where "DW_OP_or = 0x21"
definition DW_OP_plus :: u8 where "DW_OP_plus = 0x22"
definition DW_OP_plus_uconst :: u8 where "DW_OP_plus_uconst = 0x23"
definition DW_OP_shl :: u8 where "DW_OP_shl = 0x24"
definition DW_OP_shr :: u8 where "DW_OP_shr = 0x25"
definition DW_OP_shra :: u8 where "DW_OP_shra = 0x26"
definition DW_OP_xor :: u8 where "DW_OP_xor = 0x27"
definition DW_OP_bra :: u8 where "DW_OP_bra = 0x28"
definition DW_OP_eq :: u8 where "DW_OP_eq = 0x29"
definition DW_OP_ge :: u8 where "DW_OP_ge = 0x2a"
definition DW_OP_gt :: u8 where "DW_OP_gt = 0x2b"
definition DW_OP_le :: u8 where "DW_OP_le = 0x2c"
definition DW_OP_lt :: u8 where "DW_OP_lt = 0x2d"
definition DW_OP_ne :: u8 where "DW_OP_ne = 0x2e"
definition DW_OP_skip :: u8 where "DW_OP_skip = 0x2f"
definition DW_OP_lit0 :: u8 where "DW_OP_lit0 = 0x30"
definition DW_OP_lit31 :: u8 where "DW_OP_lit31 = 0x4f"
definition DW_OP_breg0 :: u8 where "DW_OP_breg0 = 0x70"
definition DW_OP_breg31 :: u8 where "DW_OP_breg31 = 0x8f"
definition DW_OP_bregx :: u8 where "DW_OP_bregx = 0x92"
definition DW_OP_deref_size :: u8 where "DW_OP_deref_size = 0x94"
definition DW_OP_nop :: u8 where "DW_OP_nop = 0x96"

lemmas DW_OP_defs =
  DW_OP_addr_def DW_OP_deref_def DW_OP_const1u_def DW_OP_const1s_def DW_OP_const2u_def
  DW_OP_const2s_def DW_OP_const4u_def DW_OP_const4s_def DW_OP_const8u_def DW_OP_const8s_def
  DW_OP_constu_def DW_OP_consts_def DW_OP_dup_def DW_OP_drop_def DW_OP_over_def DW_OP_pick_def
  DW_OP_swap_def DW_OP_rot_def DW_OP_abs_def DW_OP_and_def DW_OP_div_def DW_OP_minus_def
  DW_OP_mod_def DW_OP_mul_def DW_OP_neg_def DW_OP_not_def DW_OP_or_def DW_OP_plus_def
  DW_OP_plus_uconst_def DW_OP_shl_def DW_OP_shr_def DW_OP_shra_def DW_OP_xor_def DW_OP_bra_def
  DW_OP_eq_def DW_OP_ge_def DW_OP_gt_def DW_OP_le_def DW_OP_lt_def DW_OP_ne_def DW_OP_skip_def
  DW_OP_lit0_def DW_OP_lit31_def DW_OP_breg0_def DW_OP_breg31_def DW_OP_bregx_def
  DW_OP_deref_size_def DW_OP_nop_def

section \<open>The stack\<close>

definition MAX_EXPR_STACK :: nat where "MAX_EXPR_STACK = 8"

record xstack =
  slots :: "u64 option list"
  sp :: nat

definition empty_xstack :: xstack where
  "empty_xstack = \<lparr>slots = replicate MAX_EXPR_STACK None, sp = 0\<rparr>"

text \<open>\<open>stack[i]\<close> as a value: out of the array, never assigned, or a number.\<close>

definition slot_get :: "xstack \<Rightarrow> nat \<Rightarrow> u64 res" where
  "slot_get st i =
     (if i < length (slots st)
      then (case slots st ! i of None \<Rightarrow> Fault Uninit | Some v \<Rightarrow> Ok v) else Fault BadIndex)"

definition PUSH :: "u64 \<Rightarrow> xstack \<Rightarrow> xstack option" where
  "PUSH v st =
     (if sp st = MAX_EXPR_STACK then None
      else Some (st\<lparr>slots := (slots st)[sp st := Some v], sp := sp st + 1\<rparr>))"

definition POP :: "xstack \<Rightarrow> (u64 \<times> xstack) option res" where
  "POP st =
     (if sp st = 0 then Ok None
      else rbind (slot_get st (sp st - 1)) (\<lambda>v. Ok (Some (v, st\<lparr>sp := sp st - 1\<rparr>))))"

text \<open>An operation's result: the cursor and the stack, or \<open>return 1\<close>.\<close>

type_synonym xout = "(addr \<times> xstack) option res"

definition push_at :: "addr \<Rightarrow> u64 \<Rightarrow> xstack \<Rightarrow> xout" where
  "push_at p v st = Ok (case PUSH v st of None \<Rightarrow> None | Some st' \<Rightarrow> Some (p, st'))"

definition with_pop :: "xstack \<Rightarrow> (u64 \<Rightarrow> xstack \<Rightarrow> xout) \<Rightarrow> xout" where
  "with_pop st f = rbind (POP st) (\<lambda>r. case r of None \<Rightarrow> Ok None | Some (v, st') \<Rightarrow> f v st')"

text \<open>
  \<open>PUSH(f(POP))\<close> expands to \<open>stack[sp++] = f(... stack[--sp])\<close> behind the overflow test: the
  increment of \<open>sp\<close> is unsequenced with the test and the decrement in \<open>POP\<close>.
\<close>

definition push_of_pop :: "xstack \<Rightarrow> xout" where
  "push_of_pop st =
     (if sp st = MAX_EXPR_STACK then Ok None else Fault Unseq)"

section \<open>Operations\<close>

definition bool_val :: "bool \<Rightarrow> u64" where "bool_val b = (if b then 1 else 0)"

text \<open>The operators of \<open>BINOP\<close>, \<open>a\<close> below \<open>b\<close> on the stack, on \<open>long\<close>; \<open>None\<close>: not one of them.\<close>

definition binop :: "u8 \<Rightarrow> u64 \<Rightarrow> u64 \<Rightarrow> u64 res option" where
  "binop op a b =
     (if op = DW_OP_eq then Some (Ok (bool_val (a = b)))
      else if op = DW_OP_ne then Some (Ok (bool_val (a \<noteq> b)))
      else if op = DW_OP_ge then Some (Ok (bool_val (sint a \<ge> sint b)))
      else if op = DW_OP_gt then Some (Ok (bool_val (sint a > sint b)))
      else if op = DW_OP_le then Some (Ok (bool_val (sint a \<le> sint b)))
      else if op = DW_OP_lt then Some (Ok (bool_val (sint a < sint b)))
      else if op = DW_OP_and then Some (Ok (a AND b))
      else if op = DW_OP_or then Some (Ok (a OR b))
      else if op = DW_OP_xor then Some (Ok (a XOR b))
      else if op = DW_OP_plus then Some (Ok (a + b))
      else if op = DW_OP_minus then Some (Ok (a - b))
      else if op = DW_OP_mul then Some (Ok (a * b))
      else if op = DW_OP_shl then Some (shl64 a b)
      else if op = DW_OP_shra then
        Some (if b < 64 then Ok (signed_drop_bit (unat b) a) else Fault BadShift)
      else None)"

text \<open>\<open>mod\<close>, \<open>div\<close> and \<open>shr\<close>; a result \<open>Ok None\<close> is the jump to \<open>divzero\<close>.\<close>

definition divop :: "u8 \<Rightarrow> u64 \<Rightarrow> u64 \<Rightarrow> u64 option res" where
  "divop op a b =
     (if op = DW_OP_mod then Ok (if b = 0 then None else Some (a mod b))
      else if op = DW_OP_div then
        (if b = 0 then Ok None
         else if sint a = - (2 ^ 63) \<and> sint b = - 1 then Fault DivTrap
         else Ok (Some (of_int (sint a sdiv sint b))))
      else if b < 64 then Ok (Some (drop_bit (unat b) a)) else Fault BadShift)"

record expr_args =
  x_mem :: kmem
  x_ua :: uaccess
  x_frame :: unwind_frame_info
  x_start :: addr
  x_end :: addr
  x_user :: bool
  x_compat :: bool

text \<open>\<open>NEED(sizeof ...)\<close> compares as \<open>unsigned long\<close>, \<open>NEED(1)\<close> as \<open>long\<close>.\<close>

definition needs :: "expr_args \<Rightarrow> addr \<Rightarrow> nat \<Rightarrow> bool" where
  "needs x p n \<longleftrightarrow> \<not> (x_end x - p < of_nat n)"

definition needs1 :: "expr_args \<Rightarrow> addr \<Rightarrow> bool" where
  "needs1 x p \<longleftrightarrow> \<not> (sint (x_end x - p) < 1)"

definition op_constant :: "expr_args \<Rightarrow> nat \<Rightarrow> bool \<Rightarrow> addr \<Rightarrow> xstack \<Rightarrow> xout" where
  "op_constant x n sx p st =
     (if \<not> needs x p n then Ok None
      else rbind (load_le (x_mem x) p n) (\<lambda>w.
        push_at (p + of_nat n) (if sx then signed_take_bit (8 * n - 1) w else w) st))"

text \<open>\<open>DW_OP_skip\<close>, and \<open>DW_OP_bra\<close> when it is taken. A backward branch is refused.\<close>

definition op_skip :: "expr_args \<Rightarrow> addr \<Rightarrow> xstack \<Rightarrow> xout" where
  "op_skip x p st =
     (if \<not> needs x p 2 then Ok None
      else rbind (load16 (x_mem x) p) (\<lambda>w.
        let d = sint w; q = p + 2
        in if (if d < 0 then sint (q - x_start x) < - d else sint (x_end x - q) < d) then Ok None
           else if d < 0 then Ok None
           else Ok (Some (q + of_int d, st))))"

text \<open>\<open>pick\<close>: the value at \<open>stack[sp - value]\<close>.\<close>

definition op_pick :: "u64 \<Rightarrow> addr \<Rightarrow> xstack \<Rightarrow> xout" where
  "op_pick v p st =
     (if unat v \<ge> sp st then Ok None
      else rbind (slot_get st (sp st - unat v)) (\<lambda>w. push_at p w st))"

definition op_breg :: "expr_args \<Rightarrow> u64 \<Rightarrow> addr \<Rightarrow> xstack \<Rightarrow> xout" where
  "op_breg x v p st =
     (let r = map_reg (x_compat x) v
      in if unat r \<ge> NREGS then Ok None
         else rbind (get_sleb128 (x_mem x) p (x_end x)) (\<lambda>(off, q).
              rbind (frame_get (x_frame x) r 8) (\<lambda>w. push_at q (w + off) st)))"

text \<open>\<open>deref\<close>: the value read is not pushed.\<close>

definition op_deref :: "expr_args \<Rightarrow> u64 \<Rightarrow> addr \<Rightarrow> xstack \<Rightarrow> xout" where
  "op_deref x v p st =
     with_pop st (\<lambda>a st.
       if v = 1 \<or> v = 2 \<or> v = 4 \<or> v = 8
       then Ok (case stp_read_address (x_ua x) (user_segment (x_user x)) (unat v) a of
                  None \<Rightarrow> None | Some _ \<Rightarrow> Some (p, st))
       else Ok None)"

text \<open>The operations on two popped operands, and the default.\<close>

definition op_arith :: "u8 \<Rightarrow> addr \<Rightarrow> xstack \<Rightarrow> xout" where
  "op_arith op p st =
     (if op = DW_OP_mod \<or> op = DW_OP_div \<or> op = DW_OP_shr then
        with_pop st (\<lambda>b st. with_pop st (\<lambda>a st.
          rbind (divop op a b) (\<lambda>r. case r of None \<Rightarrow> Ok None | Some v \<Rightarrow> push_at p v st)))
      else if binop op 0 0 = None then Ok None
      else with_pop st (\<lambda>b st. with_pop st (\<lambda>a st.
        case binop op a b of None \<Rightarrow> Ok None | Some r \<Rightarrow> rbind r (\<lambda>v. push_at p v st))))"

definition op_unary :: "expr_args \<Rightarrow> u8 \<Rightarrow> addr \<Rightarrow> xstack \<Rightarrow> xout" where
  "op_unary x op p st =
     (if op = DW_OP_not \<or> op = DW_OP_neg then push_of_pop st
      else if op = DW_OP_abs then
        with_pop st (\<lambda>v st. push_at p (if sint v < 0 then - v else v) st)
      else if op = DW_OP_bregx then
        rbind (get_uleb128 (x_mem x) p (x_end x)) (\<lambda>(v, q). op_breg x v q st)
      else if DW_OP_breg0 \<le> op \<and> op \<le> DW_OP_breg31 then op_breg x (ucast op - ucast DW_OP_breg0) p st
      else if op = DW_OP_deref then op_deref x 8 p st
      else if op = DW_OP_deref_size then
        (if \<not> needs1 x p then Ok None
         else rbind (load8 (x_mem x) p) (\<lambda>b.
           if (ucast b :: u64) > 8 then Ok None else op_deref x (ucast b) (p + 1) st))
      else op_arith op p st)"

definition op_const :: "expr_args \<Rightarrow> u8 \<Rightarrow> addr \<Rightarrow> xstack \<Rightarrow> xout" where
  "op_const x op p st =
     (if op = DW_OP_addr \<or> op = DW_OP_const8u \<or> op = DW_OP_const8s then op_constant x 8 False p st
      else if op = DW_OP_const1u then op_constant x 1 False p st
      else if op = DW_OP_const1s then op_constant x 1 True p st
      else if op = DW_OP_const2u then op_constant x 2 False p st
      else if op = DW_OP_const2s then op_constant x 2 True p st
      else if op = DW_OP_const4u then op_constant x 4 False p st
      else if op = DW_OP_const4s then op_constant x 4 True p st
      else if op = DW_OP_constu then
        rbind (get_uleb128 (x_mem x) p (x_end x)) (\<lambda>(v, q). push_at q v st)
      else if op = DW_OP_consts then
        rbind (get_sleb128 (x_mem x) p (x_end x)) (\<lambda>(v, q). push_at q v st)
      else if DW_OP_lit0 \<le> op \<and> op \<le> DW_OP_lit31 then push_at p (ucast op - ucast DW_OP_lit0) st
      else if op = DW_OP_plus_uconst then
        rbind (get_uleb128 (x_mem x) p (x_end x)) (\<lambda>_. push_of_pop st)
      else op_unary x op p st)"

text \<open>
  One operation; \<open>p\<close> is the cursor after the opcode. A \<open>DW_OP_bra\<close> that is not taken goes on at its
  own operand.
\<close>

definition expr_op :: "expr_args \<Rightarrow> u8 \<Rightarrow> addr \<Rightarrow> xstack \<Rightarrow> xout" where
  "expr_op x op p st =
     (if op = DW_OP_nop then Ok (Some (p, st))
      else if op = DW_OP_bra then
        with_pop st (\<lambda>v st. if v = 0 then Ok (Some (p, st)) else op_skip x p st)
      else if op = DW_OP_skip then op_skip x p st
      else if op = DW_OP_dup then
        with_pop st (\<lambda>v st. case PUSH v st of None \<Rightarrow> Ok None | Some st \<Rightarrow> push_at p v st)
      else if op = DW_OP_drop then with_pop st (\<lambda>v st. Ok (Some (p, st)))
      else if op = DW_OP_swap then
        with_pop st (\<lambda>tos st. with_pop st (\<lambda>nos st.
          case PUSH tos st of None \<Rightarrow> Ok None | Some st \<Rightarrow> push_at p nos st))
      else if op = DW_OP_over then op_pick 1 p st
      else if op = DW_OP_pick then
        (if \<not> needs1 x p then Ok None
         else rbind (load8 (x_mem x) p) (\<lambda>b. op_pick (ucast b) (p + 1) st))
      else op_const x op p st)"

section \<open>The loop\<close>

fun expr_loop :: "nat \<Rightarrow> expr_args \<Rightarrow> addr \<Rightarrow> xstack \<Rightarrow> xstack option res" where
  "expr_loop fuel x p st =
     (if p < x_end x
      then (case fuel of
          0 \<Rightarrow> Fault NoFuel
        | Suc n \<Rightarrow> rbind (load8 (x_mem x) p) (\<lambda>op.
            rbind (expr_op x op (p + 1) st) (\<lambda>r.
              case r of None \<Rightarrow> Ok None | Some (q, st') \<Rightarrow> expr_loop n x q st')))
      else Ok (Some st))"

declare expr_loop.simps [simp del]

text \<open>
  The fuel is the length of the expression: every operation moves the cursor forward. The length
  itself is read with the end of the address space as its bound.
\<close>

definition compute_expr ::
  "kmem \<Rightarrow> uaccess \<Rightarrow> addr \<Rightarrow> unwind_frame_info \<Rightarrow> bool \<Rightarrow> bool \<Rightarrow> u64 option res" where
  "compute_expr m ua expr frame user compat_task =
     rbind (get_uleb128 m expr (- 1)) (\<lambda>(len, start).
       let x = \<lparr>x_mem = m, x_ua = ua, x_frame = frame, x_start = start, x_end = start + len,
                x_user = user, x_compat = compat_task\<rparr>
       in rbind (expr_loop (unat len) x start empty_xstack) (\<lambda>r.
            case r of
              None \<Rightarrow> Ok None
            | Some st \<Rightarrow> rbind (POP st) (\<lambda>r.
                Ok (case r of None \<Rightarrow> None | Some (v, _) \<Rightarrow> Some v))))"

end
