(* ===== verification/Expr_Safety.thy ===== *)
theory Expr_Safety
  imports Dwarf_Expr
begin

text \<open>
  What every DWARF expression keeps, whatever its bytes: the bounds of the evaluation stack, the
  progress of the cursor (so that the loop ends within its fuel), and the addresses it loads from.
\<close>

section \<open>What every expression keeps\<close>

text \<open>
  \<open>wf_xstack\<close>: the array has its size, \<open>sp\<close> is within it, and what is below \<open>sp\<close> was assigned.
  \<open>xkeeps x p r\<close>: an operation from cursor \<open>p\<close> that goes on does so from a well-formed stack, further
  on and at most one byte past the end.
\<close>

definition wf_xstack :: "xstack \<Rightarrow> bool" where
  "wf_xstack st \<longleftrightarrow>
     length (slots st) = MAX_EXPR_STACK \<and> sp st \<le> MAX_EXPR_STACK \<and>
     (\<forall>i < sp st. slots st ! i \<noteq> None)"

definition xkeeps :: "expr_args \<Rightarrow> addr \<Rightarrow> (addr \<times> xstack) option \<Rightarrow> bool" where
  "xkeeps x p r =
     (case r of None \<Rightarrow> True
      | Some (q, st) \<Rightarrow> wf_xstack st \<and> p \<le> q \<and> unat q \<le> unat (x_end x) + 1)"

lemma xkeeps_simps [simp]:
  "xkeeps x p None" "xkeeps x p (Some (q, st)) \<longleftrightarrow> wf_xstack st \<and> p \<le> q \<and> unat q \<le> unat (x_end x) + 1"
  by (simp_all add: xkeeps_def)

lemma wf_empty_xstack [simp]: "wf_xstack empty_xstack"
  by (simp add: wf_xstack_def empty_xstack_def)

lemma wf_PUSH: "wf_xstack st \<Longrightarrow> PUSH v st = Some st' \<Longrightarrow> wf_xstack st'"
  by (auto simp: wf_xstack_def PUSH_def nth_list_update less_Suc_eq split: if_splits)

lemma meets_POP:
  "wf_xstack st \<Longrightarrow> meets (\<lambda>r. case r of None \<Rightarrow> True | Some (v, st') \<Rightarrow> wf_xstack st') (POP st)"
  by (auto simp: POP_def slot_get_def wf_xstack_def split: option.splits)

lemma meets_with_pop:
  "wf_xstack st \<Longrightarrow> (\<And>v st'. wf_xstack st' \<Longrightarrow> meets (xkeeps x p) (f v st')) \<Longrightarrow>
   meets (xkeeps x p) (with_pop st f)"
  unfolding with_pop_def
  by (rule meets_rbind [OF meets_POP]) (auto split: option.splits)

lemma meets_push_at:
  "wf_xstack st \<Longrightarrow> p \<le> q \<Longrightarrow> unat q \<le> unat (x_end x) + 1 \<Longrightarrow> meets (xkeeps x p) (push_at q v st)"
  by (auto simp: push_at_def dest: wf_PUSH split: option.splits)

text \<open>\<open>xmapped x p\<close>: from \<open>p\<close> to its end the expression is mapped, and it ends below the top.\<close>

definition xmapped :: "expr_args \<Rightarrow> addr \<Rightarrow> bool" where
  "xmapped x p \<longleftrightarrow> mapped (x_mem x) p (x_end x) \<and> unat (x_end x) + 1 < 2 ^ 64 \<and> p \<le> x_end x"

lemma meets_xleb:
  assumes "xmapped x p"
  shows "meets (\<lambda>(v, q). p \<le> q \<and> unat q \<le> unat (x_end x) + 1) (get_uleb128 (x_mem x) p (x_end x))"
    "meets (\<lambda>(v, q). p \<le> q \<and> unat q \<le> unat (x_end x) + 1) (get_sleb128 (x_mem x) p (x_end x))"
  using uleb.meets_near sleb.meets_near assms by (simp_all add: xmapped_def word_le_nat_alt)

lemmas meets_xuleb = meets_xleb(1) and meets_xsleb = meets_xleb(2)

lemma needs_room:
  assumes "xmapped x p" "needs x p n" "n < 2 ^ 64"
  shows "unat p + n \<le> unat (x_end x)" "unat (p + of_nat n) = unat p + n" "p \<le> p + of_nat n"
proof -
  have "n \<le> unat (x_end x - p)"
    using assms(2,3) by (simp add: needs_def word_less_nat_alt unat_of_nat take_bit_nat_eq_self)
  then show r: "unat p + n \<le> unat (x_end x)"
    using assms(1) by (simp add: xmapped_def unat_sub word_le_nat_alt) linarith
  then show "unat (p + of_nat n) = unat p + n" "p \<le> p + of_nat n"
    using unat_u64_less [of "x_end x"] unat_add_nowrap [of p n] le_add_nowrap [of p n] by simp_all
qed

lemma safe_xload:
  "xmapped x p \<Longrightarrow> needs x p n \<Longrightarrow> n < 2 ^ 64 \<Longrightarrow> safe (load_le (x_mem x) p n)"
  using needs_room [of x p n] by (auto simp: xmapped_def intro: safe_load_le_mapped)

lemma meets_constant:
  assumes "xmapped x p" "wf_xstack st" "n \<le> 8"
  shows "meets (xkeeps x p) (op_constant x n sx p st)"
  using needs_room [OF assms(1), of n] safe_xload [OF assms(1), of n] assms(2,3)
  by (auto simp: op_constant_def intro!: meets_load meets_push_at)

lemma needs1_room:
  assumes "xmapped x p" "needs1 x p"
  shows "p < x_end x"
proof (rule ccontr)
  assume "\<not> p < x_end x"
  then have "x_end x = p" using assms(1) by (simp add: xmapped_def)
  then show False using assms(2) by (simp add: needs1_def)
qed

lemma meets_skip:
  assumes "xmapped x p" "wf_xstack st"
  shows "meets (xkeeps x p) (op_skip x p st)"
proof (cases "needs x p 2")
  case True
  have r: "unat (p + 2) = unat p + 2" "p \<le> p + 2" "unat p + 2 \<le> unat (x_end x)"
    using needs_room [OF assms(1) True] by simp_all
  have "xkeeps x p (Some (p + 2 + of_int (sint w), st))"
    if "\<not> sint w < 0" "\<not> sint (x_end x - (p + 2)) < sint w" for w :: u16
  proof -
    define d where "d = nat (sint w)"
    have d: "sint w = int d" using that(1) by (simp add: d_def)
    have "sint w < 2 ^ 15" using sint_lt [of w] by simp
    then have d15: "d < 2 ^ 15" using d by simp
    have "int d \<le> int (unat (x_end x - (p + 2)))"
      using that(2) d sint_le_unat [of "x_end x - (p + 2)"] by linarith
    then have "d \<le> unat (x_end x - (p + 2))" by (simp only: of_nat_le_iff)
    then have "d \<le> unat (x_end x) - unat (p + 2)"
      using r by (simp add: unat_sub word_le_nat_alt)
    then have "unat (p + 2) + d \<le> unat (x_end x)" using r by simp
    moreover from this have "unat (p + 2 + of_nat d) = unat (p + 2) + d"
      using unat_u64_less [of "x_end x"] unat_add_nowrap [of "p + 2" d] by simp
    ultimately show ?thesis using d r assms(2) by (simp add: word_le_nat_alt)
  qed
  then show ?thesis
    using True safe_xload [OF assms(1) True]
    by (auto simp: op_skip_def Let_def load16_def intro!: meets_load safe_rbind)
qed (simp add: op_skip_def)


lemma meets_xtrans:
  "meets (xkeeps x q) r \<Longrightarrow> p \<le> q \<Longrightarrow> meets (xkeeps x p) r"
  by (erule meets_mono) (auto simp: xkeeps_def split: option.splits)

lemma xmapped_step:
  assumes "xmapped x p" "p < x_end x"
  shows "xmapped x (p + 1)" "p \<le> p + 1" "unat (p + 1) \<le> unat (x_end x) + 1"
  using assms mapped_step [of "x_mem x" p "x_end x"] add1_le [OF assms(2)] less_add1 [OF assms(2)]
  by (auto simp: xmapped_def le_SucI simp flip: word_le_nat_alt)

lemma safe_xload8: "xmapped x p \<Longrightarrow> p < x_end x \<Longrightarrow> safe (load8 (x_mem x) p)"
  by (auto simp: xmapped_def intro: safe_load8_mapped)

lemma xmapped_end: "xmapped x p \<Longrightarrow> unat p \<le> unat (x_end x) + 1"
  by (simp add: xmapped_def word_le_nat_alt)

lemma meets_pick:
  assumes "wf_xstack st" "p \<le> q" "unat q \<le> unat (x_end x) + 1"
  shows "meets (xkeeps x p) (op_pick v q st)"
proof -
  have "safe (slot_get st i)" for i by (auto simp: slot_get_def split: option.splits)
  then show ?thesis using meets_push_at [OF assms] by (auto simp: op_pick_def intro!: meets_load)
qed

lemma safe_frame_get: "safe (frame_get f r n)"
  by (simp add: frame_get_def Let_def)

lemma meets_breg:
  assumes "xmapped x p" "wf_xstack st"
  shows "meets (xkeeps x p) (op_breg x v p st)"
  unfolding op_breg_def Let_def
  using assms(2)
  by (auto intro!: meets_rbind_pair [OF meets_xsleb [OF assms(1)]] meets_load safe_frame_get meets_push_at)

text \<open>The extended number of \<open>DW_OP_bregx\<close> may leave the cursor past the end; nothing is read there.\<close>

lemma get_sleb128_past: "\<not> p < lim \<Longrightarrow> get_sleb128 m p lim = Ok (0, p)"
  by (simp add: get_sleb128_def sleb_loop.simps)

lemma meets_breg_past:
  assumes "\<not> q < x_end x" "p \<le> q" "unat q \<le> unat (x_end x) + 1" "wf_xstack st"
  shows "meets (xkeeps x p) (op_breg x v q st)"
  unfolding op_breg_def Let_def
  using assms(2-4)
  by (auto simp: get_sleb128_past [OF assms(1)] intro!: meets_load safe_frame_get meets_push_at)

lemma meets_bregx:
  assumes "xmapped x p" "wf_xstack st"
  shows "meets (xkeeps x p) (rbind (get_uleb128 (x_mem x) p (x_end x)) (\<lambda>(v, q). op_breg x v q st))"
proof (rule meets_rbind_pair [OF meets_xuleb [OF assms(1)]])
  fix v q assume q: "p \<le> q \<and> unat q \<le> unat (x_end x) + 1"
  show "meets (xkeeps x p) (op_breg x v q st)"
  proof (cases "q < x_end x")
    case True
    then have "xmapped x q" using assms(1) q mapped_sub [of "x_mem x" p "x_end x" q "x_end x"]
      by (auto simp: xmapped_def)
    then show ?thesis using meets_breg [OF _ assms(2)] meets_xtrans q by blast
  next
    case False
    then show ?thesis using meets_breg_past q assms(2) by blast
  qed
qed

lemma meets_deref:
  assumes "wf_xstack st" "p \<le> q" "unat q \<le> unat (x_end x) + 1"
  shows "meets (xkeeps x p) (op_deref x v q st)"
  unfolding op_deref_def
  using assms by (auto intro!: meets_with_pop split: option.splits)

lemma meets_arith:
  assumes "wf_xstack st" "unat p \<le> unat (x_end x) + 1"
  shows "meets (xkeeps x p) (op_arith op p st)"
proof -
  have "safe (divop op a b)" for a b by (simp add: divop_def)
  moreover have "binop op a b = Some r \<Longrightarrow> safe r" for a b r
    by (auto simp: binop_def split: if_splits)
  ultimately show ?thesis
    unfolding op_arith_def using assms
    by (auto intro!: meets_with_pop meets_load meets_push_at split: option.splits)
qed

lemma meets_unary:
  assumes "xmapped x p" "wf_xstack st"
  shows "meets (xkeeps x p) (op_unary x op p st)"
proof -
  have d: "meets (xkeeps x p) (rbind (load8 (x_mem x) p) (\<lambda>b.
      if (ucast b :: u64) > 8 then Ok None else op_deref x (ucast b) (p + 1) st))" if "needs1 x p"
    using xmapped_step [OF assms(1) needs1_room [OF assms(1) that]] needs1_room [OF assms(1) that] assms
    by (auto intro!: meets_load meets_deref safe_xload8)
  show ?thesis
    unfolding op_unary_def push_of_pop_def
    using d xmapped_end [OF assms(1)] assms
    by (auto intro!: meets_with_pop meets_push_at meets_bregx meets_breg meets_deref meets_arith)
qed

lemma meets_const:
  assumes "xmapped x p" "wf_xstack st"
  shows "meets (xkeeps x p) (op_const x op p st)"
proof -
  have "meets (xkeeps x p) (rbind (get_uleb128 (x_mem x) p (x_end x)) (\<lambda>_. push_of_pop st))"
    by (rule meets_rbind [OF meets_xuleb [OF assms(1)]]) (simp add: push_of_pop_def)
  moreover have "meets (xkeeps x p) (rbind (get_uleb128 (x_mem x) p (x_end x)) (\<lambda>(v, q). push_at q v st))"
    by (rule meets_rbind_pair [OF meets_xuleb [OF assms(1)]]) (simp add: meets_push_at assms)
  moreover have "meets (xkeeps x p) (rbind (get_sleb128 (x_mem x) p (x_end x)) (\<lambda>(v, q). push_at q v st))"
    by (rule meets_rbind_pair [OF meets_xsleb [OF assms(1)]]) (simp add: meets_push_at assms)
  moreover have "meets (xkeeps x p) (push_at p v st)" for v
    using assms xmapped_end [OF assms(1)] by (simp add: meets_push_at)
  ultimately show ?thesis
    unfolding op_const_def using meets_constant [OF assms] meets_unary [OF assms] by simp
qed

lemma meets_expr_operation:
  assumes "xmapped x p" "wf_xstack st"
  shows "meets (xkeeps x p) (expr_op x op p st)"
proof -
  have e: "unat p \<le> unat (x_end x) + 1" using assms(1) by (rule xmapped_end)
  have "meets (xkeeps x p) (rbind (load8 (x_mem x) p) (\<lambda>b. op_pick (ucast b) (p + 1) st))" if "needs1 x p"
    using xmapped_step [OF assms(1) needs1_room [OF assms(1) that]] needs1_room [OF assms(1) that] assms
    by (auto intro!: meets_load meets_pick safe_xload8)
  moreover have "meets (xkeeps x p) (case PUSH w s of None \<Rightarrow> Ok None | Some st \<Rightarrow> push_at p v st)"
    if "wf_xstack s" for v w s
    using that e by (auto intro!: meets_push_at dest: wf_PUSH split: option.splits)
  ultimately show ?thesis
    unfolding expr_op_def
    using assms e meets_skip [OF assms(1)] meets_const [OF assms] meets_pick [OF assms(2) order_refl e]
    by (auto intro!: meets_with_pop)
qed

lemma meets_expr_loop:
  assumes "xmapped x p" "wf_xstack st" "unat (x_end x) - unat p \<le> fuel"
  shows "meets (pred_option wf_xstack) (expr_loop fuel x p st)"
  using assms
proof (induction fuel arbitrary: p st)
  case 0
  then show ?case by (simp add: expr_loop.simps [of 0] word_less_nat_alt)
next
  case (Suc n)
  show ?case
  proof (cases "p < x_end x")
    case True
    note s = xmapped_step [OF Suc.prems(1) True]
    have more: "meets (pred_option wf_xstack) (expr_loop n x q st')" if "xkeeps x (p + 1) (Some (q, st'))" for q st'
    proof (cases "q < x_end x")
      case q: True
      have "p \<le> q" using that s(2) by auto
      then have "xmapped x q"
        using Suc.prems(1) q mapped_sub [of "x_mem x" p "x_end x" q "x_end x"]
        by (auto simp: xmapped_def)
      moreover have "unat (x_end x) - unat q \<le> n"
        using that Suc.prems(3) unat_Suc_less [OF True] by (simp add: word_le_nat_alt) linarith
      ultimately show ?thesis using Suc.IH that by simp
    next
      case False
      then show ?thesis using that by (simp add: expr_loop.simps [of n])
    qed
    have "safe (load8 (x_mem x) p)" using Suc.prems(1) True by (rule safe_xload8)
    then show ?thesis
      using True more
      by (auto simp: expr_loop.simps [of "Suc n"] xkeeps_def split: option.splits
          intro!: meets_load meets_rbind [OF meets_expr_operation [OF s(1) Suc.prems(2)]])
  next
    case False
    then show ?thesis using Suc.prems(2) by (simp add: expr_loop.simps [of "Suc n"])
  qed
qed

text \<open>An expression and its length, mapped and not reaching the top of the address space.\<close>

definition expr_mapped :: "kmem \<Rightarrow> addr \<Rightarrow> bool" where
  "expr_mapped m expr \<longleftrightarrow>
     (\<exists>len start. get_uleb128 m expr (- 1) = Ok (len, start) \<and>
        mapped m start (start + len) \<and> unat start + unat len + 1 < 2 ^ 64)"

lemma safe_compute_expr:
  assumes "expr_mapped m expr"
  shows "safe (compute_expr m ua expr frame user compat_task)"
proof -
  obtain len start where l: "get_uleb128 m expr (- 1) = Ok (len, start)"
    "mapped m start (start + len)" "unat start + unat len + 1 < 2 ^ 64"
    using assms by (auto simp: expr_mapped_def)
  have u: "unat (start + len) = unat start + unat len"
    using unat_add_nowrap [of start "unat len"] l(3) by simp
  let ?x = "\<lparr>x_mem = m, x_ua = ua, x_frame = frame, x_start = start, x_end = start + len,
                x_user = user, x_compat = compat_task\<rparr>"
  have "xmapped ?x start" using l(2,3) u by (simp add: xmapped_def word_le_nat_alt)
  then have "meets (pred_option wf_xstack) (expr_loop (unat len) ?x start empty_xstack)"
    using u by (intro meets_expr_loop) simp_all
  then have "meets (\<lambda>_. True) (rbind (expr_loop (unat len) ?x start empty_xstack) (\<lambda>r.
      case r of None \<Rightarrow> Ok None
      | Some st \<Rightarrow> rbind (POP st) (\<lambda>r. Ok (case r of None \<Rightarrow> None | Some (v, _) \<Rightarrow> Some v))))"
    by (rule meets_rbind) (auto split: option.splits intro!: meets_rbind [OF meets_POP])
  then show ?thesis
    using meets_safe by (auto simp: compute_expr_def l(1) Let_def)
qed

section \<open>Which operation a fault comes from\<close>

text \<open>
  \<open>op_fault m op p\<close>: the faults that the operation \<open>op\<close>, its operand at \<open>p\<close>, may end in. Below the top of a well-formed stack every slot is assigned, so
  that the only accesses to the array that may go wrong are those of \<open>DW_OP_pick\<close> with operand 0, which
  reads the slot above the top.
\<close>

definition op_fault :: "kmem \<Rightarrow> u8 \<Rightarrow> addr \<Rightarrow> fault \<Rightarrow> bool" where
  "op_fault m op p e =
     (case e of
        BadRead a \<Rightarrow> True
      | NoFuel \<Rightarrow> True
      | BadShift \<Rightarrow> True
      | DivTrap \<Rightarrow> op = DW_OP_div
      | Unseq \<Rightarrow> op = DW_OP_not \<or> op = DW_OP_neg \<or> op = DW_OP_plus_uconst
      | BadIndex \<Rightarrow> op = DW_OP_pick \<and> m p = Some 0
      | Uninit \<Rightarrow> op = DW_OP_pick \<and> m p = Some 0
      | Freed \<Rightarrow> False)"

lemma blames_load_op: "blames load_fault r \<Longrightarrow> blames (op_fault m op p) r"
  by (erule blames_mono) (auto simp: load_fault_def op_fault_def)

lemmas op_loads = blames_load8 [THEN blames_load_op] blames_load_le [THEN blames_load_op]
  blames_leb [THEN blames_load_op] blames_shifts [THEN blames_load_op]

lemma slot_below: "wf_xstack st \<Longrightarrow> i < sp st \<Longrightarrow> \<exists>v. slot_get st i = Ok v"
  by (auto simp: wf_xstack_def slot_get_def)

lemma POP_defined: "wf_xstack st \<Longrightarrow> \<exists>r. POP st = Ok r"
  using slot_below [of st "sp st - 1"] by (auto simp: POP_def)

lemma blames_POP: "wf_xstack st \<Longrightarrow> blames F (POP st)"
  using POP_defined by fastforce

lemma blames_with_pop:
  assumes "wf_xstack st" "\<And>v st'. wf_xstack st' \<Longrightarrow> blames F (f v st')"
  shows "blames F (with_pop st f)"
  unfolding with_pop_def
proof (rule blames_rbind [OF blames_POP [OF assms(1)]])
  fix r assume "POP st = Ok r"
  then show "blames F (case r of None \<Rightarrow> Ok None | Some (v, st') \<Rightarrow> f v st')"
    using meets_OkD [OF meets_POP [OF assms(1)]] assms(2) by (auto split: option.splits)
qed

lemma blames_push_at [simp]: "blames F (push_at p v st)"
  by (simp add: push_at_def)

lemma blames_pick:
  assumes "wf_xstack st" "v \<noteq> 0"
  shows "blames F (op_pick v p st)"
proof -
  have "0 < unat v" using assms(2) by (simp add: word_neq_0_conv word_less_nat_alt)
  then have "unat v < sp st \<Longrightarrow> \<exists>w. slot_get st (sp st - unat v) = Ok w"
    using slot_below [OF assms(1)] by simp
  then show ?thesis by (fastforce simp: op_pick_def)
qed

lemma blames_pick_0:
  "op = DW_OP_pick \<Longrightarrow> m p = Some 0 \<Longrightarrow> blames (op_fault m op p) (op_pick 0 q st)"
  by (auto simp: op_pick_def slot_get_def op_fault_def intro!: blames_rbind split: option.splits)

lemma blames_breg: "blames (op_fault m' op p) (op_breg x v q st)"
  unfolding op_breg_def Let_def
  by (auto simp: frame_get_8 intro!: blames_rbind op_loads)

lemma blames_skip: "blames (op_fault m' op p) (op_skip x q st)"
  by (auto simp: op_skip_def Let_def load16_def intro!: blames_rbind op_loads)

lemma blames_deref: "wf_xstack st \<Longrightarrow> blames F (op_deref x v q st)"
  unfolding op_deref_def by (auto intro!: blames_with_pop)

lemma blames_arith:
  assumes "wf_xstack st" shows "blames (op_fault m op p) (op_arith op q st)"
proof -
  have "blames (op_fault m op p) (divop op a b)" for a b by (simp add: divop_def op_fault_def)
  moreover have "binop op a b = Some r \<Longrightarrow> blames (op_fault m op p) r" for a b r
    by (auto simp: binop_def op_fault_def intro: op_loads split: if_splits)
  ultimately show ?thesis
    unfolding op_arith_def using assms
    by (auto intro!: blames_with_pop blames_rbind split: option.splits)
qed

lemma blames_push_of_pop:
  "op = DW_OP_not \<or> op = DW_OP_neg \<or> op = DW_OP_plus_uconst \<Longrightarrow>
   blames (op_fault m op p) (push_of_pop st)"
  by (auto simp: push_of_pop_def op_fault_def)

lemma blames_unary: "wf_xstack st \<Longrightarrow> blames (op_fault m' op p) (op_unary x op q st)"
  unfolding op_unary_def
  by (auto intro!: blames_push_of_pop blames_with_pop blames_rbind op_loads blames_breg blames_deref
      blames_arith)

lemma blames_constant: "blames (op_fault m' op p) (op_constant x n sx q st)"
  by (auto simp: op_constant_def intro!: blames_rbind op_loads)

lemma blames_const: "wf_xstack st \<Longrightarrow> blames (op_fault m' op p) (op_const x op q st)"
  unfolding op_const_def
  by (auto intro!: blames_constant blames_rbind op_loads blames_push_of_pop blames_unary)

lemma blames_expr_op:
  assumes "wf_xstack st"
  shows "blames (op_fault (x_mem x) op p) (expr_op x op p st)"
proof -
  have "blames (op_fault (x_mem x) op p) (rbind (load8 (x_mem x) p) (\<lambda>b. op_pick (ucast b) (p + 1) st))"
    if "op = DW_OP_pick"
  proof (rule blames_rbind [OF op_loads(1)])
    fix b assume b: "load8 (x_mem x) p = Ok b"
    show "blames (op_fault (x_mem x) op p) (op_pick (ucast b) (p + 1) st)"
    proof (cases "b = 0")
      case True
      then have "x_mem x p = Some 0" using b by (auto simp: load8_def split: option.splits)
      then show ?thesis using blames_pick_0 [OF that] True by simp
    next
      case False
      then have "(ucast b :: u64) \<noteq> 0" by transfer (simp add: take_bit_take_bit)
      then show ?thesis using blames_pick [OF assms] by blast
    qed
  qed
  moreover have "blames F (case PUSH v st of None \<Rightarrow> Ok None | Some st' \<Rightarrow> push_at p w st')" for F v w st
    by (simp split: option.splits)
  ultimately show ?thesis
    unfolding expr_op_def using assms
    by (auto intro!: blames_with_pop blames_skip blames_pick blames_const)
qed

text \<open>A fault of an expression is one of an operation that occurs in it.\<close>

definition expr_fault :: "kmem \<Rightarrow> addr \<Rightarrow> addr \<Rightarrow> fault \<Rightarrow> bool" where
  "expr_fault m p lim e \<longleftrightarrow>
     (\<exists>a op. p \<le> a \<and> a < lim \<and> m a = Some op \<and> op_fault m op (a + 1) e)"

lemma expr_fault_mono: "expr_fault m q lim e \<Longrightarrow> p \<le> q \<Longrightarrow> expr_fault m p lim e"
  unfolding expr_fault_def by (meson order_trans)

lemma blames_expr_loop:
  assumes "xmapped x p" "wf_xstack st" "unat (x_end x) - unat p \<le> fuel"
  shows "blames (expr_fault (x_mem x) p (x_end x)) (expr_loop fuel x p st)"
  using assms
proof (induction fuel arbitrary: p st)
  case 0
  then show ?case by (simp add: expr_loop.simps [of 0] word_less_nat_alt)
next
  case (Suc n)
  show ?case
  proof (cases "p < x_end x")
    case True
    note s = xmapped_step [OF Suc.prems(1) True]
    obtain op where op: "x_mem x p = Some op"
      using Suc.prems(1) True by (auto simp: xmapped_def mapped_def)
    have more: "blames (expr_fault (x_mem x) p (x_end x)) (expr_loop n x q st')"
      if "xkeeps x (p + 1) (Some (q, st'))" for q st'
    proof (cases "q < x_end x")
      case q: True
      have pq: "p \<le> q" using that s(2) by auto
      then have "xmapped x q"
        using Suc.prems(1) q mapped_sub [of "x_mem x" p "x_end x" q "x_end x"]
        by (auto simp: xmapped_def)
      moreover have "unat (x_end x) - unat q \<le> n"
        using that Suc.prems(3) unat_Suc_less [OF True] by (simp add: word_le_nat_alt) linarith
      ultimately show ?thesis
        using Suc.IH [of q st'] that expr_fault_mono [OF _ pq] by (auto simp: blames_def)
    next
      case False
      then show ?thesis by (simp add: expr_loop.simps [of n])
    qed
    have o1: "blames (expr_fault (x_mem x) p (x_end x)) (expr_op x op (p + 1) st)"
      using blames_expr_op [OF Suc.prems(2), of x op "p + 1"] True op
      by (auto simp: blames_def expr_fault_def)
    have "blames (expr_fault (x_mem x) p (x_end x)) (rbind (expr_op x op (p + 1) st) (\<lambda>r.
              case r of None \<Rightarrow> Ok None | Some (q, st') \<Rightarrow> expr_loop n x q st'))"
    proof (rule blames_rbind [OF o1])
      fix r assume "expr_op x op (p + 1) st = Ok r"
      from meets_OkD [OF meets_expr_operation [OF s(1) Suc.prems(2)] this]
      show "blames (expr_fault (x_mem x) p (x_end x))
          (case r of None \<Rightarrow> Ok None | Some (q, st') \<Rightarrow> expr_loop n x q st')"
        using more by (auto split: option.splits)
    qed
    then show ?thesis using True op by (simp add: expr_loop.simps [of "Suc n"] load8_def)
  next
    case False
    then show ?thesis by (simp add: expr_loop.simps [of "Suc n"])
  qed
qed
lemma compute_expr_faults:
  assumes "get_uleb128 m expr (- 1) = Ok (len, start)" "mapped m start (start + len)"
    "unat start + unat len + 1 < 2 ^ 64"
  shows "blames (expr_fault m start (start + len)) (compute_expr m ua expr frame user compat_task)"
proof -
  have u: "unat (start + len) = unat start + unat len"
    using unat_add_nowrap [of start "unat len"] assms(3) by simp
  let ?x = "\<lparr>x_mem = m, x_ua = ua, x_frame = frame, x_start = start, x_end = start + len,
                x_user = user, x_compat = compat_task\<rparr>"
  have x: "xmapped ?x start" using assms(2,3) u by (simp add: xmapped_def word_le_nat_alt)
  have "blames (expr_fault m start (start + len)) (expr_loop (unat len) ?x start empty_xstack)"
    using blames_expr_loop [OF x wf_empty_xstack, of "unat len"] u by simp
  moreover have "meets (pred_option wf_xstack) (expr_loop (unat len) ?x start empty_xstack)"
    using x u by (intro meets_expr_loop) simp_all
  ultimately show ?thesis
    by (auto simp: compute_expr_def assms(1) Let_def meets_def intro!: blames_rbind blames_POP
        split: option.splits)
qed

section \<open>Properties\<close>

text \<open>An expression that pushes a literal and then picks entry 0.\<close>

definition ex_expr_mem :: kmem where
  "ex_expr_mem = mem_of 0x1000 [3, 0x30, 0x15, 0]"

text \<open>
  C14. An expression, whatever its bytes are: when the bytes from \<open>start\<close> to its end are mapped and end
  below the top of the address space, the evaluator ends within as many operations as the expression
  has bytes and never loads directly from an unmapped address, whatever lies around the expression. The
  stack of eight slots is respected: an access outside the array or to an unassigned slot is only possible where the expression
  holds the bytes of \<open>DW_OP_pick 0\<close>, which reads \<open>stack[sp]\<close>. Every other fault is a fault of arithmetic:
  the division trap where \<open>DW_OP_div\<close> occurs, the unsequenced \<open>PUSH(POP)\<close> of \<open>DW_OP_not\<close>, \<open>DW_OP_neg\<close> and
  \<open>DW_OP_plus_uconst\<close>, and a shift by at least the width of the shifted type (\<open>DW_OP_shl\<close>, \<open>DW_OP_shr\<close>,
  \<open>DW_OP_shra\<close>, or an overlong LEB128 operand).
\<close>

theorem expression_safe:
  assumes "get_uleb128 m expr (- 1) = Ok (len, start)" "mapped m start (start + len)"
    "unat start + unat len + 1 < 2 ^ 64"
  shows "safe (compute_expr m ua expr frame user compat_task) \<and>
    (\<forall>e. compute_expr m ua expr frame user compat_task = Fault e \<longrightarrow>
       e = BadShift \<or>
       (\<exists>a. start \<le> a \<and> a < start + len \<and>
         (e = DivTrap \<and> m a = Some DW_OP_div \<or>
          e = Unseq \<and> m a \<in> {Some DW_OP_not, Some DW_OP_neg, Some DW_OP_plus_uconst} \<or>
          e \<in> {BadIndex, Uninit} \<and> m a = Some DW_OP_pick \<and> m (a + 1) = Some 0)))"
proof -
  let ?r = "compute_expr m ua expr frame user compat_task"
  have s: "safe ?r" using assms by (intro safe_compute_expr) (auto simp: expr_mapped_def)
  moreover have "expr_fault m start (start + len) e" if "?r = Fault e" for e
    using compute_expr_faults [OF assms, of ua frame user compat_task] that by (simp add: blames_def)
  then have "e = BadShift \<or> (\<exists>a. start \<le> a \<and> a < start + len \<and>
         (e = DivTrap \<and> m a = Some DW_OP_div \<or>
          e = Unseq \<and> m a \<in> {Some DW_OP_not, Some DW_OP_neg, Some DW_OP_plus_uconst} \<or>
          e \<in> {BadIndex, Uninit} \<and> m a = Some DW_OP_pick \<and> m (a + 1) = Some 0))" if "?r = Fault e" for e
    using s that by (cases e) (fastforce simp: expr_fault_def op_fault_def)+
  ultimately show ?thesis by blast
qed

theorem expression_safe_witness:
  "compute_expr ex_expr_mem \<lparr>access_ok = (\<lambda>_ _ _. False), get_user = (\<lambda>_ _. None)\<rparr> 0x1000
       \<lparr>regs = replicate 21 0, call_frame = False\<rparr> True False = Fault Uninit \<and>
   (\<exists>a. 0x1001 \<le> a \<and> a < 0x1004 \<and> ex_expr_mem a = Some DW_OP_pick \<and> ex_expr_mem (a + 1) = Some 0)"
proof -
  let ?ua = "\<lparr>access_ok = (\<lambda>_ _ _. False), get_user = (\<lambda>_ _. None)\<rparr> :: uaccess"
  let ?fr = "\<lparr>regs = replicate 21 0, call_frame = False\<rparr>"
  have l: "get_uleb128 ex_expr_mem 0x1000 (- 1) = Ok (3, 0x1001)"
    by (simp add: get_uleb128_def uleb_loop.simps low_overflows_def shl64_def ex_expr_mem_def mem_of_def load8_def)
  have m: "mapped ex_expr_mem 0x1001 (0x1001 + 3)"
    by (auto simp: mapped_def ex_expr_mem_def mem_of_def, unat_arith)
  have b: "ex_expr_mem 0x1001 = Some 0x30" "ex_expr_mem 0x1002 = Some 0x15" "ex_expr_mem 0x1003 = Some 0"
    by (simp_all add: ex_expr_mem_def mem_of_def)
  have r: "compute_expr ex_expr_mem ?ua 0x1000 ?fr True False = Fault Uninit"
    by (simp add: compute_expr_def l Let_def expr_loop.simps [of 3] expr_loop.simps [of 2] load8_def b
        expr_op_def op_const_def push_at_def PUSH_def empty_xstack_def MAX_EXPR_STACK_def DW_OP_defs
        needs1_def op_pick_def slot_get_def)
  show ?thesis using expression_safe [OF l m, of ?ua ?fr True False] r by simp
qed

end
