(* ===== verification/Expr_Spec.thy ===== *)
theory Expr_Spec
  imports Expr_Safety
begin

text \<open>
  What a DWARF expression means, for the arithmetic that compilers emit in call frame information:
  an expression tree over literals, constants, registers and binary operators, its value in a
  frame, and its encoding in reverse Polish notation. The evaluator computes the value.
\<close>

section \<open>Expression trees\<close>

datatype xbin =
    XPlus | XMinus | XMul | XAnd | XOr | XXor | XShl | XEq | XNe | XGe | XGt | XLe | XLt

datatype xexp = XLit nat | XConst nat | XReg nat int | XBin xbin xexp xexp

fun xbin_val :: "xbin \<Rightarrow> u64 \<Rightarrow> u64 \<Rightarrow> u64 option" where
  "xbin_val XPlus a b = Some (a + b)"
| "xbin_val XMinus a b = Some (a - b)"
| "xbin_val XMul a b = Some (a * b)"
| "xbin_val XAnd a b = Some (a AND b)"
| "xbin_val XOr a b = Some (a OR b)"
| "xbin_val XXor a b = Some (a XOR b)"
| "xbin_val XShl a b = (if b < 64 then Some (push_bit (unat b) a) else None)"
| "xbin_val XEq a b = Some (of_bool (a = b))"
| "xbin_val XNe a b = Some (of_bool (a \<noteq> b))"
| "xbin_val XGe a b = Some (of_bool (sint b \<le> sint a))"
| "xbin_val XGt a b = Some (of_bool (sint b < sint a))"
| "xbin_val XLe a b = Some (of_bool (sint a \<le> sint b))"
| "xbin_val XLt a b = Some (of_bool (sint a < sint b))"

fun xeval :: "unwind_frame_info \<Rightarrow> xexp \<Rightarrow> u64 option" where
  "xeval f (XLit n) = Some (of_nat n)"
| "xeval f (XConst n) = Some (of_nat n)"
| "xeval f (XReg r off) = Some (regs f ! slot (of_nat r) + of_int off)"
| "xeval f (XBin op a b) =
     (case xeval f a of None \<Rightarrow> None
      | Some u \<Rightarrow> (case xeval f b of None \<Rightarrow> None | Some v \<Rightarrow> xbin_val op u v))"

fun xbin_op :: "xbin \<Rightarrow> u8" where
  "xbin_op XPlus = DW_OP_plus" | "xbin_op XMinus = DW_OP_minus" | "xbin_op XMul = DW_OP_mul"
| "xbin_op XAnd = DW_OP_and" | "xbin_op XOr = DW_OP_or" | "xbin_op XXor = DW_OP_xor"
| "xbin_op XShl = DW_OP_shl" | "xbin_op XEq = DW_OP_eq" | "xbin_op XNe = DW_OP_ne"
| "xbin_op XGe = DW_OP_ge" | "xbin_op XGt = DW_OP_gt" | "xbin_op XLe = DW_OP_le"
| "xbin_op XLt = DW_OP_lt"

fun xcode :: "xexp \<Rightarrow> u8 list" where
  "xcode (XLit n) = [of_nat (0x30 + n)]"
| "xcode (XConst n) = DW_OP_constu # uleb_enc n"
| "xcode (XReg r off) = of_nat (0x70 + r) # sleb_enc off"
| "xcode (XBin op a b) = xcode a @ xcode b @ [xbin_op op]"

text \<open>Operands in range, the number of operations, and the slots the evaluation takes.\<close>

fun ok_xexp :: "xexp \<Rightarrow> bool" where
  "ok_xexp (XLit n) \<longleftrightarrow> n < 32"
| "ok_xexp (XConst n) \<longleftrightarrow> n < 2 ^ 64"
| "ok_xexp (XReg r off) \<longleftrightarrow> r < NREGS \<and> - (2 ^ 27) \<le> off \<and> off < 2 ^ 34"
| "ok_xexp (XBin op a b) \<longleftrightarrow> ok_xexp a \<and> ok_xexp b"

fun xops :: "xexp \<Rightarrow> nat" where
  "xops (XBin op a b) = xops a + xops b + 1"
| "xops _ = 1"

fun xdepth :: "xexp \<Rightarrow> nat" where
  "xdepth (XBin op a b) = max (xdepth a) (xdepth b + 1)"
| "xdepth _ = 1"

section \<open>The stack as a list\<close>

definition tops :: "xstack \<Rightarrow> u64 list" where
  "tops st = map the (take (sp st) (slots st))"

lemma length_tops: "wf_xstack st \<Longrightarrow> length (tops st) = sp st"
  by (simp add: tops_def wf_xstack_def)

lemma tops_empty [simp]: "tops empty_xstack = []"
  by (simp add: tops_def empty_xstack_def)

lemma PUSH_tops:
  assumes "wf_xstack st" "length (tops st) < MAX_EXPR_STACK"
  shows "\<exists>st'. PUSH v st = Some st' \<and> wf_xstack st' \<and> tops st' = tops st @ [v]"
proof -
  have s: "sp st < MAX_EXPR_STACK" "length (slots st) = MAX_EXPR_STACK"
    using assms length_tops by (auto simp: wf_xstack_def)
  then obtain st' where st': "PUSH v st = Some st'" by (simp add: PUSH_def)
  then have "tops st' = tops st @ [v]"
    using s by (auto simp: PUSH_def tops_def take_Suc_conv_app_nth)
  then show ?thesis using st' wf_PUSH [OF assms(1)] by blast
qed

lemma POP_tops:
  assumes "wf_xstack st" "tops st = vs @ [v]"
  shows "\<exists>st'. POP st = Ok (Some (v, st')) \<and> wf_xstack st' \<and> tops st' = vs"
proof -
  have s: "sp st = Suc (length vs)" "sp st \<le> length (slots st)"
    using assms length_tops [OF assms(1)] by (simp_all add: wf_xstack_def)
  have "tops st ! length vs = v" using assms(2) by simp
  then have v: "slots st ! length vs = Some v"
    using assms(1) s by (auto simp: tops_def wf_xstack_def)
  have "tops (st\<lparr>sp := length vs\<rparr>) = take (length vs) (tops st)"
    using s by (simp add: tops_def take_map)
  then have "tops (st\<lparr>sp := length vs\<rparr>) = vs" using assms(2) by simp
  moreover have "wf_xstack (st\<lparr>sp := length vs\<rparr>)" using assms(1) s by (simp add: wf_xstack_def)
  ultimately show ?thesis using s v by (simp add: POP_def slot_get_def)
qed

section \<open>Evaluation\<close>

definition xenc_at :: "expr_args \<Rightarrow> addr \<Rightarrow> u8 list \<Rightarrow> bool" where
  "xenc_at x p bs \<longleftrightarrow> bytes_at (x_mem x) p bs \<and> unat p + length bs \<le> unat (x_end x)"

lemma xenc_at_append:
  assumes "xenc_at x p (as @ bs)"
  shows "xenc_at x p as" "xenc_at x (p + of_nat (length as)) bs"
proof -
  have "unat p + length as < 2 ^ 64"
    using assms unat_u64_less [of "x_end x"] by (simp add: xenc_at_def)
  then have "unat (p + of_nat (length as)) = unat p + length as" by (rule unat_add_nowrap)
  then show "xenc_at x p as" "xenc_at x (p + of_nat (length as)) bs"
    using assms by (simp_all add: xenc_at_def bytes_at_append)
qed

lemma xenc_at_Cons:
  assumes "xenc_at x p (b # bs)"
  shows "x_mem x p = Some b" "xenc_at x (p + 1) bs" "p < x_end x"
proof -
  show p: "p < x_end x" using assms by (simp add: xenc_at_def word_less_nat_alt)
  show "x_mem x p = Some b" "xenc_at x (p + 1) bs"
    using assms unat_Suc_less [OF p] by (simp_all add: xenc_at_def)
qed

text \<open>\<open>xpushes\<close>: the loop runs the code at \<open>p\<close> in \<open>k\<close> steps and has pushed \<open>v\<close>.\<close>

definition xpushes :: "expr_args \<Rightarrow> addr \<Rightarrow> xstack \<Rightarrow> nat \<Rightarrow> nat \<Rightarrow> u64 list \<Rightarrow> bool" where
  "xpushes x p st k n vs \<longleftrightarrow>
     (\<exists>st'. wf_xstack st' \<and> tops st' = vs \<and>
        (\<forall>fuel. expr_loop (k + fuel) x p st = expr_loop fuel x (p + of_nat n) st'))"

lemma xpushes_step:
  assumes "xenc_at x p (b # bs)" "expr_op x b (p + 1) st = Ok (Some (p + of_nat (Suc (length bs)), st'))"
    "wf_xstack st'" "tops st' = vs"
  shows "xpushes x p st 1 (Suc (length bs)) vs"
  using assms(2-4) xenc_at_Cons [OF assms(1)]
  by (auto simp: xpushes_def expr_loop.simps [of "Suc _"] intro!: exI [of _ st'])

lemma xpushes_push:
  assumes "xenc_at x p (b # bs)" "wf_xstack st" "length (tops st) < MAX_EXPR_STACK"
    "expr_op x b (p + 1) st = push_at (p + 1 + of_nat (length bs)) v st"
  shows "xpushes x p st 1 (Suc (length bs)) (tops st @ [v])"
proof -
  obtain st' where st': "PUSH v st = Some st'" "wf_xstack st'" "tops st' = tops st @ [v]"
    using PUSH_tops [OF assms(2,3)] by blast
  then show ?thesis
    using assms(4) by (intro xpushes_step [OF assms(1)]) (auto simp: push_at_def algebra_simps)
qed


lemma u8_of_nat: "k < 256 \<Longrightarrow> unat (of_nat k :: u8) = k"
  by (simp add: unat_of_nat take_bit_nat_eq_self)

lemma expr_op_lit:
  assumes "n < 32"
  shows "expr_op x (of_nat (0x30 + n)) p st = push_at p (of_nat n) st"
proof -
  define op :: u8 where "op = of_nat (0x30 + n)"
  have u: "unat op = 48 + n" unfolding op_def using assms by (subst u8_of_nat) simp_all
  have ne: "op \<noteq> c" if "unat c < 48 \<or> 79 < unat c" for c using that u assms by auto
  have "(ucast op :: u64) = of_nat (48 + n)" using u by (metis of_nat_unat)
  moreover have "DW_OP_lit0 \<le> op \<and> op \<le> DW_OP_lit31"
    using u assms by (simp add: DW_OP_defs word_le_nat_alt)
  ultimately have "expr_op x op p st = push_at p (of_nat n) st"
    unfolding expr_op_def op_const_def by (simp add: ne DW_OP_defs)
  then show ?thesis by (simp only: op_def)
qed

lemma expr_op_breg:
  assumes "r < NREGS"
  shows "expr_op x (of_nat (0x70 + r)) p st = op_breg x (of_nat r) p st"
proof -
  define op :: u8 where "op = of_nat (0x70 + r)"
  have u: "unat op = 112 + r" unfolding op_def using assms by (subst u8_of_nat) simp_all
  have ne: "op \<noteq> c" if "unat c < 112 \<or> 143 < unat c" for c using that u assms by auto
  have "(ucast op :: u64) = of_nat (112 + r)" using u by (metis of_nat_unat)
  moreover have "DW_OP_breg0 \<le> op \<and> op \<le> DW_OP_breg31" "\<not> op \<le> DW_OP_lit31"
    using u assms by (simp_all add: DW_OP_defs word_le_nat_alt)
  ultimately have "expr_op x op p st = op_breg x (of_nat r) p st"
    unfolding expr_op_def op_const_def op_unary_def by (simp add: ne DW_OP_defs)
  then show ?thesis by (simp only: op_def)
qed

lemma xpushes_leaf:
  assumes "wf_xstack st" "length (tops st) < MAX_EXPR_STACK" "\<not> x_compat x"
    "xenc_at x p (xcode e)" "ok_xexp e" "e = XLit n \<or> e = XConst n \<or> e = XReg n off"
    "xeval (x_frame x) e = Some v"
  shows "xpushes x p st 1 (length (xcode e)) (tops st @ [v])"
  using assms(6)
proof (elim disjE)
  assume e: "e = XLit n"
  then show ?thesis
    using xpushes_push [OF _ assms(1,2), where bs = "[]"] assms(4,5,7) expr_op_lit [of n x "p + 1" st]
    by (simp del: of_nat_add)
next
  assume e: "e = XConst n"
  have "get_uleb128 (x_mem x) (p + 1) (x_end x) = Ok (of_nat n, p + 1 + of_nat (length (uleb_enc n)))"
    using uleb_loop_enc [of "x_mem x" "p + 1" n "x_end x" 0 0] xenc_at_Cons(2) [of x p _ "uleb_enc n"]
      assms(4,5) e by (simp add: get_uleb128_def xenc_at_def)
  then have "expr_op x DW_OP_constu (p + 1) st = push_at (p + 1 + of_nat (length (uleb_enc n))) (of_nat n) st"
    by (simp add: expr_op_def op_const_def DW_OP_defs)
  then show ?thesis using xpushes_push [OF _ assms(1,2)] assms(4,7) e by simp
next
  assume e: "e = XReg n off"
  have n: "n < NREGS" "unat (of_nat n :: u64) = n" using assms(5) e by (simp_all add: unat_of_nat take_bit_nat_eq_self)
  have "get_sleb128 (x_mem x) (p + 1) (x_end x) = Ok (of_int off, p + 1 + of_nat (length (sleb_enc off)))"
    using sleb_loop_enc [of "x_mem x" "p + 1" off "x_end x" 0 0] xenc_at_Cons(2) [of x p _ "sleb_enc off"]
      assms(4,5) e by (simp add: get_sleb128_def xenc_at_def sleb_lost_def)
  then have "op_breg x (of_nat n) (p + 1) st = push_at (p + 1 + of_nat (length (sleb_enc off))) v st"
    using assms(3,7) n e frame_get_8 [of "of_nat n" "x_frame x"]
    by (simp add: op_breg_def map_reg_def DWARF_REG_MAP_def)
  then show ?thesis
    using xpushes_push [OF _ assms(1,2)] assms(4) e expr_op_breg [OF n(1), of x "p + 1" st]
    by (simp del: of_nat_add)
qed

lemma expr_op_xbin: "expr_op x (xbin_op op) p st = op_arith (xbin_op op) p st"
  by (cases op) (simp_all add: expr_op_def op_const_def op_unary_def DW_OP_defs)

lemma binop_xbin:
  "xbin_val op a b = Some v \<Longrightarrow> binop (xbin_op op) a b = Some (Ok v)" "binop (xbin_op op) 0 0 \<noteq> None"
  "\<not> (xbin_op op = DW_OP_mod \<or> xbin_op op = DW_OP_div \<or> xbin_op op = DW_OP_shr)"
  by (cases op; auto simp: binop_def DW_OP_defs bool_val_def shl64_def split: if_splits)+

lemma xpushes_bin:
  assumes "xenc_at x p [xbin_op op]" "wf_xstack st" "tops st = vs @ [a, b]" "xbin_val op a b = Some v"
  shows "xpushes x p st 1 1 (vs @ [v])"
proof -
  obtain st1 where 1: "POP st = Ok (Some (b, st1))" "wf_xstack st1" "tops st1 = vs @ [a]"
    using POP_tops [OF assms(2), of "vs @ [a]" b] assms(3) by auto
  obtain st2 where 2: "POP st1 = Ok (Some (a, st2))" "wf_xstack st2" "tops st2 = vs"
    using POP_tops [OF 1(2,3)] by auto
  have "length (tops st) \<le> MAX_EXPR_STACK" using length_tops [OF assms(2)] assms(2) by (simp add: wf_xstack_def)
  then obtain st3 where 3: "PUSH v st2 = Some st3" "wf_xstack st3" "tops st3 = vs @ [v]"
    using PUSH_tops [OF 2(2)] assms(3) 2(3) by auto
  have "expr_op x (xbin_op op) (p + 1) st = Ok (Some (p + 1, st3))"
    using 1 2 3 assms(4) binop_xbin
    by (simp add: expr_op_xbin op_arith_def with_pop_def push_at_def)
  then show ?thesis using xpushes_step [OF assms(1), of st st3] 3 by simp
qed

lemma xpushes_trans:
  assumes "xpushes x p st k n vs"
    "\<And>st'. wf_xstack st' \<Longrightarrow> tops st' = vs \<Longrightarrow> xpushes x (p + of_nat n) st' k' n' vs'"
  shows "xpushes x p st (k + k') (n + n') vs'"
proof -
  obtain st1 where 1: "wf_xstack st1" "tops st1 = vs"
    "\<And>fuel. expr_loop (k + fuel) x p st = expr_loop fuel x (p + of_nat n) st1"
    using assms(1) by (auto simp: xpushes_def)
  obtain st2 where 2: "wf_xstack st2" "tops st2 = vs'"
    "\<And>fuel. expr_loop (k' + fuel) x (p + of_nat n) st1 = expr_loop fuel x (p + of_nat n + of_nat n') st2"
    using assms(2) [OF 1(1,2)] by (auto simp: xpushes_def)
  show ?thesis
    unfolding xpushes_def using 1(3) 2 by (intro exI [of _ st2]) (simp add: add.assoc)
qed

lemma xpushes_xexp:
  assumes "\<not> x_compat x"
  shows "wf_xstack st \<Longrightarrow> length (tops st) + xdepth e \<le> MAX_EXPR_STACK \<Longrightarrow> xenc_at x p (xcode e) \<Longrightarrow>
    ok_xexp e \<Longrightarrow> xeval (x_frame x) e = Some v \<Longrightarrow>
    xpushes x p st (xops e) (length (xcode e)) (tops st @ [v])"
proof (induction e arbitrary: p st v)
  case (XBin op a b)
  obtain u w where uw: "xeval (x_frame x) a = Some u" "xeval (x_frame x) b = Some w" "xbin_val op u w = Some v"
    using XBin.prems(5) by (auto split: option.splits)
  have ea: "xenc_at x p (xcode a)" and e2: "xenc_at x (p + of_nat (length (xcode a))) (xcode b @ [xbin_op op])"
    using xenc_at_append [of x p "xcode a"] XBin.prems(3) by simp_all
  note eb = xenc_at_append [OF e2]
  have "xpushes x (p + of_nat (length (xcode a))) s (xops b + 1) (length (xcode b) + 1) (tops st @ [v])"
    if s: "wf_xstack s" "tops s = tops st @ [u]" for s
  proof (rule xpushes_trans)
    show "xpushes x (p + of_nat (length (xcode a))) s (xops b) (length (xcode b)) (tops s @ [w])"
      using XBin.IH(2) [OF s(1) _ eb(1) _ uw(2)] XBin.prems(2,4) s(2) by simp
  qed (rule xpushes_bin [OF eb(2) _ _ uw(3)], use s(2) in simp_all)
  then have "xpushes x p st (xops a + (xops b + 1)) (length (xcode a) + (length (xcode b) + 1)) (tops st @ [v])"
    using XBin.IH(1) [OF XBin.prems(1) _ ea _ uw(1)] XBin.prems(2,4)
    by (intro xpushes_trans [of x p st "xops a" "length (xcode a)" "tops st @ [u]"]) auto
  then show ?case by simp
next
  case (XLit n)
  then show ?case
    using xpushes_leaf [OF XLit.prems(1) _ assms XLit.prems(3,4) _ XLit.prems(5)]
    by (simp del: xcode.simps)
next
  case (XConst n)
  then show ?case
    using xpushes_leaf [OF XConst.prems(1) _ assms XConst.prems(3,4) _ XConst.prems(5)]
    by (simp del: xcode.simps)
next
  case (XReg n off)
  then show ?case
    using xpushes_leaf [OF XReg.prems(1) _ assms XReg.prems(3,4) _ XReg.prems(5)]
    by (simp del: xcode.simps)
qed

lemma xops_le: "xops e \<le> length (xcode e)"
  by (induction e) auto

lemma compute_expr_enc:
  assumes "bytes_at m expr (uleb_enc (length (xcode e)) @ xcode e)"
    "unat expr + length (uleb_enc (length (xcode e))) + length (xcode e) < 2 ^ 64 - 1"
    "ok_xexp e" "xdepth e \<le> MAX_EXPR_STACK" "xeval frame e = Some v"
  shows "compute_expr m ua expr frame user False = Ok (Some v)"
proof -
  define n k where "n = length (xcode e)" and "k = length (uleb_enc n)"
  let ?start = "expr + of_nat k"
  let ?x = "\<lparr>x_mem = m, x_ua = ua, x_frame = frame, x_start = ?start, x_end = ?start + of_nat n,
                x_user = user, x_compat = False\<rparr>"
  have b: "unat expr + k + n < 2 ^ 64 - 1" using assms(2) by (simp add: n_def k_def)
  have u: "unat ?start = unat expr + k" using b by (intro unat_add_nowrap) linarith
  have u2: "unat (?start + of_nat n) = unat expr + k + n"
    using b u unat_add_nowrap [of ?start n] by linarith
  have n64: "n < 2 ^ 64" "unat (of_nat n :: u64) = n"
    using b by (simp_all add: unat_of_nat take_bit_nat_eq_self)
  have bt: "bytes_at m expr (uleb_enc n)" "bytes_at m ?start (xcode e)"
    using assms(1) by (simp_all add: bytes_at_append n_def k_def)
  have "unat (- 1 :: u64) = 2 ^ 64 - 1" by (simp add: unsigned_minus_1_eq_mask mask_eq_exp_minus_1)
  then have len: "get_uleb128 m expr (- 1) = Ok (of_nat n, ?start)"
    using uleb_loop_enc [of m expr n "- 1" 0 0] bt(1) b n64(1)
    by (simp add: get_uleb128_def k_def)
  have "xenc_at ?x ?start (xcode e)" using bt(2) u u2 by (simp add: xenc_at_def n_def)
  then have "xpushes ?x ?start empty_xstack (xops e) n [v]"
    using xpushes_xexp [of ?x empty_xstack e ?start v] assms(3-5) by (simp add: n_def)
  then obtain st where st: "wf_xstack st" "tops st = [v]"
    "\<And>fuel. expr_loop (xops e + fuel) ?x ?start empty_xstack = expr_loop fuel ?x (?start + of_nat n) st"
    by (auto simp: xpushes_def)
  obtain d where d: "n = xops e + d" using xops_le [of e] by (auto simp: n_def le_iff_add)
  have "expr_loop n ?x ?start empty_xstack = Ok (Some st)"
    using st(3) [of d] by (simp add: expr_loop.simps [of d] flip: d)
  moreover obtain st' where "POP st = Ok (Some (v, st'))"
    using POP_tops [OF st(1), of "[]" v] st(2) by auto
  ultimately show ?thesis by (simp add: compute_expr_def len Let_def n64(2))
qed

section \<open>Properties\<close>

text \<open>The CFA of a PLT entry: \<open>rsp + 8 + (((rip & 15) >= 11) << 3)\<close>.\<close>

definition plt_cfa :: xexp where
  "plt_cfa = XBin XPlus (XReg 7 8) (XBin XShl (XBin XGe (XBin XAnd (XReg 16 0) (XLit 15)) (XLit 11)) (XLit 3))"

text \<open>Arguments and stacks for the witnesses.\<close>

definition ex_xargs :: expr_args where
  "ex_xargs = \<lparr>x_mem = mem_of 0x1000 [0x28, 0x35, 0x36],
     x_ua = \<lparr>access_ok = (\<lambda>_ _ _. False), get_user = (\<lambda>_ _. None)\<rparr>,
     x_frame = \<lparr>regs = replicate 21 0, call_frame = False\<rparr>, x_start = 0x1000, x_end = 0x1003,
     x_user = True, x_compat = False\<rparr>"

definition ex_xstack :: "u64 list \<Rightarrow> xstack" where
  "ex_xstack vs = \<lparr>slots = map Some vs @ replicate (MAX_EXPR_STACK - length vs) None, sp = length vs\<rparr>"

lemma ex_xstack: "length vs \<le> MAX_EXPR_STACK \<Longrightarrow> wf_xstack (ex_xstack vs) \<and> tops (ex_xstack vs) = vs"
  by (auto simp: ex_xstack_def wf_xstack_def tops_def nth_append comp_def)

text \<open>
  C6. Expressions are evaluated: \<open>compute_expr\<close> on the encoding of an expression tree over literals,
  constants, registers and binary operators, whose evaluation fits the stack, returns the value of
  the tree in the frame.
\<close>

theorem expression_value:
  assumes "bytes_at m expr (uleb_enc (length (xcode e)) @ xcode e)"
    "unat expr + length (uleb_enc (length (xcode e))) + length (xcode e) < 2 ^ 64 - 1"
    "ok_xexp e" "xdepth e \<le> MAX_EXPR_STACK" "xeval frame e = Some v"
  shows "compute_expr m ua expr frame user False = Ok (Some v)"
  using assms by (rule compute_expr_enc)

theorem expression_value_witness:
  "compute_expr (mem_of 0x1000 [11, 0x77, 8, 0x80, 0, 0x3f, 0x1a, 0x3b, 0x2a, 0x33, 0x24, 0x22])
     \<lparr>access_ok = (\<lambda>_ _ _. False), get_user = (\<lambda>_ _. None)\<rparr> 0x1000
     \<lparr>regs = (replicate 21 0)[PT_ip := 0x40101b, PT_sp := 0x7ffe0000], call_frame = False\<rparr> True False =
   Ok (Some 0x7ffe0010)"
proof -
  have c: "xcode plt_cfa = [0x77, 8, 0x80, 0, 0x3f, 0x1a, 0x3b, 0x2a, 0x33, 0x24, 0x22]"
    by (simp add: plt_cfa_def sleb_enc.simps DW_OP_defs)
  have v: "xeval \<lparr>regs = (replicate 21 0)[PT_ip := 0x40101b, PT_sp := 0x7ffe0000], call_frame = False\<rparr> plt_cfa =
    Some 0x7ffe0010"
    by (simp add: plt_cfa_def slot_def reg_info_def)
  have "ok_xexp plt_cfa" "xdepth plt_cfa \<le> MAX_EXPR_STACK"
    by (simp_all add: plt_cfa_def MAX_EXPR_STACK_def)
  then show ?thesis
    by (intro expression_value [OF _ _ _ _ v]) (simp_all add: c uleb_enc.simps mem_of_def)
qed

text \<open>
  A branch that is not taken does not step over its operand: with 0 on top of the stack \<open>DW_OP_bra\<close>
  goes on at the two bytes of its own offset, which are then executed as operations.
\<close>

lemma bra_runs_its_operand:
  assumes "wf_xstack st" "tops st = vs @ [0]"
  shows "\<exists>st'. expr_op x DW_OP_bra p st = Ok (Some (p, st')) \<and> tops st' = vs"
  using POP_tops [OF assms] by (auto simp: expr_op_def with_pop_def DW_OP_defs)

text \<open>
  \<open>DW_OP_over\<close> copies the wrong element: its index is taken from the number of elements and not from
  the top one, so that it pushes the top of the stack, as \<open>DW_OP_dup\<close> does, and not the element below.
\<close>

lemma over_copies_the_top:
  assumes "wf_xstack st" "tops st = vs @ [a, b]" "length vs + 2 < MAX_EXPR_STACK"
  shows "\<exists>st'. expr_op x DW_OP_over p st = Ok (Some (p, st')) \<and> tops st' = vs @ [a, b, b]"
proof -
  have s: "sp st = Suc (Suc (length vs))" "sp st \<le> length (slots st)"
    using assms length_tops [OF assms(1)] by (simp_all add: wf_xstack_def)
  have "tops st ! (sp st - 1) = b" using assms(2) s(1) by (simp add: nth_append)
  then have "slot_get st (sp st - 1) = Ok b"
    using assms(1) s by (auto simp: tops_def wf_xstack_def slot_get_def split: option.splits)
  moreover obtain st' where "PUSH b st = Some st'" "tops st' = tops st @ [b]"
    using PUSH_tops [OF assms(1), of b] assms(2,3) by auto
  ultimately show ?thesis
    using s(1) assms(2) by (simp add: expr_op_def op_pick_def push_at_def DW_OP_defs)
qed

end
