(* ===== verification/Hash_Table.thy ===== *)
theory Hash_Table
  imports Prelude
begin

text \<open>
  The kernel hash tables the program keeps its unwind cache and its process registry in, and the
  contract both give their clients. A table declared with \<open>b\<close> bits is an array of \<open>2 ^ b\<close> chains;
  \<open>hash_add_rcu\<close> puts an entry at the head of its chain, \<open>hash_for_each_possible_rcu\<close> walks one
  chain and \<open>hash_del_rcu\<close> unlinks an entry. The kernel's hash function, with the reduction to \<open>b\<close>
  bits, is a parameter: a function from keys to \<open>b\<close>-bit words.
\<close>

section \<open>Chained tables\<close>

type_synonym 'v chains = "'v list list"

definition ht_empty :: "'b::len itself \<Rightarrow> 'v chains" where
  "ht_empty _ = replicate (2 ^ LENGTH('b)) []"

definition ht_find :: "('k \<Rightarrow> 'b::len word) \<Rightarrow> ('v \<Rightarrow> 'k) \<Rightarrow> 'v chains \<Rightarrow> 'k \<Rightarrow> 'v option" where
  "ht_find h key t k = find (\<lambda>v. key v = k) (t ! unat (h k))"

definition ht_add :: "('k \<Rightarrow> 'b::len word) \<Rightarrow> ('v \<Rightarrow> 'k) \<Rightarrow> 'v \<Rightarrow> 'v chains \<Rightarrow> 'v chains" where
  "ht_add h key v t = (let b = unat (h (key v)) in t[b := v # t ! b])"

fun unlink_first :: "('v \<Rightarrow> bool) \<Rightarrow> 'v list \<Rightarrow> 'v list" where
  "unlink_first P [] = []"
| "unlink_first P (v # vs) = (if P v then vs else v # unlink_first P vs)"

definition ht_del :: "('k \<Rightarrow> 'b::len word) \<Rightarrow> ('v \<Rightarrow> 'k) \<Rightarrow> 'k \<Rightarrow> 'v chains \<Rightarrow> 'v chains" where
  "ht_del h key k t = (let b = unat (h k) in t[b := unlink_first (\<lambda>v. key v = k) (t ! b)])"

text \<open>Every entry is in the chain of its key, and no key occurs twice.\<close>

definition ht_wf :: "('k \<Rightarrow> 'b::len word) \<Rightarrow> ('v \<Rightarrow> 'k) \<Rightarrow> 'v chains \<Rightarrow> bool" where
  "ht_wf h key t \<longleftrightarrow>
     length t = 2 ^ LENGTH('b) \<and>
     (\<forall>b < length t. distinct (map key (t ! b)) \<and> (\<forall>v \<in> set (t ! b). unat (h (key v)) = b))"

lemma unat_bucket: "unat (w :: 'b::len word) < 2 ^ LENGTH('b)"
  by (rule unsigned_less)

lemma ht_wf_empty: "ht_wf h key (ht_empty TYPE('b))" for h :: "'k \<Rightarrow> 'b::len word"
  by (simp add: ht_wf_def ht_empty_def)

lemma ht_find_empty: "ht_find h key (ht_empty TYPE('b)) k = None" for h :: "'k \<Rightarrow> 'b::len word"
  using unat_bucket [of "h k"] by (simp add: ht_find_def ht_empty_def)

lemma find_None_keys: "find (\<lambda>v. key v = k) vs = None \<longleftrightarrow> k \<notin> key ` set vs"
  by (auto simp: find_None_iff)

lemma ht_find_key: "ht_find h key t k = Some v \<Longrightarrow> key v = k"
  by (auto simp: ht_find_def find_Some_iff)

lemma ht_wf_add:
  assumes "ht_wf h key t" "ht_find h key t (key v) = None"
  shows "ht_wf h key (ht_add h key v t)"
  using assms unat_bucket [of "h (key v)"]
  by (auto simp: ht_wf_def ht_add_def Let_def nth_list_update ht_find_def find_None_keys)

lemma ht_find_add:
  assumes "ht_wf h key t"
  shows "ht_find h key (ht_add h key v t) k = (if k = key v then Some v else ht_find h key t k)"
  using assms unat_bucket [of "h (key v)"]
  by (auto simp: ht_wf_def ht_find_def ht_add_def Let_def nth_list_update)

lemma set_unlink_first: "set (unlink_first P vs) \<subseteq> set vs"
  by (induction vs) auto

lemma distinct_unlink_first:
  "distinct (map key vs) \<Longrightarrow> distinct (map key (unlink_first P vs))"
proof (induction vs)
  case (Cons v vs)
  then show ?case using set_unlink_first [of P vs] by auto
qed simp

lemma find_unlink_first:
  "distinct (map key vs) \<Longrightarrow>
   find (\<lambda>v. key v = j) (unlink_first (\<lambda>v. key v = k) vs) =
     (if j = k then None else find (\<lambda>v. key v = j) vs)"
  by (induction vs) (auto simp: find_None_keys)

lemma ht_wf_del:
  assumes "ht_wf h key t"
  shows "ht_wf h key (ht_del h key k t)"
proof -
  let ?P = "\<lambda>v. key v = k"
  have "set (unlink_first ?P (t ! b)) \<subseteq> set (t ! b)"
    "distinct (map key (t ! b)) \<Longrightarrow> distinct (map key (unlink_first ?P (t ! b)))" for b
    by (rule set_unlink_first, rule distinct_unlink_first)
  then show ?thesis
    using assms by (simp add: ht_wf_def ht_del_def Let_def nth_list_update subset_iff)
qed

lemma ht_find_del:
  assumes "ht_wf h key t"
  shows "ht_find h key (ht_del h key k t) j = (if j = k then None else ht_find h key t j)"
  using assms unat_bucket [of "h k"] find_unlink_first [of key "t ! unat (h k)"]
  by (auto simp: ht_wf_def ht_find_def ht_del_def Let_def nth_list_update)

lemmas ht_laws = ht_wf_empty ht_find_empty ht_wf_add ht_find_add ht_wf_del ht_find_del

section \<open>The contract of a registry\<close>

text \<open>
  A registry finds the entry of a key; adding an entry keeps one that is there already; deleting
  forgets a key. This is what the unwinder relies on in its cache, and the device in its table of
  processes.
\<close>

locale registry =
  fixes inv :: "'s \<Rightarrow> bool"
    and lookup :: "'s \<Rightarrow> 'k \<Rightarrow> 'v option"
    and key :: "'v \<Rightarrow> 'k"
    and emp :: 's
    and add :: "'v \<Rightarrow> 's \<Rightarrow> 's"
    and del :: "'k \<Rightarrow> 's \<Rightarrow> 's"
  assumes inv_emp: "inv emp"
    and lookup_emp: "lookup emp k = None"
    and inv_add: "inv s \<Longrightarrow> inv (add v s)"
    and lookup_add: "inv s \<Longrightarrow> lookup (add v s) k =
      (if k = key v \<and> lookup s k = None then Some v else lookup s k)"
    and inv_del: "inv s \<Longrightarrow> inv (del k s)"
    and lookup_del: "inv s \<Longrightarrow> lookup (del k s) j = (if j = k then None else lookup s j)"
    and lookup_key: "lookup s k = Some v \<Longrightarrow> key v = k"
begin

lemma add_twice: "inv s \<Longrightarrow> lookup (add v (add v s)) = lookup (add v s)"
  by (rule ext) (auto simp: lookup_add inv_add)

lemma del_add: "inv s \<Longrightarrow> lookup s (key v) = None \<Longrightarrow> lookup (del (key v) (add v s)) = lookup s"
  by (rule ext) (simp add: lookup_add lookup_del inv_add)

lemma inv_fold_add: "inv s \<Longrightarrow> inv (fold add vs s)"
  by (induction vs arbitrary: s) (simp_all add: inv_add)

text \<open>Of the entries added for a key the first is kept.\<close>

lemma lookup_fold_add:
  "inv s \<Longrightarrow> lookup (fold add vs s) k =
     (case lookup s k of Some v \<Rightarrow> Some v | None \<Rightarrow> find (\<lambda>v. key v = k) vs)"
proof (induction vs arbitrary: s)
  case Nil
  then show ?case by (cases "lookup s k") simp_all
next
  case (Cons v vs)
  then show ?case by (cases "lookup s k") (auto simp: lookup_add inv_add)
qed

lemma lookup_mono: "inv s \<Longrightarrow> lookup s k = Some v \<Longrightarrow> lookup (add w s) k = Some v"
  by (simp add: lookup_add)

end

text \<open>A registry that can be emptied.\<close>

locale clearable_registry = registry +
  fixes clear :: "'a \<Rightarrow> 'a"
  assumes inv_clear: "inv s \<Longrightarrow> inv (clear s)"
    and lookup_clear: "inv s \<Longrightarrow> lookup (clear s) k = None"
begin

lemma lookup_clear_fold_add:
  "inv s \<Longrightarrow> lookup (fold add vs (clear s)) k = find (\<lambda>v. key v = k) vs"
  by (simp add: lookup_fold_add inv_clear lookup_clear)

end

end
