(* ===== verification/Unw_Cache.thy ===== *)
theory Unw_Cache
  imports Hash_Table Unwind_Types
begin

text \<open>
  The cache of frame descriptions of \<^verbatim>\<open>src/modules.c\<close>: a hash table of \<open>tdep_frame\<close>s by program
  counter, with \<open>unw_cache_find_entry\<close>, \<open>unw_cache_add_entry\<close>, \<open>unw_cache_del_entry\<close> and
  \<open>unw_cache_clear\<close>. The hash of a key, \<open>jhash\<close> reduced to \<open>UNW_CACHE_BITS\<close> bits, is the parameter \<open>h\<close>.
  Deferred freeing by RCU keeps a removed entry readable and does not change what is found.
\<close>

section \<open>Operations\<close>

type_synonym unw_hash = "u64 \<Rightarrow> 10 word"
type_synonym unw_cache = "tdep_frame chains"

definition unw_cache_init :: unw_cache where
  "unw_cache_init = ht_empty TYPE(10)"

definition unw_cache_find_entry :: "unw_hash \<Rightarrow> unw_cache \<Rightarrow> u64 \<Rightarrow> tdep_frame option" where
  "unw_cache_find_entry h c pc = find (\<lambda>e. pc = tpc e) (c ! unat (h pc))"

text \<open>\<open>alloc_ok\<close>: \<open>kzalloc\<close> has returned memory; without it nothing is added.\<close>

definition unw_cache_add_entry :: "unw_hash \<Rightarrow> bool \<Rightarrow> tdep_frame \<Rightarrow> unw_cache \<Rightarrow> unw_cache" where
  "unw_cache_add_entry h alloc_ok frame c =
     (case unw_cache_find_entry h c (tpc frame) of
        Some _ \<Rightarrow> c
      | None \<Rightarrow> if alloc_ok then ht_add h tpc frame c else c)"

definition unw_cache_del_entry :: "unw_hash \<Rightarrow> u64 \<Rightarrow> unw_cache \<Rightarrow> unw_cache" where
  "unw_cache_del_entry h pc c =
     (case unw_cache_find_entry h c pc of None \<Rightarrow> c | Some _ \<Rightarrow> ht_del h tpc pc c)"

text \<open>\<open>hash_for_each_rcu\<close> visits every entry of every chain and unlinks it.\<close>

fun unlink_all :: "'v list \<Rightarrow> 'v list" where
  "unlink_all [] = []"
| "unlink_all (v # vs) = unlink_all vs"

definition unw_cache_clear :: "unw_cache \<Rightarrow> unw_cache" where
  "unw_cache_clear c = map unlink_all c"

text \<open>The self test that a debug build runs on a new cache; \<open>ok i\<close>: the \<open>i\<close>-th allocation succeeds.\<close>

definition unw_cache_test_frame :: tdep_frame where
  "unw_cache_test_frame = \<lparr>tpc = 0x1234, tcfa = zero_tdep_item, trbp = zero_tdep_item,
     trsp = zero_tdep_item, tlast = False\<rparr>"

definition unw_cache_test :: "unw_hash \<Rightarrow> (nat \<Rightarrow> bool) \<Rightarrow> unw_cache \<Rightarrow> unw_cache" where
  "unw_cache_test h ok c =
     (let c = unw_cache_add_entry h (ok 0) unw_cache_test_frame c;
          c = unw_cache_clear c;
          c = unw_cache_add_entry h (ok 1) unw_cache_test_frame c;
          c = unw_cache_add_entry h (ok 2) unw_cache_test_frame c
      in unw_cache_del_entry h (tpc unw_cache_test_frame) c)"

section \<open>The cache is a registry\<close>

lemma find_entry_ht: "unw_cache_find_entry h c pc = ht_find h tpc c pc"
  by (simp add: unw_cache_find_entry_def ht_find_def eq_commute)

lemma find_entry_key: "unw_cache_find_entry h c pc = Some f \<Longrightarrow> tpc f = pc"
  unfolding find_entry_ht by (rule ht_find_key)

lemma unlink_all_Nil [simp]: "unlink_all vs = []"
  by (induction vs) simp_all

lemma add_entry_wf: "ht_wf h tpc c \<Longrightarrow> ht_wf h tpc (unw_cache_add_entry h ok f c)"
  by (auto simp: unw_cache_add_entry_def find_entry_ht ht_wf_add split: option.splits)

lemma find_add_entry:
  "ht_wf h tpc c \<Longrightarrow> unw_cache_find_entry h (unw_cache_add_entry h ok f c) pc =
     (if ok \<and> pc = tpc f \<and> unw_cache_find_entry h c pc = None then Some f
      else unw_cache_find_entry h c pc)"
  by (auto simp: unw_cache_add_entry_def find_entry_ht ht_find_add split: option.splits)

lemma del_entry_wf: "ht_wf h tpc c \<Longrightarrow> ht_wf h tpc (unw_cache_del_entry h pc c)"
  by (auto simp: unw_cache_del_entry_def ht_wf_del split: option.splits)

lemma find_del_entry:
  "ht_wf h tpc c \<Longrightarrow> unw_cache_find_entry h (unw_cache_del_entry h pc c) q =
     (if q = pc then None else unw_cache_find_entry h c q)"
  by (auto simp: unw_cache_del_entry_def find_entry_ht ht_find_del split: option.splits)

lemma clear_wf: "ht_wf h tpc c \<Longrightarrow> ht_wf h tpc (unw_cache_clear c)"
  by (simp add: ht_wf_def unw_cache_clear_def)

lemma find_clear: "ht_wf h tpc c \<Longrightarrow> unw_cache_find_entry h (unw_cache_clear c) pc = None"
  using unat_bucket [of "h pc"] by (simp add: ht_wf_def unw_cache_find_entry_def unw_cache_clear_def)

interpretation uc: clearable_registry "ht_wf h tpc" "unw_cache_find_entry h" tpc unw_cache_init
  "unw_cache_add_entry h True" "unw_cache_del_entry h" unw_cache_clear
  for h :: unw_hash
proof
  show "ht_wf h tpc unw_cache_init" "unw_cache_find_entry h unw_cache_init k = None" for k
    by (simp_all add: unw_cache_init_def find_entry_ht ht_wf_empty ht_find_empty)
qed (auto simp: add_entry_wf find_add_entry del_entry_wf find_del_entry clear_wf find_clear
    dest: find_entry_key)

section \<open>Clearing\<close>

text \<open>
  Clearing the cache and deleting an entry: after \<open>unw_cache_clear\<close> nothing is found until it is added
  again, and a deleted program counter is not found while the others are as before; so the self test
  of the cache leaves it empty.
\<close>

lemma cache_clear_and_delete:
  assumes "ht_wf h tpc c"
  shows "unw_cache_find_entry h (fold (unw_cache_add_entry h True) fs (unw_cache_clear c)) pc = find (\<lambda>f. tpc f = pc) fs \<and>
    unw_cache_find_entry h (unw_cache_del_entry h d c) pc = (if pc = d then None else unw_cache_find_entry h c pc) \<and>
    unw_cache_find_entry h (unw_cache_test h ok c) pc = None"
proof -
  let ?f = "unw_cache_test_frame"
  have wf: "ht_wf h tpc (unw_cache_clear (unw_cache_add_entry h (ok 0) ?f c))"
    by (rule uc.inv_clear [OF add_entry_wf [OF assms]])
  have "unw_cache_find_entry h (unw_cache_test h ok c) pc = None"
    unfolding unw_cache_test_def Let_def
    using uc.lookup_del [OF add_entry_wf [OF add_entry_wf [OF wf]]] find_add_entry [OF add_entry_wf [OF wf]]
      find_add_entry [OF wf] uc.lookup_clear [OF add_entry_wf [OF assms]] by simp
  then show ?thesis using uc.lookup_clear_fold_add [OF assms] uc.lookup_del [OF assms] by blast
qed

section \<open>Properties\<close>

text \<open>
  Of the descriptions added to the cache for one program counter the first is kept, and lookups find
  it whatever else was added, for every hash function.
\<close>

lemma cache_keeps_first:
  "unw_cache_find_entry h (fold (unw_cache_add_entry h True) fs unw_cache_init) pc = find (\<lambda>f. tpc f = pc) fs"
  using uc.lookup_fold_add [OF uc.inv_emp] by (simp add: uc.lookup_emp)

end
