(* ===== verification/Unwind_Frame.thy ===== *)
theory Unwind_Frame
  imports Fde_Table Expr_Spec Unw_Cache Cfi_Spec
begin

text \<open>
  One step of the unwinder and the backtrace built from it, from \<^verbatim>\<open>src/unwind.c\<close>: the fast path
  (\<open>check_standard_frame\<close>, \<open>save_tdep_frame\<close>, \<open>restore_reg_from_memory\<close>, \<open>apply_tdep_state\<close>), the whole of
  \<open>__unwind_frame\<close> (\<open>unwind_frame_step\<close> here), \<open>unwind_frame\<close>, \<open>kunw_mod_lookup\<close> and \<open>unwind_full\<close>.
  A step returns the C return code with the context and the cache it leaves. The load of
  \<open>reg_info[cfa.reg]\<close> at the start of \<open>check_standard_frame\<close> feeds debug output only and is left out,
  as is the output itself. A step that fails may leave \<open>context->state\<close> half-way through an update;
  the state is kept as it was before that update, since the next step clears it before use.
\<close>

section \<open>Return codes\<close>

definition EIO :: int where "EIO = 5"
definition EINVAL :: int where "EINVAL = 22"
definition UNW_DONE :: int where "UNW_DONE = 1"
definition UNW_BOTTOM :: int where "UNW_BOTTOM = 2"

lemmas code_defs = EIO_def EINVAL_def UNW_DONE_def UNW_BOTTOM_def

text \<open>
  What a step gets from the kernel: its memory, guarded access to the task's memory, the hash
  function, whether \<open>kzalloc\<close> succeeds, and whether the task is a 32-bit one.
\<close>

record unw_env =
  e_mem :: kmem
  e_ua :: uaccess
  e_hash :: unw_hash
  e_alloc :: bool
  e_compat :: bool

section \<open>The fast path\<close>

definition get_pc :: "unwind_frame_info \<Rightarrow> u64" where
  "get_pc f = UNW_PC f - (if call_frame f then 1 else 0)"

definition rule_of :: "unwind_state \<Rightarrow> u64 \<Rightarrow> unwind_item" where
  "rule_of s r = rs_regs (REG_STATE s) ! unat r"

definition fast_where :: "item_location \<Rightarrow> bool" where
  "fast_where wh \<longleftrightarrow> wh = Nowhere \<or> wh = Same \<or> wh = Memory"

definition check_standard_frame :: "unwind_state \<Rightarrow> bool" where
  "check_standard_frame s \<longleftrightarrow>
     \<not> cfa_is_expr (REG_STATE s) \<and>
     (cfa_reg (REG_STATE s) = RBP \<or> cfa_reg (REG_STATE s) = RSP) \<and>
     iwhere (rule_of s UNW_PC_IDX) = Memory \<and> istate (rule_of s UNW_PC_IDX) = - 8 \<and>
     fast_where (iwhere (rule_of s RSP)) \<and> fast_where (iwhere (rule_of s RBP))"

definition save_tdep_frame :: "unwind_item \<Rightarrow> tdep_item" where
  "save_tdep_frame src =
     \<lparr>tdep_where = iwhere src, tdep_reg = ucast (istate src), tdep_off = istate src\<rparr>"

text \<open>\<open>False\<close> is the return code -1; the frame is then as it was.\<close>

definition restore_reg_from_memory ::
  "uaccess \<Rightarrow> unwind_frame_info \<Rightarrow> u64 \<Rightarrow> addr \<Rightarrow> bool \<Rightarrow> bool \<Rightarrow> (bool \<times> unwind_frame_info) res" where
  "restore_reg_from_memory ua f reg a compat_task user =
     (case stp_read_address ua (user_segment user) 8 a of
        None \<Rightarrow> Ok (False, f)
      | Some v \<Rightarrow>
          rbind (frame_set f reg 8 (if compat_task then v AND 0xFFFFFFFF else v)) (\<lambda>f'. Ok (True, f')))"

text \<open>A failure half-way leaves the registers restored so far in the frame.\<close>

definition apply_tdep_state ::
  "uaccess \<Rightarrow> unwind_frame_info \<Rightarrow> tdep_frame \<Rightarrow> bool \<Rightarrow> bool \<Rightarrow> (bool \<times> unwind_frame_info) res" where
  "apply_tdep_state ua f entry compat_task user =
     rbind (frame_get f (scast (tdep_reg (tcfa entry))) 8) (\<lambda>v.
       let cfa = v + tdep_off (tcfa entry)
       in rbind (if tdep_where (trbp entry) = Memory
                 then restore_reg_from_memory ua f RBP (cfa + tdep_off (trbp entry)) compat_task user
                 else Ok (True, f)) (\<lambda>(ok, f).
          if \<not> ok then Ok (False, f)
          else rbind (if tdep_where (trsp entry) = Memory
                      then restore_reg_from_memory ua f RSP (cfa + tdep_off (trsp entry)) compat_task user
                      else rbind (frame_set f UNW_SP_IDX 8 cfa) (\<lambda>f. Ok (True, f))) (\<lambda>(ok, f).
            if \<not> ok then Ok (False, f)
            else restore_reg_from_memory ua f UNW_PC_IDX (cfa - 8) compat_task user)))"

text \<open>The description of a standard frame that goes into the cache.\<close>

definition tdep_of_state :: "u64 \<Rightarrow> u64 \<Rightarrow> unwind_state \<Rightarrow> tdep_frame" where
  "tdep_of_state pc retAddrReg s =
     \<lparr>tpc = pc,
      tcfa = \<lparr>tdep_where = Register, tdep_reg = ucast (cfa_reg (REG_STATE s)),
              tdep_off = cfa_off (REG_STATE s)\<rparr>,
      trbp = save_tdep_frame (rule_of s RBP), trsp = save_tdep_frame (rule_of s RSP),
      tlast = (iwhere (rule_of s retAddrReg) = Nowhere)\<rparr>"

section \<open>The slow path\<close>

text \<open>The CFA; \<open>None\<close> is \<open>goto err\<close>.\<close>

definition compute_cfa :: "unw_env \<Rightarrow> unwind_frame_info \<Rightarrow> unwind_state \<Rightarrow> u64 option res" where
  "compute_cfa e f s =
     (if cfa_is_expr (REG_STATE s)
      then compute_expr (e_mem e) (e_ua e) (cfa_expr (REG_STATE s)) f True (e_compat e)
      else if unat (cfa_reg (REG_STATE s)) \<ge> NREGS \<or> reg_width (unat (cfa_reg (REG_STATE s))) \<noteq> 8 \<or>
              cfa_off (REG_STATE s) mod 4 \<noteq> 0 then Ok None
      else rbind (frame_get f (cfa_reg (REG_STATE s)) 8) (\<lambda>v. Ok (Some (v + cfa_off (REG_STATE s)))))"

text \<open>The first loop: the values of the registers saved in other registers.\<close>

definition resolve_item :: "unwind_frame_info \<Rightarrow> nat \<Rightarrow> unwind_state \<Rightarrow> unwind_state option res" where
  "resolve_item f i s =
     (let it = rs_regs (REG_STATE s) ! i; r = unat (istate it)
      in if REG_INVALID i then Ok (if iwhere it = Nowhere then Some s else None)
         else if iwhere it = Register then
           (if r \<ge> NREGS \<or> REG_INVALID r \<or> reg_width i > reg_width r then Ok None
            else if reg_width r \<in> {1, 2, 4, 8}
            then rbind (frame_get f (istate it) (reg_width r)) (\<lambda>v.
              Ok (Some (upd_item i (\<lambda>it. it\<lparr>istate := v\<rparr>) s)))
            else Ok None)
         else Ok (Some s))"

fun resolve_items :: "unwind_frame_info \<Rightarrow> nat list \<Rightarrow> unwind_state \<Rightarrow> unwind_state option res" where
  "resolve_items f [] s = Ok (Some s)"
| "resolve_items f (i # is) s =
     rbind (resolve_item f i s) (\<lambda>r. case r of None \<Rightarrow> Ok None | Some s' \<Rightarrow> resolve_items f is s')"

text \<open>
  The second loop: one register. \<open>val\<close> is the local variable of that name, which \<open>ValExpr\<close> stores
  without assigning it. The flag is \<open>False\<close> for \<open>goto err\<close>.
\<close>

definition store_sized :: "unwind_frame_info \<Rightarrow> nat \<Rightarrow> u64 \<Rightarrow> (bool \<times> unwind_frame_info) res" where
  "store_sized f i v =
     (if reg_width i \<in> {1, 2, 4, 8}
      then rbind (frame_set f (of_nat i) (reg_width i) v) (\<lambda>f'. Ok (True, f')) else Ok (False, f))"

definition store_value ::
  "unwind_frame_info \<Rightarrow> nat \<Rightarrow> u64 option \<Rightarrow> (bool \<times> unwind_frame_info \<times> u64 option) res" where
  "store_value f i val =
     (if reg_width i \<noteq> 8 then Ok (False, f, val)
      else case val of
          None \<Rightarrow> Fault Uninit
        | Some v \<Rightarrow> rbind (frame_set f (of_nat i) 8 v) (\<lambda>f'. Ok (True, f', val)))"

definition restore_item ::
  "unw_env \<Rightarrow> unwind_state \<Rightarrow> u64 \<Rightarrow> nat \<Rightarrow> unwind_frame_info \<times> u64 option \<Rightarrow>
   (bool \<times> unwind_frame_info \<times> u64 option) res" where
  "restore_item e s cfa i fv =
     (let (f, val) = fv; it = rs_regs (REG_STATE s) ! i;
          from_mem = (\<lambda>f. rbind (restore_reg_from_memory (e_ua e) f (of_nat i) (cfa + istate it) (e_compat e) True)
                        (\<lambda>(_, f'). Ok (True, f', val)))
      in if REG_INVALID i then Ok (True, f, val)
         else if i = unat UNW_SP_IDX then Ok (True, f\<lparr>regs := (regs f)[PT_sp := cfa]\<rparr>, val)
         else case iwhere it of
             Same \<Rightarrow> Ok (True, f, val)
           | Nowhere \<Rightarrow> rbind (store_sized f i 0) (\<lambda>(ok, f). Ok (ok, f, val))
           | Register \<Rightarrow> rbind (store_sized f i (istate it)) (\<lambda>(ok, f). Ok (ok, f, val))
           | Expr \<Rightarrow>
               rbind (compute_expr (e_mem e) (e_ua e) (istate it) f True (e_compat e)) (\<lambda>r.
                 case r of None \<Rightarrow> Ok (False, f, val) | Some _ \<Rightarrow> from_mem f)
           | ValExpr \<Rightarrow>
               rbind (compute_expr (e_mem e) (e_ua e) (istate it) f True (e_compat e)) (\<lambda>r.
                 case r of None \<Rightarrow> Ok (False, f, val) | Some _ \<Rightarrow> store_value f i val)
           | Value \<Rightarrow> store_value f i (Some (cfa + istate it))
           | Memory \<Rightarrow> from_mem f)"

fun restore_items ::
  "unw_env \<Rightarrow> unwind_state \<Rightarrow> u64 \<Rightarrow> nat list \<Rightarrow> unwind_frame_info \<times> u64 option \<Rightarrow>
   (bool \<times> unwind_frame_info) res" where
  "restore_items e s cfa [] fv = Ok (True, fst fv)"
| "restore_items e s cfa (i # is) fv =
     rbind (restore_item e s cfa i fv) (\<lambda>(ok, f, val).
       if ok then restore_items e s cfa is (f, val) else Ok (False, f))"

definition slow_path :: "unw_env \<Rightarrow> unwind_context \<Rightarrow> u64 \<Rightarrow> (int \<times> unwind_context) res" where
  "slow_path e ctx retAddrReg =
     (let s = ustate ctx; f = info ctx
      in if iwhere (rule_of s retAddrReg) = Nowhere then Ok (UNW_BOTTOM, ctx)
         else rbind (compute_cfa e f s) (\<lambda>r.
           case r of
             None \<Rightarrow> Ok (- EIO, ctx)
           | Some cfa \<Rightarrow>
             rbind (resolve_items f [0..<NREGS] s) (\<lambda>r.
               case r of
                 None \<Rightarrow> Ok (- EIO, ctx)
               | Some s \<Rightarrow>
                 rbind (restore_items e s cfa [0..<NREGS] (f, None)) (\<lambda>(ok, f).
                   let ctx = ctx\<lparr>info := f, ustate := s\<rparr>; g = stub ctx
                   in if \<not> ok \<or> UNW_PC f \<noteq> UNW_PC g \<or> UNW_SP f \<noteq> UNW_SP g \<or> UNW_BP f \<noteq> UNW_BP g
                      then Ok (- EIO, ctx) else Ok (0, ctx)))))"

section \<open>One step\<close>

text \<open>\<open>memset\<close>, and \<open>Nowhere\<close> for the registers beyond the real ones.\<close>

definition initial_rules :: unwind_state where
  "initial_rules =
     fold (\<lambda>i. set_no_state_rule (of_nat i) Nowhere) [UNW_NR_REAL_REGS..<NREGS] zero_state"

definition bad_cfa :: "unwind_reg_state \<Rightarrow> unwind_reg_state" where
  "bad_cfa rs = rs\<lparr>cfa_reg := of_nat NREGS, cfa_off := 1\<rparr>"

text \<open>Up to the check of the return address register: no rules, past the range, or the rules.\<close>

datatype located = LErr | LDone | LFound fde_cie u64 u64

definition locate_rules :: "unw_env \<Rightarrow> kunwind_module \<Rightarrow> u64 \<Rightarrow> located res" where
  "locate_rules e km pc =
     rbind (stp_search_fde (e_mem e) (e_ua e) pc True True (e_compat e) km) (\<lambda>fde.
       if fde = 0 then Ok LErr
       else rbind (cie_for_fde (e_mem e) fde (ehf km) True) (\<lambda>cie.
         if cie = 0 then Ok LErr
         else rbind (parse_fde_cie (e_mem e) (e_ua e) fde cie True (e_compat e)) (\<lambda>r.
           case r of
             None \<Rightarrow> Ok LErr
           | Some fc \<Rightarrow>
             let startLoc = adjust_start_loc (fc_startLoc fc) (fc_ptrType fc) True km;
                 endLoc = startLoc + fc_locRange fc; ra = unat (fc_retAddrReg fc)
             in Ok (if startLoc = 0 then LErr
                    else if pc > endLoc then LDone
                    else if ra \<ge> NREGS \<or> REG_INVALID ra \<or> reg_width ra \<noteq> 8 then LErr
                    else LFound fc startLoc endLoc))))"

definition cfi_run_args :: "unw_env \<Rightarrow> fde_cie \<Rightarrow> addr \<Rightarrow> u64 \<Rightarrow> cfi_args" where
  "cfi_run_args e fc lim target =
     \<lparr>c_mem = e_mem e, c_ua = e_ua e, c_end = lim, c_target = target, c_ptrType = fc_ptrType fc,
      c_user = True, c_compat = e_compat e\<rparr>"

text \<open>The CIE's program, then the FDE's up to \<open>pc\<close>; \<open>None\<close> is \<open>goto err\<close>.\<close>

definition run_programs ::
  "unw_env \<Rightarrow> fde_cie \<Rightarrow> u64 \<Rightarrow> u64 \<Rightarrow> u64 \<Rightarrow> unwind_state option res" where
  "run_programs e fc startLoc endLoc pc =
     (let s0 = initial_rules\<lparr>codeAlign := fc_codeAlign fc, dataAlign := fc_dataAlign fc,
                 stackDepth := 0, loc := startLoc\<rparr>
      in rbind (run_cfi_program (cfi_run_args e fc (fc_cieEnd fc) 0) (fc_cieStart fc)
                  (upd_reg_state bad_cfa s0)) (\<lambda>(ok, s).
           if \<not> ok then Ok None
           else let s = s\<lparr>cie_regs := rs_regs (REG_STATE s)\<rparr>
                in rbind (run_cfi_program (cfi_run_args e fc (fc_fdeEnd fc) pc) (fc_fdeStart fc) s)
                     (\<lambda>(ok, s). Ok (if \<not> ok \<or> loc s > endLoc then None else Some s))))"

text \<open>
  From the rules to the caller's frame: the fast path when the frame is standard, with its
  description put in the cache, and the slow path otherwise or when the fast one fails.
\<close>

definition apply_rules ::
  "unw_env \<Rightarrow> unw_cache \<Rightarrow> u64 \<Rightarrow> u64 \<Rightarrow> unwind_context \<Rightarrow> (int \<times> unwind_context \<times> unw_cache) res" where
  "apply_rules e cache pc retAddrReg ctx =
     (if check_standard_frame (ustate ctx)
      then let entry = tdep_of_state pc retAddrReg (ustate ctx);
               cache' = unw_cache_add_entry (e_hash e) (e_alloc e) entry cache
           in rbind (apply_tdep_state (e_ua e) (info ctx) entry (e_compat e) True) (\<lambda>(ok, f).
                if ok then Ok (if tlast entry then UNW_BOTTOM else 0, ctx\<lparr>info := f\<rparr>, cache')
                else rbind (slow_path e (ctx\<lparr>info := f\<rparr>) retAddrReg) (\<lambda>(r, ctx').
                  Ok (r, ctx', cache')))
      else rbind (slow_path e ctx retAddrReg) (\<lambda>(r, ctx'). Ok (r, ctx', cache)))"

text \<open>\<open>__unwind_frame\<close>.\<close>

definition unwind_frame_step ::
  "unw_env \<Rightarrow> kunwind_module \<Rightarrow> unwind_context \<Rightarrow> unw_cache \<Rightarrow>
   (int \<times> unwind_context \<times> unw_cache) res" where
  "unwind_frame_step e km ctx cache =
     (let pc = get_pc (info ctx); sz = sec_size (ehf km)
      in if sz = 0 \<or> sz AND 3 \<noteq> 0 then Ok (- EIO, ctx, cache)
         else case unw_cache_find_entry (e_hash e) cache pc of
             Some entry \<Rightarrow>
               rbind (apply_tdep_state (e_ua e) (info ctx) entry (e_compat e) True) (\<lambda>(ok, f).
                 Ok (if \<not> ok then - EIO else if tlast entry then UNW_BOTTOM else 0,
                     ctx\<lparr>info := f\<rparr>, cache))
           | None \<Rightarrow>
               rbind (locate_rules e km pc) (\<lambda>l.
                 case l of
                   LErr \<Rightarrow> Ok (- EIO, ctx\<lparr>ustate := initial_rules\<rparr>, cache)
                 | LDone \<Rightarrow> Ok (UNW_DONE, ctx\<lparr>ustate := initial_rules\<rparr>, cache)
                 | LFound fc startLoc endLoc \<Rightarrow>
                     let ctx = ctx\<lparr>info := (info ctx)\<lparr>call_frame := fc_call_frame fc\<rparr>\<rparr>
                     in rbind (run_programs e fc startLoc endLoc pc) (\<lambda>r.
                          case r of
                            None \<Rightarrow> Ok (- EIO, ctx\<lparr>ustate := initial_rules\<rparr>, cache)
                          | Some s \<Rightarrow>
                              apply_rules e cache pc (fc_retAddrReg fc) (ctx\<lparr>ustate := s\<rparr>))))"

section \<open>Backtraces\<close>

text \<open>The modules of a process in the order of their list, its cache and its compat flag.\<close>

record kunwind_proc_modules =
  stp_modules :: "kunwind_module list"
  unw_cache :: unw_cache
  mods_compat :: bool

definition kunw_mod_lookup :: "u64 \<Rightarrow> kunwind_proc_modules \<Rightarrow> kunwind_module option" where
  "kunw_mod_lookup pc proc =
     find (\<lambda>pos. vm_start (elf_vma pos) \<le> pc \<and> pc \<le> vm_end (elf_vma pos)) (stp_modules proc)"

definition unwind_frame ::
  "unw_env \<Rightarrow> unwind_context \<Rightarrow> bool \<Rightarrow> kunwind_proc_modules \<Rightarrow>
   (int \<times> unwind_context \<times> kunwind_proc_modules) res" where
  "unwind_frame e ctx user proc =
     (let pc = get_pc (info ctx)
      in if pc = 0 \<or> \<not> user then Ok (- EINVAL, ctx, proc)
         else case kunw_mod_lookup pc proc of
             None \<Rightarrow> Ok (- EINVAL, ctx, proc)
           | Some km \<Rightarrow>
               rbind (unwind_frame_step e km ctx (unw_cache proc)) (\<lambda>(r, ctx', cache).
                 Ok (r, ctx', proc\<lparr>unw_cache := cache\<rparr>)))"

text \<open>\<open>entries\<close> is the part of the buffer that was written, \<open>bt_null\<close> whether its pointer is \<open>NULL\<close>.\<close>

record kunwind_backtrace =
  max_entries :: u32
  nr_entries :: u32
  bt_entries :: "u64 list"
  bt_null :: bool

text \<open>
  The loop of \<open>unwind_full\<close>: \<open>ret\<close> is unassigned until a step has run. Its fuel is the number of
  entries still free.
\<close>

fun full_loop ::
  "nat \<Rightarrow> unw_env \<Rightarrow> unwind_context \<Rightarrow> kunwind_proc_modules \<Rightarrow> kunwind_backtrace \<Rightarrow> int option \<Rightarrow>
   (int option \<times> unwind_context \<times> kunwind_proc_modules \<times> kunwind_backtrace) res" where
  "full_loop fuel e ctx proc bt ret =
     (if nr_entries bt < max_entries bt
      then let pc = get_pc (info ctx)
           in if pc = 0 then Ok (ret, ctx, proc, bt)
              else case fuel of
                  0 \<Rightarrow> Fault NoFuel
                | Suc n \<Rightarrow>
                    let bt = bt\<lparr>bt_entries := bt_entries bt @ [pc], nr_entries := nr_entries bt + 1\<rparr>
                    in rbind (unwind_frame e ctx True proc) (\<lambda>(r, ctx, proc).
                         if r \<noteq> 0 then Ok (Some r, ctx, proc, bt)
                         else full_loop n e ctx proc bt (Some r))
      else Ok (ret, ctx, proc, bt))"

declare full_loop.simps [simp del]

definition unwind_full ::
  "unw_env \<Rightarrow> unwind_context \<Rightarrow> kunwind_proc_modules \<Rightarrow> kunwind_backtrace \<Rightarrow>
   (int \<times> unwind_context \<times> kunwind_proc_modules \<times> kunwind_backtrace) res" where
  "unwind_full e ctx proc bt =
     (if bt_null bt \<or> max_entries bt = 0 then Ok (- EINVAL, ctx, proc, bt)
      else rbind (full_loop (unat (max_entries bt)) e ctx proc (bt\<lparr>nr_entries := 0, bt_entries := []\<rparr>) None)
        (\<lambda>(ret, ctx, proc, bt).
          case ret of
            None \<Rightarrow> Fault Uninit
          | Some r \<Rightarrow> Ok (if r = UNW_BOTTOM then 0 else r, ctx, proc, bt)))"

end
