(* ===== verification/Frame_Facts.thy ===== *)
theory Frame_Facts
  imports Unwind_Frame
begin

text \<open>
  What a step of the unwinder computes: the fast path on a standard frame, its agreement with the
  slow path, the transparency of the cache, and the bounds of a backtrace.
\<close>

section \<open>Frames under the fast path\<close>

definition set_reg :: "u64 \<Rightarrow> u64 \<Rightarrow> unwind_frame_info \<Rightarrow> unwind_frame_info" where
  "set_reg r v f = f\<lparr>regs := (regs f)[slot r := v]\<rparr>"

lemma reg_consts_less: "unat RBP < 17" "unat RSP < 17" "unat UNW_PC_IDX < 17" "unat UNW_SP_IDX < 17"
  "UNW_SP_IDX = RSP"
  by (simp_all add: unw_idx_defs)

lemma frame_set_reg: "unat r < 17 \<Longrightarrow> frame_set f r 8 v = Ok (set_reg r v f)"
  by (simp add: frame_set_8 set_reg_def)

lemma wf_set_reg [simp]: "wf_frame (set_reg r v f) = wf_frame f"
  by (simp add: wf_frame_def set_reg_def)

lemma call_frame_set_reg [simp]: "call_frame (set_reg r v f) = call_frame f"
  by (simp add: set_reg_def)

lemma UNW_set_reg [simp]:
  assumes "wf_frame f"
  shows "UNW_PC (set_reg UNW_PC_IDX v f) = v" "UNW_PC (set_reg RSP v f) = UNW_PC f"
    "UNW_PC (set_reg RBP v f) = UNW_PC f" "UNW_SP (set_reg UNW_PC_IDX v f) = UNW_SP f"
    "UNW_SP (set_reg RSP v f) = v" "UNW_SP (set_reg RBP v f) = UNW_SP f"
    "UNW_BP (set_reg UNW_PC_IDX v f) = UNW_BP f" "UNW_BP (set_reg RSP v f) = UNW_BP f"
    "UNW_BP (set_reg RBP v f) = v"
  using assms by (simp_all add: set_reg_def)

text \<open>
  The caller's frame, as the ABI has it: the return address below the CFA, the CFA as stack
  pointer unless that was saved, and the frame pointer where the rules say. \<open>None\<close>: unreadable.
\<close>

definition read_word :: "uaccess \<Rightarrow> bool \<Rightarrow> addr \<Rightarrow> u64 option" where
  "read_word ua compat_task a =
     (case stp_read_address ua USER_DS 8 a of
        None \<Rightarrow> None | Some v \<Rightarrow> Some (if compat_task then v AND 0xFFFFFFFF else v))"

definition saved_or :: "uaccess \<Rightarrow> bool \<Rightarrow> u64 \<Rightarrow> tdep_item \<Rightarrow> u64 \<Rightarrow> u64 option" where
  "saved_or ua compat_task cfa it dflt =
     (if tdep_where it = Memory then read_word ua compat_task (cfa + tdep_off it) else Some dflt)"

definition caller_frame ::
  "uaccess \<Rightarrow> bool \<Rightarrow> tdep_frame \<Rightarrow> unwind_frame_info \<Rightarrow> unwind_frame_info option" where
  "caller_frame ua compat_task t f =
     (let cfa = regs f ! slot (scast (tdep_reg (tcfa t))) + tdep_off (tcfa t)
      in case (saved_or ua compat_task cfa (trbp t) (UNW_BP f), saved_or ua compat_task cfa (trsp t) cfa,
               read_word ua compat_task (cfa - 8)) of
           (Some b, Some k, Some p) \<Rightarrow>
             Some (set_reg UNW_PC_IDX p (set_reg RSP k (set_reg RBP b f)))
         | _ \<Rightarrow> None)"

lemma restore_reg_read:
  "unat r < 17 \<Longrightarrow> restore_reg_from_memory ua f r a compat_task True =
     Ok (case read_word ua compat_task a of None \<Rightarrow> (False, f) | Some v \<Rightarrow> (True, set_reg r v f))"
  by (simp add: restore_reg_from_memory_def read_word_def user_segment_def frame_set_reg split: option.splits)

lemma set_reg_same: "wf_frame f \<Longrightarrow> set_reg RBP (UNW_BP f) f = f"
  by (simp add: set_reg_def UNW_BP_def wf_frame_def PT_REGS_WORDS_def)

lemma apply_tdep_caller:
  assumes "wf_frame f" "unat (scast (tdep_reg (tcfa t)) :: u64) < NREGS"
  shows "\<exists>f'. apply_tdep_state ua f t compat_task True =
    Ok (case caller_frame ua compat_task t f of Some f' \<Rightarrow> (True, f') | None \<Rightarrow> (False, f'))"
  using assms set_reg_same [OF assms(1)]
  by (auto simp: apply_tdep_state_def frame_get_8 restore_reg_read reg_consts_less frame_set_reg
      caller_frame_def saved_or_def Let_def split: option.splits)


section \<open>The slow path\<close>

lemma frame_set_other:
  assumes "frame_set f (of_nat i) 8 v = Ok f'" "i < 17" "j < 17" "j \<noteq> i" "wf_frame f"
  shows "regs f' ! slot (of_nat j) = regs f ! slot (of_nat j)"
proof -
  have u: "unat (of_nat k :: u64) = k" if "k < 17" for k
    using that by (simp add: unat_of_nat take_bit_nat_eq_self)
  then have "slot (of_nat i) \<noteq> slot (of_nat j)"
    using slot_inj [of "of_nat i" "of_nat j"] assms(2-4) by (metis)
  then show ?thesis using assms(1,2) u by (auto simp: frame_set_8)
qed

text \<open>A register's turn changes that register only.\<close>

lemma restore_item_frame:
  assumes "restore_item e s cfa i (f, val) = Ok (ok, f', val')" "wf_frame f" "i < 17"
  shows "wf_frame f'" "j < 17 \<Longrightarrow> j \<noteq> i \<Longrightarrow> regs f' ! slot (of_nat j) = regs f ! slot (of_nat j)"
proof -
  have sp: "PT_sp \<noteq> slot (of_nat j)" if "i = unat UNW_SP_IDX" "j < 17" "j \<noteq> i" for j
  proof
    assume "PT_sp = slot (of_nat j)"
    then have "slot RSP = slot (of_nat j)" by simp
    moreover have uj: "unat (of_nat j :: u64) = j"
      using that(2) by (simp add: unat_of_nat take_bit_nat_eq_self)
    ultimately have "RSP = of_nat j"
      using slot_inj [of RSP "of_nat j"] that(2) reg_consts_less by metis
    then have "unat RSP = j" using uj by metis
    then show False using that(1,3) reg_consts_less(5) by simp
  qed
  have c: "f' = f \<or> (\<exists>v. frame_set f (of_nat i) 8 v = Ok f') \<or>
      i = unat UNW_SP_IDX \<and> f' = f\<lparr>regs := (regs f)[PT_sp := cfa]\<rparr>"
    using assms(1) reg_width_8 [OF assms(3)]
    by (auto simp: restore_item_def Let_def rbind_eq_Ok restore_reg_from_memory_def store_sized_def
        store_value_def split: item_location.splits option.splits if_splits)
  then show "wf_frame f'" using assms(2) wf_frame_set by (auto simp: wf_frame_def)
  show "j < 17 \<Longrightarrow> j \<noteq> i \<Longrightarrow> regs f' ! slot (of_nat j) = regs f ! slot (of_nat j)"
    using c frame_set_other assms(2,3) sp by auto
qed

lemma restore_items_frame:
  assumes "restore_items e s cfa is (f, val) = Ok (ok, f')" "wf_frame f" "\<forall>i \<in> set is. i < 17"
  shows "wf_frame f'" "j < 17 \<Longrightarrow> j \<notin> set is \<Longrightarrow> regs f' ! slot (of_nat j) = regs f ! slot (of_nat j)"
  using assms
proof (induction "is" arbitrary: f val)
  case (Cons i "is")
  { case 1
    then show ?case
      using Cons.IH(1) restore_item_frame(1) by (auto simp: rbind_eq_Ok split: if_splits)
  next
    case 2
    then show ?case
      using Cons.IH(2) restore_item_frame [of e s cfa i f val]
      by (fastforce simp: rbind_eq_Ok split: if_splits) }
qed auto


text \<open>What a register's turn stores in it: the saved word, its old value, or the CFA.\<close>

definition turn_value :: "unw_env \<Rightarrow> unwind_state \<Rightarrow> u64 \<Rightarrow> nat \<Rightarrow> u64 \<Rightarrow> u64 option" where
  "turn_value e s cfa i old =
     (if i = unat UNW_SP_IDX then Some cfa
      else case iwhere (rs_regs (REG_STATE s) ! i) of
          Same \<Rightarrow> Some old
        | Memory \<Rightarrow> read_word (e_ua e) (e_compat e) (cfa + istate (rs_regs (REG_STATE s) ! i))
        | _ \<Rightarrow> None)"

lemma restore_item_value:
  assumes "restore_item e s cfa i (f, val) = Ok (ok, f', val')" "wf_frame f" "i < 17"
    "turn_value e s cfa i (regs f ! slot (of_nat i)) = Some v"
  shows "regs f' ! slot (of_nat i) = v"
proof -
  have u: "unat (of_nat i :: u64) < 17"
    using assms(3) by (simp add: unat_of_nat take_bit_nat_eq_self)
  have len: "slot (of_nat i) < length (regs f)"
    using slot_less [OF u] assms(2) by (simp add: wf_frame_def PT_REGS_WORDS_def)
  show ?thesis
  proof (cases "i = unat UNW_SP_IDX")
    case True
    then have "of_nat i = RSP" using reg_consts_less(5) by simp
    then have "slot (of_nat i) = PT_sp" by simp
    then show ?thesis
      using assms len True REG_INVALID_False [OF assms(3)]
      by (auto simp: restore_item_def turn_value_def)
  next
    case False
    then show ?thesis
      using assms len REG_INVALID_False [OF assms(3)]
      by (auto simp: restore_item_def turn_value_def Let_def restore_reg_read [OF u] set_reg_def
          split: item_location.splits)
  qed
qed

lemma restore_items_value:
  assumes "restore_items e s cfa is (f, val) = Ok (True, f')" "wf_frame f" "\<forall>i \<in> set is. i < 17"
    "distinct is" "i \<in> set is" "turn_value e s cfa i (regs f ! slot (of_nat i)) = Some v"
  shows "regs f' ! slot (of_nat i) = v"
  using assms
proof (induction "is" arbitrary: f val)
  case (Cons k "is")
  obtain f1 val1 where 1: "restore_item e s cfa k (f, val) = Ok (True, f1, val1)"
    "restore_items e s cfa is (f1, val1) = Ok (True, f')"
    using Cons.prems(1) by (auto simp: rbind_eq_Ok split: if_splits)
  have k: "k < 17" "i < 17" using Cons.prems(3,5) by auto
  have wf: "wf_frame f1" using restore_item_frame(1) [OF 1(1) Cons.prems(2) k(1)] .
  show ?case
  proof (cases "i = k")
    case True
    then show ?thesis
      using restore_item_value [OF 1(1) Cons.prems(2) k(1)] Cons.prems(3,4,6) k(2)
        restore_items_frame(2) [OF 1(2) wf, of i] by simp
  next
    case False
    then have "regs f1 ! slot (of_nat i) = regs f ! slot (of_nat i)"
      using restore_item_frame(2) [OF 1(1) Cons.prems(2) k] by simp
    then show ?thesis using Cons.IH [OF 1(2) wf] Cons.prems(3-6) False by auto
  qed
qed simp

text \<open>
  On a standard frame whose frame pointer is kept or saved, and whose stack pointer has no rule of
  its own, the two paths recover the same program counter, stack pointer and frame pointer.
\<close>

lemma resolve_item_keeps:
  assumes "resolve_item f i s = Ok (Some s')" "wf_state s" "i < 17"
  shows "wf_state s'" "cfa_reg (REG_STATE s') = cfa_reg (REG_STATE s)"
    "j < 17 \<Longrightarrow> iwhere (rs_regs (REG_STATE s) ! j) \<noteq> Register \<Longrightarrow>
     rs_regs (REG_STATE s') ! j = rs_regs (REG_STATE s) ! j"
proof -
  have c: "s' = s \<or> iwhere (rs_regs (REG_STATE s) ! i) = Register \<and>
      (\<exists>v. s' = upd_item i (\<lambda>it. it\<lparr>istate := v\<rparr>) s)"
    using assms(1) by (auto simp: resolve_item_def Let_def rbind_eq_Ok split: if_splits)
  then show "wf_state s'" "cfa_reg (REG_STATE s') = cfa_reg (REG_STATE s)"
    using assms(2) by (auto simp: upd_item_def wf_upd_item [unfolded upd_item_def])
  show "rs_regs (REG_STATE s') ! j = rs_regs (REG_STATE s) ! j"
    if "j < 17" "iwhere (rs_regs (REG_STATE s) ! j) \<noteq> Register"
    using c assms(2) that by (cases "i = j") (auto simp: upd_item_def)
qed

lemma resolve_items_keeps:
  assumes "resolve_items f is s = Ok (Some s')" "wf_state s" "\<forall>i \<in> set is. i < 17"
    "j < 17" "iwhere (rs_regs (REG_STATE s) ! j) \<noteq> Register"
  shows "rs_regs (REG_STATE s') ! j = rs_regs (REG_STATE s) ! j"
  using assms
proof (induction "is" arbitrary: s)
  case (Cons i "is")
  obtain s1 where 1: "resolve_item f i s = Ok (Some s1)" "resolve_items f is s1 = Ok (Some s')"
    using Cons.prems(1) by (auto simp: rbind_eq_Ok split: option.splits)
  have i: "i < 17" using Cons.prems(3) by simp
  note k = resolve_item_keeps [OF 1(1) Cons.prems(2) i]
  show ?case using Cons.IH [OF 1(2) k(1)] k(3) [OF Cons.prems(4,5)] Cons.prems(3-5) by simp
qed simp

lemma scast_reg: "r = RBP \<or> r = RSP \<Longrightarrow> scast (ucast r :: u32) = r"
  by (auto simp: unw_idx_defs)

lemma fast_slow_agree:
  assumes "wf_frame f" "wf_state s" "check_standard_frame s"
    "iwhere (rule_of s RBP) \<noteq> Nowhere" "iwhere (rule_of s RSP) \<noteq> Memory"
    "apply_tdep_state (e_ua e) f (tdep_of_state pc ra s) (e_compat e) True = Ok (True, g)"
    "compute_cfa e f s = Ok (Some cfa)"
    "resolve_items f [0..<NREGS] s = Ok (Some s')"
    "restore_items e s' cfa [0..<NREGS] (f, None) = Ok (True, h)"
  shows "UNW_PC g = UNW_PC h \<and> UNW_SP g = UNW_SP h \<and> UNW_BP g = UNW_BP h"
proof -
  let ?t = "tdep_of_state pc ra s"
  have st: "\<not> cfa_is_expr (REG_STATE s)" "cfa_reg (REG_STATE s) = RBP \<or> cfa_reg (REG_STATE s) = RSP"
    "iwhere (rule_of s UNW_PC_IDX) = Memory" "istate (rule_of s UNW_PC_IDX) = - 8"
    "iwhere (rule_of s RBP) = Same \<or> iwhere (rule_of s RBP) = Memory"
    using assms(3,4) by (auto simp: check_standard_frame_def fast_where_def)
  have r: "unat (cfa_reg (REG_STATE s)) < 17" using st(2) reg_consts_less by auto
  have cfa: "cfa = regs f ! slot (cfa_reg (REG_STATE s)) + cfa_off (REG_STATE s)"
    using assms(7) st(1) r by (auto simp: compute_cfa_def frame_get_8 split: if_splits)
  have "\<exists>f'. apply_tdep_state (e_ua e) f ?t (e_compat e) True =
      Ok (case caller_frame (e_ua e) (e_compat e) ?t f of Some f' \<Rightarrow> (True, f') | None \<Rightarrow> (False, f'))"
    using r scast_reg [OF st(2)] by (intro apply_tdep_caller assms) (simp add: tdep_of_state_def)
  then have "caller_frame (e_ua e) (e_compat e) ?t f = Some g"
    using assms(6) by (auto split: option.splits)
  then obtain b p where g: "g = set_reg UNW_PC_IDX p (set_reg RSP cfa (set_reg RBP b f))"
    "saved_or (e_ua e) (e_compat e) cfa (trbp ?t) (UNW_BP f) = Some b"
    "read_word (e_ua e) (e_compat e) (cfa - 8) = Some p"
    using assms(5) scast_reg [OF st(2)]
    by (auto simp: caller_frame_def tdep_of_state_def save_tdep_frame_def saved_or_def cfa Let_def
        split: option.splits if_splits)
  have n: "of_nat 6 = RBP" "of_nat 7 = RSP" "of_nat 16 = UNW_PC_IDX" by (simp_all add: unw_idx_defs)
  note v = restore_items_value [OF assms(9,1) _ _ , simplified]
  have same: "rs_regs (REG_STATE s') ! j = rs_regs (REG_STATE s) ! j"
    if "j < 17" "iwhere (rs_regs (REG_STATE s) ! j) \<noteq> Register" for j
    using resolve_items_keeps [OF assms(8,2)] that by simp
  have "rs_regs (REG_STATE s') ! 16 = rule_of s UNW_PC_IDX" "rs_regs (REG_STATE s') ! 6 = rule_of s RBP"
    using same [of 16] same [of 6] st by (auto simp: rule_of_def unw_idx_defs)
  have "regs h ! slot (of_nat 16) = p"
    using st g(3) \<open>rs_regs (REG_STATE s') ! 16 = _\<close>
    by (intro v) (simp_all add: turn_value_def unw_idx_defs)
  moreover have "regs h ! slot (of_nat 7) = cfa"
    by (intro v) (simp_all add: turn_value_def unw_idx_defs)
  moreover have "regs h ! slot (of_nat 6) = b"
    using st(5) g(2) \<open>rs_regs (REG_STATE s') ! 6 = _\<close>
    by (intro v) (auto simp: turn_value_def saved_or_def tdep_of_state_def save_tdep_frame_def
        UNW_BP_def unw_idx_defs slot_def reg_info_def)
  ultimately show ?thesis
    using g(1) assms(1) unfolding n by (simp add: UNW_PC_def [of h] UNW_SP_def [of h] UNW_BP_def [of h])
qed

text \<open>Whatever the rules are, the slow path returns 0 only for the frame that the backtrace started with.\<close>

lemma slow_path_stub:
  assumes "slow_path e ctx ra = Ok (0, ctx')"
  shows "UNW_PC (info ctx') = UNW_PC (stub ctx) \<and> UNW_SP (info ctx') = UNW_SP (stub ctx) \<and>
    UNW_BP (info ctx') = UNW_BP (stub ctx)"
  using assms
  by (auto simp: slow_path_def Let_def rbind_eq_Ok code_defs split: option.splits if_splits)

section \<open>The cache\<close>

text \<open>A step that took the fast path and remembered the frame does the same again from the cache.\<close>

lemma unwind_hit:
  assumes "sec_size (ehf km) \<noteq> 0" "sec_size (ehf km) AND 3 = 0"
    "unw_cache_find_entry (e_hash e) cache (get_pc (info ctx)) = Some t"
    "apply_tdep_state (e_ua e) (info ctx) t (e_compat e) True = Ok (True, f)"
  shows "unwind_frame_step e km ctx cache =
    Ok (if tlast t then UNW_BOTTOM else 0, ctx\<lparr>info := f\<rparr>, cache)"
  using assms by (simp add: unwind_frame_step_def Let_def)

lemma frame_call_frame:
  "frame_get (f\<lparr>call_frame := b\<rparr>) r n = frame_get f r n"
  "frame_set (f\<lparr>call_frame := b\<rparr>) r n v =
     rbind (frame_set f r n v) (\<lambda>g. Ok (g\<lparr>call_frame := b\<rparr>))"
  by (simp_all add: frame_get_def frame_set_def Let_def)

lemma restore_call_frame:
  "restore_reg_from_memory ua (f\<lparr>call_frame := b\<rparr>) r a c u =
     rbind (restore_reg_from_memory ua f r a c u) (\<lambda>(ok, g). Ok (ok, g\<lparr>call_frame := b\<rparr>))"
  by (simp add: restore_reg_from_memory_def frame_call_frame rbind_assoc split: option.splits)

lemma apply_tdep_call_frame:
  assumes "apply_tdep_state ua f t c u = Ok (ok, g)"
  shows "apply_tdep_state ua (f\<lparr>call_frame := b\<rparr>) t c u = Ok (ok, g\<lparr>call_frame := b\<rparr>)"
proof -
  obtain v where v: "frame_get f (scast (tdep_reg (tcfa t))) 8 = Ok v"
    using assms by (auto simp: apply_tdep_state_def rbind_eq_Ok)
  define cfa where "cfa = v + tdep_off (tcfa t)"
  define S1 where "S1 f = (if tdep_where (trbp t) = Memory
      then restore_reg_from_memory ua f RBP (cfa + tdep_off (trbp t)) c u else Ok (True, f))" for f
  define S2 where "S2 f = (if tdep_where (trsp t) = Memory
      then restore_reg_from_memory ua f RSP (cfa + tdep_off (trsp t)) c u
      else rbind (frame_set f UNW_SP_IDX 8 cfa) (\<lambda>f. Ok (True, f)))" for f
  have S: "S1 (f\<lparr>call_frame := b\<rparr>) = rbind (S1 f) (\<lambda>(ok, g). Ok (ok, g\<lparr>call_frame := b\<rparr>))"
    "S2 (f\<lparr>call_frame := b\<rparr>) = rbind (S2 f) (\<lambda>(ok, g). Ok (ok, g\<lparr>call_frame := b\<rparr>))" for f
    by (simp_all add: S1_def S2_def restore_call_frame frame_call_frame rbind_assoc)
  have un: "apply_tdep_state ua f' t c u = rbind (S1 f') (\<lambda>(ok, f). if \<not> ok then Ok (False, f)
      else rbind (S2 f) (\<lambda>(ok, f). if \<not> ok then Ok (False, f)
      else restore_reg_from_memory ua f UNW_PC_IDX (cfa - 8) c u))"
    if "frame_get f' (scast (tdep_reg (tcfa t))) 8 = Ok v" for f'
    using that by (simp only: apply_tdep_state_def S1_def S2_def cfa_def rbind.simps Let_def)
  obtain ok1 f1 where 1: "S1 f = Ok (ok1, f1)" using assms un [OF v] by (auto simp: rbind_eq_Ok)
  have un': "apply_tdep_state ua (f\<lparr>call_frame := b\<rparr>) t c u = rbind (S1 (f\<lparr>call_frame := b\<rparr>))
      (\<lambda>(ok, f). if \<not> ok then Ok (False, f) else rbind (S2 f) (\<lambda>(ok, f). if \<not> ok then Ok (False, f)
        else restore_reg_from_memory ua f UNW_PC_IDX (cfa - 8) c u))"
    using v by (intro un) (simp add: frame_call_frame)
  show ?thesis
  proof (cases ok1)
    case True
    then obtain ok2 f2 where 2: "S2 f1 = Ok (ok2, f2)" using assms un [OF v] 1 by (auto simp: rbind_eq_Ok)
    then show ?thesis
      using assms un [OF v] un' 1 True by (cases ok2) (simp_all add: S restore_call_frame)
  next
    case False
    then show ?thesis using assms un [OF v] un' 1 by (simp add: S)
  qed
qed

text \<open>A step without a cache entry: it stops without touching the cache, or applies rules.\<close>

lemma step_miss_cases:
  assumes "unwind_frame_step e km ctx c = Ok (r, ctx1, c1)"
    "unw_cache_find_entry (e_hash e) c (get_pc (info ctx)) = None"
  shows "c1 = c \<or> (\<exists>(fc :: fde_cie) sl el s. locate_rules e km (get_pc (info ctx)) = Ok (LFound fc sl el) \<and>
     run_programs e fc sl el (get_pc (info ctx)) = Ok (Some s) \<and>
     apply_rules e c (get_pc (info ctx)) (fc_retAddrReg fc)
       (ctx\<lparr>info := (info ctx)\<lparr>call_frame := fc_call_frame fc\<rparr>, ustate := s\<rparr>) = Ok (r, ctx1, c1))"
proof (cases "sec_size (ehf km) = 0 \<or> sec_size (ehf km) AND 3 \<noteq> 0")
  case False
  then obtain l where l: "locate_rules e km (get_pc (info ctx)) = Ok l"
    using assms by (auto simp: unwind_frame_step_def Let_def rbind_eq_Ok)
  show ?thesis
  proof (cases l)
    case (LFound fc sl el)
    then obtain rr where rr: "run_programs e fc sl el (get_pc (info ctx)) = Ok rr"
      using assms False l by (auto simp: unwind_frame_step_def Let_def rbind_eq_Ok)
    show ?thesis
    proof (cases rr)
      case (Some s)
      then have "apply_rules e c (get_pc (info ctx)) (fc_retAddrReg fc)
          (ctx\<lparr>info := (info ctx)\<lparr>call_frame := fc_call_frame fc\<rparr>, ustate := s\<rparr>) = Ok (r, ctx1, c1)"
        using assms False l LFound rr by (simp add: unwind_frame_step_def Let_def)
      then show ?thesis using l LFound rr Some by blast
    qed (use assms False l LFound rr in \<open>simp add: unwind_frame_step_def Let_def\<close>)
  qed (use assms False l in \<open>simp_all add: unwind_frame_step_def Let_def\<close>)
qed (use assms in \<open>auto simp: unwind_frame_step_def Let_def\<close>)

lemma cache_transparent:
  assumes "ht_wf (e_hash e) tpc c" "unw_cache_find_entry (e_hash e) c (get_pc (info ctx)) = None"
    "unwind_frame_step e km ctx c = Ok (r, ctx1, c1)"
    "unw_cache_find_entry (e_hash e) c1 (get_pc (info ctx)) = Some t"
    "apply_tdep_state (e_ua e) (info ctx) t (e_compat e) True = Ok (True, f)"
  shows "unwind_frame_step e km ctx c1 =
      Ok (r, ctx\<lparr>info := (info ctx1)\<lparr>call_frame := call_frame (info ctx)\<rparr>\<rparr>, c1) \<and>
    (\<exists>(fc :: fde_cie) sl el. locate_rules e km (get_pc (info ctx)) = Ok (LFound fc sl el) \<and>
      call_frame (info ctx1) = fc_call_frame fc)"
proof -
  let ?pc = "get_pc (info ctx)"
  have ne: "c1 \<noteq> c" using assms(2,4) by auto
  then have sz: "sec_size (ehf km) \<noteq> 0" "sec_size (ehf km) AND 3 = 0"
    using assms(3) by (auto simp: unwind_frame_step_def Let_def split: if_splits)
  obtain fc :: fde_cie and sl el s where l: "locate_rules e km ?pc = Ok (LFound fc sl el)"
    and a: "apply_rules e c ?pc (fc_retAddrReg fc)
      (ctx\<lparr>info := (info ctx)\<lparr>call_frame := fc_call_frame fc\<rparr>, ustate := s\<rparr>) = Ok (r, ctx1, c1)"
    using step_miss_cases [OF assms(3,2)] ne by auto
  let ?t = "tdep_of_state ?pc (fc_retAddrReg fc) s"
  have std: "check_standard_frame s" "c1 = unw_cache_add_entry (e_hash e) (e_alloc e) ?t c"
    using a ne by (auto simp: apply_rules_def Let_def rbind_eq_Ok split: if_splits)
  then have t: "t = ?t"
    using find_add_entry [OF assms(1), of "e_alloc e" ?t ?pc] assms(2,4) by (auto split: if_splits)
  then have r: "r = (if tlast t then UNW_BOTTOM else 0)" "info ctx1 = f\<lparr>call_frame := fc_call_frame fc\<rparr>"
    using a std apply_tdep_call_frame [OF assms(5), of "fc_call_frame fc"]
    by (auto simp: apply_rules_def Let_def split: if_splits)
  have "f\<lparr>call_frame := call_frame (info ctx)\<rparr> = f"
    using apply_tdep_call_frame [OF assms(5), of "call_frame (info ctx)"] assms(5) by simp
  then show ?thesis using unwind_hit [OF sz assms(4,5)] l r by auto
qed


section \<open>Backtraces\<close>

text \<open>
  \<open>steps e c p pcs c' p'\<close>: from \<open>c\<close>, steps that all return 0 pass frames with the program counters
  \<open>pcs\<close>, none of them 0, and lead to \<open>c'\<close>.
\<close>

inductive steps ::
  "unw_env \<Rightarrow> unwind_context \<Rightarrow> kunwind_proc_modules \<Rightarrow> u64 list \<Rightarrow>
   unwind_context \<Rightarrow> kunwind_proc_modules \<Rightarrow> bool" for e where
  steps_Nil: "steps e c p [] c p"
| steps_Cons: "get_pc (info c) \<noteq> 0 \<Longrightarrow> unwind_frame e c True p = Ok (0, c1, p1) \<Longrightarrow>
    steps e c1 p1 pcs c' p' \<Longrightarrow> steps e c p (get_pc (info c) # pcs) c' p'"

inductive_simps steps_simps [simp]: "steps e c p [] c' p'" "steps e c p (pc # pcs) c' p'"

lemma steps_nonzero: "steps e c p pcs c' p' \<Longrightarrow> 0 \<notin> set pcs"
  by (induction rule: steps.induct) auto

text \<open>
  How the loop ends at the frame \<open>c\<close>: without another entry, when the buffer is full or the program
  counter is 0, or with the entry of a frame whose step returned a code other than 0.
\<close>

definition trace_end ::
  "unw_env \<Rightarrow> bool \<Rightarrow> unwind_context \<Rightarrow> kunwind_proc_modules \<Rightarrow> int option \<Rightarrow>
   u64 list \<Rightarrow> int option \<Rightarrow> unwind_context \<Rightarrow> kunwind_proc_modules \<Rightarrow> bool" where
  "trace_end e full c p ret tail ret' c' p' \<longleftrightarrow>
     tail = [] \<and> ret' = ret \<and> c' = c \<and> p' = p \<and> (full \<or> get_pc (info c) = 0) \<or>
     get_pc (info c) \<noteq> 0 \<and> tail = [get_pc (info c)] \<and>
       (\<exists>r. r \<noteq> 0 \<and> ret' = Some r \<and> unwind_frame e c True p = Ok (r, c', p'))"

definition bt_wf :: "kunwind_backtrace \<Rightarrow> bool" where
  "bt_wf bt \<longleftrightarrow> nr_entries bt \<le> max_entries bt \<and> length (bt_entries bt) = unat (nr_entries bt)"

abbreviation bt_push :: "u64 \<Rightarrow> kunwind_backtrace \<Rightarrow> kunwind_backtrace" where
  "bt_push pc bt \<equiv> bt\<lparr>bt_entries := bt_entries bt @ [pc], nr_entries := nr_entries bt + 1\<rparr>"

lemma bt_wf_push:
  assumes "bt_wf bt" "nr_entries bt < max_entries bt"
  shows "bt_wf (bt_push pc bt)" "unat (nr_entries bt + 1) = unat (nr_entries bt) + 1"
proof -
  show "unat (nr_entries bt + 1) = unat (nr_entries bt) + 1" using assms(2) by unat_arith
  then show "bt_wf (bt_push pc bt)" using assms by (simp add: bt_wf_def word_le_nat_alt word_less_nat_alt)
qed

lemma full_loop_step:
  assumes "nr_entries bt < max_entries bt" "get_pc (info c) \<noteq> 0"
  shows "full_loop (Suc n) e c p bt ret =
    rbind (unwind_frame e c True p) (\<lambda>(r, c1, p1).
      if r \<noteq> 0 then Ok (Some r, c1, p1, bt_push (get_pc (info c)) bt)
      else full_loop n e c1 p1 (bt_push (get_pc (info c)) bt) (Some r))"
  using assms by (simp add: full_loop.simps [of "Suc n"] Let_def)

lemma full_loop_done:
  assumes "\<not> (nr_entries bt < max_entries bt \<and> get_pc (info c) \<noteq> 0)"
  shows "full_loop n e c p bt ret = Ok (ret, c, p, bt)"
  using assms by (auto simp: full_loop.simps [of n] Let_def)

text \<open>
  What the loop returns, whenever it does: the entries it has added are those of successive frames,
  and it has stopped for one of the reasons above.
\<close>

definition traced ::
  "unw_env \<Rightarrow> unwind_context \<Rightarrow> kunwind_proc_modules \<Rightarrow> kunwind_backtrace \<Rightarrow> int option \<Rightarrow>
   int option \<Rightarrow> unwind_context \<Rightarrow> kunwind_proc_modules \<Rightarrow> kunwind_backtrace \<Rightarrow> bool" where
  "traced e c p bt ret ret' c' p' bt' \<longleftrightarrow>
     bt_wf bt' \<and> max_entries bt' = max_entries bt \<and>
     (\<exists>pcs tail c1 p1. steps e c p pcs c1 p1 \<and> bt_entries bt' = bt_entries bt @ pcs @ tail \<and>
        trace_end e (nr_entries bt' = max_entries bt') c1 p1 (if pcs = [] then ret else Some 0) tail ret' c' p')"

lemma traced_done:
  assumes "bt_wf bt" "\<not> (nr_entries bt < max_entries bt \<and> get_pc (info c) \<noteq> 0)"
  shows "traced e c p bt ret ret c p bt"
proof -
  have "nr_entries bt = max_entries bt \<or> get_pc (info c) = 0" using assms by (auto simp: bt_wf_def)
  then show ?thesis
    unfolding traced_def using assms(1)
    by (intro conjI exI [of _ "[]"] exI [of _ c] exI [of _ p]) (auto simp: trace_end_def)
qed

lemma traced_stop:
  assumes "bt_wf bt" "nr_entries bt < max_entries bt" "get_pc (info c) \<noteq> 0"
    "unwind_frame e c True p = Ok (r, c', p')" "r \<noteq> 0"
  shows "traced e c p bt ret (Some r) c' p' (bt_push (get_pc (info c)) bt)"
  unfolding traced_def using assms bt_wf_push(1) [OF assms(1,2)]
  by (intro conjI exI [of _ "[]"] exI [of _ "[get_pc (info c)]"] exI [of _ c] exI [of _ p]) (auto simp: trace_end_def)

lemma traced_step:
  assumes "get_pc (info c) \<noteq> 0" "unwind_frame e c True p = Ok (0, c1, p1)"
    "traced e c1 p1 (bt_push (get_pc (info c)) bt) (Some 0) ret' c' p' bt'"
  shows "traced e c p bt ret ret' c' p' bt'"
proof -
  obtain pcs tail c2 p2 where t: "steps e c1 p1 pcs c2 p2"
    "bt_entries bt' = (bt_entries bt @ [get_pc (info c)]) @ pcs @ tail"
    "trace_end e (nr_entries bt' = max_entries bt') c2 p2 (Some 0) tail ret' c' p'"
    using assms(3) by (auto simp: traced_def split: if_splits)
  show ?thesis
    unfolding traced_def using assms t
    by (intro conjI exI [of _ "get_pc (info c) # pcs"] exI [of _ tail] exI [of _ c2] exI [of _ p2])
      (auto simp: traced_def)
qed

lemma full_loop_traced:
  assumes "full_loop fuel e c p bt ret = Ok (ret', c', p', bt')" "bt_wf bt"
  shows "traced e c p bt ret ret' c' p' bt'"
  using assms
proof (induction fuel arbitrary: c p bt ret)
  case 0
  then show ?case
    using traced_done [OF 0(2), of c e p ret] by (auto simp: full_loop.simps [of 0] Let_def split: if_splits)
next
  case (Suc n)
  show ?case
  proof (cases "nr_entries bt < max_entries bt \<and> get_pc (info c) \<noteq> 0")
    case True
    then obtain r c1 p1 where u: "unwind_frame e c True p = Ok (r, c1, p1)"
      using Suc.prems(1) by (auto simp: full_loop_step rbind_eq_Ok)
    show ?thesis
      using Suc.prems True u traced_stop [OF Suc.prems(2), of c e p r c1 p1]
        traced_step [OF _ u [THEN trans]] Suc.IH bt_wf_push(1) [OF Suc.prems(2)]
      by (cases "r = 0") (auto simp: full_loop_step)
  next
    case False
    then show ?thesis using Suc.prems traced_done by (auto simp: full_loop_done)
  qed
qed

text \<open>The loop returns within its fuel when its steps return, which an invariant \<open>P\<close> of them may show.\<close>

lemma full_loop_returns:
  assumes "\<And>c p. P c p \<Longrightarrow> \<exists>r c' p'. unwind_frame e c True p = Ok (r, c', p') \<and> P c' p'"
    "P c p" "bt_wf bt" "unat (max_entries bt) - unat (nr_entries bt) \<le> fuel"
  shows "\<exists>ret' c' p' bt'. full_loop fuel e c p bt ret = Ok (ret', c', p', bt')"
  using assms(2-4)
proof (induction fuel arbitrary: c p bt ret)
  case 0
  then show ?case by (simp add: full_loop.simps [of 0] word_less_nat_alt)
next
  case (Suc n)
  show ?case
  proof (cases "nr_entries bt < max_entries bt \<and> get_pc (info c) \<noteq> 0")
    case True
    obtain r c1 p1 where u: "unwind_frame e c True p = Ok (r, c1, p1)" "P c1 p1"
      using assms(1) [OF Suc.prems(1)] by blast
    show ?thesis
      using Suc.IH [OF u(2) bt_wf_push(1) [OF Suc.prems(2)]] Suc.prems True u(1) bt_wf_push(2) [OF Suc.prems(2)]
      by (cases "r = 0") (auto simp: full_loop_step)
  qed (simp add: full_loop_done)
qed

lemma unwind_full_traced:
  assumes "unwind_full e c p bt = Ok (r, c', p', bt')" "\<not> bt_null bt" "max_entries bt \<noteq> 0"
  shows "\<exists>ret. traced e c p (bt\<lparr>nr_entries := 0, bt_entries := []\<rparr>) None (Some ret) c' p' bt' \<and>
    r = (if ret = UNW_BOTTOM then 0 else ret)"
proof -
  obtain ret where "full_loop (unat (max_entries bt)) e c p (bt\<lparr>nr_entries := 0, bt_entries := []\<rparr>) None =
      Ok (Some ret, c', p', bt')" "r = (if ret = UNW_BOTTOM then 0 else ret)"
    using assms by (auto simp: unwind_full_def rbind_eq_Ok split: option.splits)
  then show ?thesis using full_loop_traced by (fastforce simp: bt_wf_def)
qed

text \<open>
  The backtrace of \<open>unwind_full\<close>, spelt out: the entries are the program counters of successive
  frames \<open>pcs\<close>, ended by the last frame's when its step returned a code other than 0.
\<close>

lemma unwind_full_spec:
  assumes "unwind_full e c p bt = Ok (r, c', p', bt')" "\<not> bt_null bt" "max_entries bt \<noteq> 0"
  shows "nr_entries bt' \<le> max_entries bt \<and> length (bt_entries bt') = unat (nr_entries bt') \<and>
    (\<exists>pcs c1 p1. steps e c p pcs c1 p1 \<and>
      (if get_pc (info c1) = 0 \<or> length pcs = unat (max_entries bt)
       then bt_entries bt' = pcs \<and> pcs \<noteq> [] \<and> r = 0
       else bt_entries bt' = pcs @ [get_pc (info c1)] \<and>
         (\<exists>code. code \<noteq> 0 \<and> unwind_frame e c1 True p1 = Ok (code, c', p') \<and>
            r = (if code = UNW_BOTTOM then 0 else code))))"
proof -
  obtain ret where t: "traced e c p (bt\<lparr>nr_entries := 0, bt_entries := []\<rparr>) None (Some ret) c' p' bt'"
    and r: "r = (if ret = UNW_BOTTOM then 0 else ret)" using unwind_full_traced [OF assms] by blast
  then obtain pcs tail c1 p1 where s: "steps e c p pcs c1 p1" "bt_entries bt' = pcs @ tail"
    "trace_end e (nr_entries bt' = max_entries bt) c1 p1 (if pcs = [] then None else Some 0) tail (Some ret) c' p'"
    and wf: "bt_wf bt'" "max_entries bt' = max_entries bt"
    by (auto simp: traced_def)
  have len: "length pcs + length tail = unat (nr_entries bt')" using wf s(2) by (simp add: bt_wf_def)
  have le: "unat (nr_entries bt') \<le> unat (max_entries bt)" using wf by (simp add: bt_wf_def word_le_nat_alt)
  have eq: "nr_entries bt' = max_entries bt \<longleftrightarrow> unat (nr_entries bt') = unat (max_entries bt)"
    by (simp add: word_unat_eq_iff)
  show ?thesis
    using s wf r len le
    by (intro conjI exI [of _ pcs] exI [of _ c1] exI [of _ p1])
      (auto simp: bt_wf_def trace_end_def eq UNW_BOTTOM_def split: if_splits)
qed

lemma unwind_full_returns:
  assumes "\<And>c p. P c p \<Longrightarrow> \<exists>r c' p'. unwind_frame e c True p = Ok (r, c', p') \<and> P c' p'"
    "P c p" "get_pc (info c) \<noteq> 0" "\<not> bt_null bt" "max_entries bt \<noteq> 0"
  shows "\<exists>r c' p' bt'. unwind_full e c p bt = Ok (r, c', p', bt')"
proof -
  let ?bt = "bt\<lparr>nr_entries := 0, bt_entries := []\<rparr>"
  obtain ret c' p' bt' where l: "full_loop (unat (max_entries bt)) e c p ?bt None = Ok (ret, c', p', bt')"
    using full_loop_returns [OF assms(1,2), of ?bt "unat (max_entries bt)" None] by (auto simp: bt_wf_def)
  then have "traced e c p ?bt None ret c' p' bt'" by (rule full_loop_traced) (simp add: bt_wf_def)
  then have "ret \<noteq> None"
    using assms(3,5) by (auto simp: traced_def trace_end_def bt_wf_def unat_eq_zero split: if_splits)
  then show ?thesis using l assms(4,5) by (auto simp: unwind_full_def)
qed

section \<open>Properties\<close>

text \<open>
  A frame, the rules of a function that has pushed and set its frame pointer, and a stack, for the
  witnesses.
\<close>

definition std_frame :: unwind_frame_info where
  "std_frame = \<lparr>regs = (replicate 21 0)[PT_ip := 0x40, PT_bp := 0x80, PT_sp := 0x70], call_frame = False\<rparr>"

definition std_state :: unwind_state where
  "std_state = set_offset_rule 16 Memory (- 8) (set_offset_rule 6 Memory (- 16)
     (upd_reg_state (\<lambda>rs. rs\<lparr>cfa_reg := 6, cfa_off := 16\<rparr>) zero_state))"

definition std_env :: unw_env where
  "std_env = \<lparr>e_mem = (\<lambda>_. None),
     e_ua = \<lparr>access_ok = (\<lambda>_ _ _. True), get_user = (\<lambda>_ a. if a = 0x88 then Some 0x55 else if a = 0x80 then Some 0xa0 else None)\<rparr>,
     e_hash = (\<lambda>_. 0), e_alloc = True, e_compat = False\<rparr>"

definition std_caller :: unwind_frame_info where
  "std_caller = \<lparr>regs = (replicate 21 0)[PT_ip := 0x55, PT_bp := 0xa0, PT_sp := 0x90], call_frame = False\<rparr>"

lemma std_state_wf: "wf_state std_state"
  unfolding std_state_def by (intro wf_setters wf_upd_reg_state wf_zero_state) (simp add: wf_reg_state_def)

lemma std_reg_state:
  "REG_STATE std_state = \<lparr>cfa_reg = 6, cfa_off = 16,
     rs_regs = (replicate 17 zero_item)[6 := \<lparr>iwhere = Memory, istate = - 16\<rparr>, 16 := \<lparr>iwhere = Memory, istate = - 8\<rparr>],
     cfa_is_expr = False\<rparr>"
  by (simp add: std_state_def set_offset_rule_def upd_item_def upd_reg_state_def REG_STATE_def zero_state_def
      zero_reg_state_def STP_MAX_STACK_DEPTH_def zero_item_def)

lemma std_caller_regs:
  "(replicate 21 0)[16 := 64, 4 := 128, 19 := 112, 4 := 160, 19 := 144, 16 := 85] =
   (replicate 21 0)[16 := 85, 4 := 160, 19 := 144 :: u64]"
  by code_simp

lemma std_state_eval:  "check_standard_frame std_state"
  "iwhere (rule_of std_state RBP) \<noteq> Nowhere" "iwhere (rule_of std_state RSP) \<noteq> Memory"
  "compute_cfa std_env std_frame std_state = Ok (Some 0x90)"
  by (simp_all add: check_standard_frame_def rule_of_def std_reg_state unw_idx_defs fast_where_def compute_cfa_def
    zero_item_def nth_list_update frame_get_8 reg_width_8 slot_def reg_info_def std_frame_def)

lemma resolve_items_none:
  assumes "\<forall>i \<in> set is. i < NREGS \<and> iwhere (rs_regs (REG_STATE s) ! i) \<noteq> Register"
  shows "resolve_items f is s = Ok (Some s)"
  using assms by (induction "is") (simp_all add: resolve_item_def Let_def REG_INVALID_False)

lemma std_items: "i < 17 \<Longrightarrow> rs_regs (REG_STATE std_state) ! i =
    (if i = 6 then \<lparr>iwhere = Memory, istate = - 16\<rparr> else if i = 16 then \<lparr>iwhere = Memory, istate = - 8\<rparr> else zero_item)"
  by (simp add: std_reg_state nth_list_update)

lemma std_resolve: "resolve_items std_frame [0..<NREGS] std_state = Ok (Some std_state)"
  by (rule resolve_items_none) (auto simp: std_items zero_item_def)

lemma std_words: "read_word (e_ua std_env) False 0x80 = Some 0xa0" "read_word (e_ua std_env) False 0x88 = Some 0x55"
  by (simp_all add: read_word_def std_env_def stp_read_address_def)

lemma std_apply: "apply_tdep_state (e_ua std_env) std_frame (tdep_of_state 0x40 16 std_state) False True = Ok (True, std_caller)"
  by (simp add: apply_tdep_state_def tdep_of_state_def save_tdep_frame_def rule_of_def std_reg_state unw_idx_defs nth_list_update
    zero_item_def frame_get_8 slot_def reg_info_def std_frame_def std_caller_def restore_reg_read std_words frame_set_8 set_reg_def
    std_caller_regs)

lemma std_restore: "restore_items std_env std_state 0x90 [0..<NREGS] (std_frame, None) = Ok (True, std_caller)"
proof -
  have u: "[0..<NREGS] = [0, 1, 2, 3, 4, 5, 6, 7, 8, 9, 10, 11, 12, 13, 14, 15, 16]" by (simp add: upt_rec)
  have "e_compat std_env = False" by (simp add: std_env_def)
  then show ?thesis
  unfolding u
  by (simp add: restore_item_def std_items zero_item_def REG_INVALID_False unw_idx_defs restore_reg_read std_words set_reg_def
      slot_def reg_info_def std_frame_def std_caller_def Let_def std_caller_regs)
qed

text \<open>
  C8. The fast path and the slow path agree: on the rules of a standard frame that saves neither the
  stack pointer nor an undefined frame pointer, when both restore the caller's registers they restore
  the same program counter, stack pointer and frame pointer.
\<close>

theorem fast_path_matches_slow:
  assumes "wf_frame f" "wf_state s" "check_standard_frame s"
    "iwhere (rule_of s RBP) \<noteq> Nowhere" "iwhere (rule_of s RSP) \<noteq> Memory"
    "apply_tdep_state (e_ua e) f (tdep_of_state pc ra s) (e_compat e) True = Ok (True, g)"
    "compute_cfa e f s = Ok (Some cfa)"
    "resolve_items f [0..<NREGS] s = Ok (Some s')"
    "restore_items e s' cfa [0..<NREGS] (f, None) = Ok (True, h)"
  shows "UNW_PC g = UNW_PC h \<and> UNW_SP g = UNW_SP h \<and> UNW_BP g = UNW_BP h"
  using assms by (rule fast_slow_agree)

theorem fast_path_matches_slow_witness:
  "\<exists>g h. apply_tdep_state (e_ua std_env) std_frame (tdep_of_state 0x40 16 std_state) False True = Ok (True, g) \<and>
     restore_items std_env std_state 0x90 [0..<NREGS] (std_frame, None) = Ok (True, h) \<and>
     UNW_PC g = UNW_PC h \<and> UNW_SP g = UNW_SP h \<and> UNW_BP g = UNW_BP h"
proof -
  have "wf_frame std_frame" "e_compat std_env = False" by (simp_all add: wf_frame_def std_frame_def PT_REGS_WORDS_def std_env_def)
  then show ?thesis
    using fast_path_matches_slow [of std_frame std_state std_env "0x40" 16 std_caller "0x90" std_state std_caller]
      std_state_wf std_state_eval std_resolve std_apply std_restore by simp
qed

text \<open>
  A backtrace from a program counter that is already 0 returns a variable that was never assigned:
  the loop ends before any step has set the return code.
\<close>

lemma backtrace_from_zero_undefined:
  assumes "get_pc (info c) = 0" "\<not> bt_null bt" "max_entries bt \<noteq> 0"
  shows "unwind_full e c p bt = Fault Uninit"
  using assms by (simp add: unwind_full_def full_loop_done)

end
