(* ===== verification/Step_Spec.thy ===== *)
theory Step_Spec
  imports Frame_Facts
begin

text \<open>
  A step of the unwinder from the instructions in the table to the caller's frame: the programs of
  the CIE and the FDE mean a row of rules, and the step restores the program counter, the stack
  pointer and the frame pointer as that row says.
\<close>

section \<open>The two programs\<close>

definition prog_at :: "kmem \<Rightarrow> addr \<Rightarrow> addr \<Rightarrow> cfa_insn list \<Rightarrow> bool" where
  "prog_at m p q is \<longleftrightarrow>
     bytes_at m p (enc_insns is) \<and> unat q = unat p + length (enc_insns is) \<and>
     length (enc_insns is) \<le> MAX_CFI \<and> list_all ok_insn is"

text \<open>Before the first instruction: every register unchanged, the return address undefined, no CFA.\<close>

definition start_row :: "fde_cie \<Rightarrow> u64 \<Rightarrow> row_machine" where
  "start_row fc startLoc =
     \<lparr>rm_loc = startLoc, rm_code = fc_codeAlign fc, rm_data = fc_dataAlign fc,
      rm_row = \<lparr>row_cfa = CfaRegOff (of_nat NREGS) 1,
                row_rules = replicate UNW_NR_REAL_REGS RSame @ [RUndefined]\<rparr>,
      rm_saved = [], rm_init = replicate NREGS RSame\<rparr>"

text \<open>The row for \<open>pc\<close>: the CIE's instructions, whose rules \<open>DW_CFA_restore\<close> goes back to, then the FDE's.\<close>

definition row_for :: "fde_cie \<Rightarrow> u64 \<Rightarrow> u64 \<Rightarrow> cfa_insn list \<Rightarrow> cfa_insn list \<Rightarrow> row_machine option" where
  "row_for fc startLoc pc ci fi =
     (case exec_insns 0 ci (start_row fc startLoc) of
        None \<Rightarrow> None
      | Some w \<Rightarrow> exec_insns pc fi (w\<lparr>rm_init := row_rules (rm_row w)\<rparr>))"

definition start_state :: "fde_cie \<Rightarrow> u64 \<Rightarrow> unwind_state" where
  "start_state fc startLoc =
     upd_reg_state bad_cfa (initial_rules\<lparr>codeAlign := fc_codeAlign fc, dataAlign := fc_dataAlign fc,
                 stackDepth := 0, loc := startLoc\<rparr>)"

lemma wf_initial: "wf_state (initial_rules\<lparr>codeAlign := a, dataAlign := d, stackDepth := 0, loc := l\<rparr>)"
proof -
  have "wf_state initial_rules"
    by (auto simp: initial_rules_def UNW_NR_REAL_REGS_def)
  then show ?thesis by (simp add: wf_state_def STP_MAX_STACK_DEPTH_def)
qed

lemma wf_start_state: "wf_state (start_state fc startLoc)"
  unfolding start_state_def
  by (rule wf_upd_reg_state [OF wf_initial]) (simp add: wf_reg_state_def bad_cfa_def)

lemma initial_rules_eq: "initial_rules = set_no_state_rule (of_nat 16) Nowhere zero_state"
  by (simp add: initial_rules_def UNW_NR_REAL_REGS_def upt_rec)

lemma abs_zero_state:
  "abs_state zero_state = \<lparr>rm_loc = 0, rm_code = 0, rm_data = 0,
     rm_row = \<lparr>row_cfa = CfaRegOff 0 0, row_rules = replicate NREGS RSame\<rparr>, rm_saved = [],
     rm_init = replicate NREGS RSame\<rparr>"
  by (simp add: abs_state_def abs_row_def REG_STATE_def zero_state_def zero_reg_state_def
      STP_MAX_STACK_DEPTH_def abs_item_def zero_item_def)

lemma abs_initial:
  "abs_state initial_rules = (abs_state zero_state)
     \<lparr>rm_row := \<lparr>row_cfa = CfaRegOff 0 0, row_rules = replicate UNW_NR_REAL_REGS RSame @ [RUndefined]\<rparr>\<rparr>"
proof -
  have "(replicate 17 RSame)[16 := RUndefined] = replicate 16 RSame @ [RUndefined]" by code_simp
  then show ?thesis
    unfolding initial_rules_eq using abs_setters(2) [OF wf_zero_state, of 16]
    by (simp add: set_rule_def abs_zero_state UNW_NR_REAL_REGS_def)
qed

lemma stackDepth_initial: "stackDepth initial_rules = 0"
  by (simp add: initial_rules_eq set_no_state_rule_def upd_item_def upd_reg_state_def zero_state_def)

lemma abs_start_state: "abs_state (start_state fc startLoc) = start_row fc startLoc"
proof -
  let ?s = "initial_rules\<lparr>codeAlign := fc_codeAlign fc, dataAlign := fc_dataAlign fc,
                 stackDepth := 0, loc := startLoc\<rparr>"
  have "abs_state ?s = (abs_state initial_rules)\<lparr>rm_code := fc_codeAlign fc, rm_data := fc_dataAlign fc,
      rm_loc := startLoc\<rparr>"
    by (simp add: abs_state_def REG_STATE_def stackDepth_initial)
  moreover have "abs_row (bad_cfa rs) = (abs_row rs)\<lparr>row_cfa := CfaRegOff (of_nat NREGS) 1\<rparr>"
    if "\<not> cfa_is_expr rs" for rs using that by (simp add: abs_row_def bad_cfa_def)
  moreover have "\<not> cfa_is_expr (REG_STATE ?s)"
    by (simp add: REG_STATE_def initial_rules_eq set_no_state_rule_def upd_item_def upd_reg_state_def
        zero_state_def zero_reg_state_def STP_MAX_STACK_DEPTH_def)
  moreover have "abs_row (REG_STATE ?s) = rm_row (abs_state ?s)" by simp
  ultimately show ?thesis
    unfolding start_state_def abs_upd_reg_state [OF wf_initial]
    by (simp add: abs_initial abs_zero_state start_row_def del: abs_state_sel)
qed

lemma abs_cie_regs:
  "wf_state s \<Longrightarrow> abs_state (s\<lparr>cie_regs := rs_regs (REG_STATE s)\<rparr>) =
     (abs_state s)\<lparr>rm_init := row_rules (rm_row (abs_state s))\<rparr>"
  "wf_state s \<Longrightarrow> wf_state (s\<lparr>cie_regs := rs_regs (REG_STATE s)\<rparr>)"
  using REG_STATE_wf [of s] by (simp_all add: abs_state_def abs_row_def REG_STATE_def wf_state_def wf_reg_state_def)

lemma run_programs_enc:
  assumes "\<not> e_compat e" "prog_at (e_mem e) (fc_cieStart fc) (fc_cieEnd fc) ci"
    "prog_at (e_mem e) (fc_fdeStart fc) (fc_fdeEnd fc) fi"
    "row_for fc startLoc pc ci fi = Some w" "rm_loc w \<le> endLoc"
  shows "\<exists>s. run_programs e fc startLoc endLoc pc = Ok (Some s) \<and> wf_state s \<and> abs_state s = w"
proof -
  obtain w1 where w: "exec_insns 0 ci (start_row fc startLoc) = Some w1"
    "exec_insns pc fi (w1\<lparr>rm_init := row_rules (rm_row w1)\<rparr>) = Some w"
    using assms(4) by (auto simp: row_for_def split: option.splits)
  obtain s1 where 1: "run_cfi_program (cfi_run_args e fc (fc_cieEnd fc) 0) (fc_cieStart fc)
      (start_state fc startLoc) = Ok (True, s1)" "abs_state s1 = w1" "wf_state s1"
    using run_cfi_enc [of "start_state fc startLoc" "cfi_run_args e fc (fc_cieEnd fc) 0" ci "fc_cieStart fc" w1]
      assms(1,2) w(1) by (auto simp: wf_start_state abs_start_state cfi_run_args_def prog_at_def)
  let ?s = "s1\<lparr>cie_regs := rs_regs (REG_STATE s1)\<rparr>"
  obtain s2 where 2: "run_cfi_program (cfi_run_args e fc (fc_fdeEnd fc) pc) (fc_fdeStart fc) ?s = Ok (True, s2)"
    "abs_state s2 = w" "wf_state s2"
    using run_cfi_enc [of ?s "cfi_run_args e fc (fc_fdeEnd fc) pc" fi "fc_fdeStart fc" w]
      assms(1,3) w(2) 1(2) abs_cie_regs [OF 1(3)] by (auto simp: cfi_run_args_def prog_at_def)
  have "loc s2 \<le> endLoc" using assms(5) 2(2) by auto
  then show ?thesis
    using 1(1) 2 unfolding run_programs_def Let_def start_state_def [symmetric] by (simp add: not_less)
qed

section \<open>From the row to the caller\<close>

text \<open>
  The rows of ordinary functions: the CFA at an offset from the stack or frame pointer, the return
  address in the word below it, no rule for the stack pointer, and the frame pointer unchanged or
  saved on the stack.
\<close>

definition std_row :: "row \<Rightarrow> u64 \<Rightarrow> u64 \<Rightarrow> bool" where
  "std_row w r off \<longleftrightarrow>
     row_cfa w = CfaRegOff r off \<and> (r = RBP \<or> r = RSP) \<and>
     row_rules w ! 16 = ROffset (- 8) \<and> row_rules w ! 7 \<in> {RSame, RUndefined} \<and>
     (row_rules w ! 6 = RSame \<or> (\<exists>k. row_rules w ! 6 = ROffset k))"

definition row_bp :: "uaccess \<Rightarrow> u64 \<Rightarrow> row \<Rightarrow> u64 \<Rightarrow> u64 option" where
  "row_bp ua cfa w old =
     (case row_rules w ! 6 of ROffset k \<Rightarrow> read_word ua False (cfa + k) | _ \<Rightarrow> Some old)"

lemma abs_item_cases:
  "abs_item it = RSame \<longleftrightarrow> iwhere it = Same" "abs_item it = RUndefined \<longleftrightarrow> iwhere it = Nowhere"
  "abs_item it = ROffset k \<longleftrightarrow> iwhere it = Memory \<and> istate it = k"
  by (auto simp: abs_item_def split: item_location.splits)

lemma std_row_state:
  assumes "wf_state s" "std_row (abs_row (REG_STATE s)) r off"
  shows "\<not> cfa_is_expr (REG_STATE s)" "cfa_reg (REG_STATE s) = r" "cfa_off (REG_STATE s) = off"
    "r = RBP \<or> r = RSP" "check_standard_frame s" "iwhere (rule_of s UNW_PC_IDX) = Memory"
    "iwhere (rule_of s RSP) \<noteq> Memory"
    "row_bp ua cfa (abs_row (REG_STATE s)) old =
       saved_or ua False cfa (save_tdep_frame (rule_of s RBP)) old"
proof -
  have len: "length (rs_regs (REG_STATE s)) = 17"
    using REG_STATE_wf [OF assms(1)] by (simp add: wf_reg_state_def)
  have i: "rule_of s UNW_PC_IDX = rs_regs (REG_STATE s) ! 16" "rule_of s RSP = rs_regs (REG_STATE s) ! 7"
    "rule_of s RBP = rs_regs (REG_STATE s) ! 6"
    by (simp_all add: rule_of_def unw_idx_defs)
  note d = assms(2) [unfolded std_row_def] len i
  show c: "\<not> cfa_is_expr (REG_STATE s)" "cfa_reg (REG_STATE s) = r" "cfa_off (REG_STATE s) = off"
    "r = RBP \<or> r = RSP" "iwhere (rule_of s UNW_PC_IDX) = Memory" "iwhere (rule_of s RSP) \<noteq> Memory"
    using d by (auto simp: abs_row_def abs_item_cases split: if_splits)
  show "check_standard_frame s"
    using d c by (auto simp: check_standard_frame_def fast_where_def abs_row_def abs_item_cases)
  show "row_bp ua cfa (abs_row (REG_STATE s)) old =
       saved_or ua False cfa (save_tdep_frame (rule_of s RBP)) old"
    using d by (auto simp: row_bp_def abs_row_def abs_item_def saved_or_def save_tdep_frame_def
        split: item_location.splits)
qed

lemma tdep_standard:
  assumes "\<not> e_compat e" "wf_state s" "abs_state s = w" "std_row (rm_row w) r off" "wf_frame f"
    "cfa = regs f ! slot r + off" "read_word (e_ua e) False (cfa - 8) = Some ret"
    "row_bp (e_ua e) cfa (rm_row w) (UNW_BP f) = Some bp"
  shows "apply_tdep_state (e_ua e) f (tdep_of_state pc UNW_PC_IDX s) (e_compat e) True =
      Ok (True, set_reg UNW_PC_IDX ret (set_reg RSP cfa (set_reg RBP bp f)))"
    "check_standard_frame s" "\<not> tlast (tdep_of_state pc UNW_PC_IDX s)"
proof -
  have "std_row (abs_row (REG_STATE s)) r off" using assms(3,4) by auto
  note st = std_row_state [OF assms(2) this]
  let ?t = "tdep_of_state pc UNW_PC_IDX s"
  have bp: "saved_or (e_ua e) False cfa (trbp ?t) (UNW_BP f) = Some bp"
    using assms(3,8) st(8) by (auto simp: tdep_of_state_def)
  have sc: "scast (tdep_reg (tcfa ?t)) = r" "tdep_off (tcfa ?t) = off" "tdep_where (trsp ?t) \<noteq> Memory"
    using scast_reg [OF st(4)] st(2,3,7) by (simp_all add: tdep_of_state_def save_tdep_frame_def)
  have cf: "caller_frame (e_ua e) False ?t f = Some (set_reg UNW_PC_IDX ret (set_reg RSP cfa (set_reg RBP bp f)))"
    using bp assms(6,7) sc by (simp add: caller_frame_def saved_or_def [of _ _ _ "trsp ?t"] Let_def)
  have "unat (scast (tdep_reg (tcfa ?t)) :: u64) < NREGS" using sc(1) st(4) reg_consts_less by auto
  then show "apply_tdep_state (e_ua e) f ?t (e_compat e) True =
      Ok (True, set_reg UNW_PC_IDX ret (set_reg RSP cfa (set_reg RBP bp f)))"
    using apply_tdep_caller [OF assms(5), of ?t "e_ua e" False] cf assms(1) by auto
  show "check_standard_frame s" by (rule st(5))
  show "\<not> tlast ?t" using st(6) by (simp add: tdep_of_state_def)
qed

lemma step_standard:
  assumes "\<not> e_compat e" "sec_size (ehf km) \<noteq> 0" "sec_size (ehf km) AND 3 = 0" "wf_frame (info ctx)"
    "unw_cache_find_entry (e_hash e) cache (get_pc (info ctx)) = None"
    "locate_rules e km (get_pc (info ctx)) = Ok (LFound fc startLoc endLoc)"
    "fc_retAddrReg fc = UNW_PC_IDX"
    "prog_at (e_mem e) (fc_cieStart fc) (fc_cieEnd fc) ci"
    "prog_at (e_mem e) (fc_fdeStart fc) (fc_fdeEnd fc) fi"
    "row_for fc startLoc (get_pc (info ctx)) ci fi = Some w" "rm_loc w \<le> endLoc"
    "std_row (rm_row w) r off" "cfa = regs (info ctx) ! slot r + off"
    "read_word (e_ua e) False (cfa - 8) = Some ret" "row_bp (e_ua e) cfa (rm_row w) (UNW_BP (info ctx)) = Some bp"
  shows "\<exists>ctx' t. unwind_frame_step e km ctx cache =
      Ok (0, ctx', unw_cache_add_entry (e_hash e) (e_alloc e) t cache) \<and> tpc t = get_pc (info ctx) \<and>
    apply_tdep_state (e_ua e) ((info ctx)\<lparr>call_frame := fc_call_frame fc\<rparr>) t (e_compat e) True = Ok (True, info ctx') \<and>
    UNW_PC (info ctx') = ret \<and> UNW_SP (info ctx') = cfa \<and> UNW_BP (info ctx') = bp \<and>
    call_frame (info ctx') = fc_call_frame fc \<and> stub ctx' = stub ctx \<and> wf_frame (info ctx')"
proof -
  obtain s where s: "run_programs e fc startLoc endLoc (get_pc (info ctx)) = Ok (Some s)" "wf_state s"
    "abs_state s = w"
    using run_programs_enc [OF assms(1,8-11)] by blast
  let ?f = "(info ctx)\<lparr>call_frame := fc_call_frame fc\<rparr>"
  let ?t = "tdep_of_state (get_pc (info ctx)) UNW_PC_IDX s"
  let ?g = "set_reg UNW_PC_IDX ret (set_reg RSP cfa (set_reg RBP bp ?f))"
  have wf: "wf_frame ?f" using assms(4) by (simp add: wf_frame_def)
  have h: "cfa = regs ?f ! slot r + off" "row_bp (e_ua e) cfa (rm_row w) (UNW_BP ?f) = Some bp"
    using assms(13,15) by (simp_all add: UNW_BP_def)
  note a = tdep_standard [OF assms(1) s(2,3) assms(12) wf h(1) assms(14) h(2)]
  then have "apply_tdep_state (e_ua e) ?f ?t (e_compat e) True = Ok (True, ?g)" "check_standard_frame s" "\<not> tlast ?t"
    by blast+
  moreover have "tpc ?t = get_pc (info ctx)" by (simp add: tdep_of_state_def)
  ultimately show ?thesis
    using assms(2,3,5-7) s(1) wf
    by (intro exI [of _ "ctx\<lparr>info := ?g, ustate := s\<rparr>"] exI [of _ ?t])
      (simp add: unwind_frame_step_def apply_rules_def Let_def)
qed

end
