(* ===== verification/Unwind_Spec.thy ===== *)
theory Unwind_Spec
  imports Cie_Enc Step_Spec
begin

text \<open>
  From the bytes of a module to the caller's frame: the table of \<^verbatim>\<open>.eh_frame_hdr\<close> leads to an entry of
  \<^verbatim>\<open>.eh_frame\<close>, its checks and its parsing succeed, its programs mean a row of rules, and the step
  restores the caller's registers as that row says.
\<close>

section \<open>An entry and its CIE in a section\<close>

text \<open>
  \<open>entry_at m sec cie fde ...\<close>: the section holds this CIE at \<open>cie\<close> and, behind it, this FDE at \<open>fde\<close>
  that points back to it, each padded to a multiple of four bytes.
\<close>

record fde_entry =
  en_cie :: addr
  en_fde :: addr
  en_ver :: u8
  en_aug :: "aug_item list"
  en_code :: nat
  en_data :: int
  en_ra :: u8
  en_ci :: "u8 list"
  en_ptr :: u32
  en_start :: u64
  en_rng :: u64
  en_lsda :: "u8 list"
  en_fi :: "u8 list"

text \<open>The encoding of its code pointers.\<close>

definition en_type :: "fde_entry \<Rightarrow> u32" where
  "en_type n = code_type (en_aug n)"

definition en_cie_len :: "fde_entry \<Rightarrow> nat" where
  "en_cie_len n = length (cie_body (en_ver n) (en_aug n) (en_code n) (en_data n) (en_ra n) (en_ci n))"

definition en_fde_len :: "fde_entry \<Rightarrow> nat" where
  "en_fde_len n = length (fde_body (en_type n) (en_ptr n) (en_start n) (en_rng n) (en_lsda n) (en_fi n))"

definition entry_at :: "kmem \<Rightarrow> eh_section \<Rightarrow> fde_entry \<Rightarrow> bool" where
  "entry_at m sec n \<longleftrightarrow>
     bytes_at m (en_cie n) (cie_image (en_ver n) (en_aug n) (en_code n) (en_data n) (en_ra n) (en_ci n)) \<and>
     bytes_at m (en_fde n) (fde_image (en_type n) (en_ptr n) (en_start n) (en_rng n) (en_lsda n) (en_fi n)) \<and>
     (en_ver n = 1 \<or> en_ver n = 3) \<and> en_cie n \<noteq> 0 \<and> sec_kbuf sec \<le> en_cie n \<and>
     unat (en_fde n) + 4 = unat (en_cie n) + unat (en_ptr n) \<and> en_ptr n AND 3 = 0 \<and>
     en_ptr n \<noteq> 0xffffffff \<and>
     unat (en_cie n) + 4 + en_cie_len n \<le> unat (en_fde n) \<and>
     (of_nat (en_fde_len n) :: u32) AND 3 = 0 \<and> en_fde_len n < 2 ^ 32 \<and>
     unat (en_fde n) + 4 + en_fde_len n \<le> unat (sec_kbuf sec) + unat (sec_size sec) \<and>
     unat (sec_kbuf sec) + unat (sec_size sec) < 2 ^ 64 \<and>
     en_code n \<noteq> 0 \<and> ok_num (en_code n) \<and> en_data n \<noteq> 0 \<and> ok_int (en_data n) \<and> aug_data (en_aug n) \<noteq> [] \<and>
     fde_ptrs_ok (en_type n) (en_start n) (en_rng n) \<and>
     personality_ok (en_cie n + of_nat (cie_aug_pos (en_ver n) (en_aug n) (en_code n) (en_data n) (en_ra n))) (en_aug n)"

lemma entry_bounds:
  assumes "entry_at m sec n"
  shows "unat (sec_kbuf sec + ucast (sec_size sec)) = unat (sec_kbuf sec) + unat (sec_size sec)"
    "unat (en_cie n + 4 + of_nat (en_cie_len n)) = unat (en_cie n) + 4 + en_cie_len n"
    "unat (en_fde n + 4 + of_nat (en_fde_len n)) = unat (en_fde n) + 4 + en_fde_len n"
    "en_cie_len n < 2 ^ 32" "8 < en_cie_len n" "en_fde n + 4 - ucast (en_ptr n) = en_cie n"
    "7 \<le> en_fde_len n" "unat (en_fde n + 4) = unat (en_fde n) + 4" "en_ptr n \<noteq> 0"
    "en_cie_len n < unat (en_ptr n) - 4" "4 < unat (en_ptr n)"
proof -
  note a = assms [unfolded entry_at_def]
  have ul: "unat (ucast (sec_size sec) :: u64) = unat (sec_size sec)"
    "unat (ucast (en_ptr n) :: u64) = unat (en_ptr n)"
    by (simp_all add: unsigned_ucast_eq take_bit_nat_eq_self_iff less_trans [OF unsigned_less])
  show "unat (sec_kbuf sec + ucast (sec_size sec)) = unat (sec_kbuf sec) + unat (sec_size sec)"
    using unat_add_nowrap [of "sec_kbuf sec" "unat (sec_size sec)"] a by simp
  show "8 < en_cie_len n" "7 \<le> en_fde_len n"
    using uleb_enc_nonempty [of "length (aug_data (en_aug n))"] uleb_enc_nonempty [of "length (en_lsda n)"]
      uleb_enc_nonempty [of "en_code n"] ptr_bytes_nonempty [of False "en_type n" "en_start n"]
      ptr_bytes_nonempty [of False "en_type n" "en_rng n"]
    by (auto simp: en_cie_len_def en_fde_len_def cie_body_def fde_body_def trans_le_add1)
  then show "4 < unat (en_ptr n)" "en_ptr n \<noteq> 0" "en_cie_len n < unat (en_ptr n) - 4"
    using a by auto
  show "en_cie_len n < 2 ^ 32" 
    using \<open>en_cie_len n < unat (en_ptr n) - 4\<close> unsigned_less [of "en_ptr n", where 'a = nat] by simp
  show "unat (en_fde n + 4) = unat (en_fde n) + 4"
    using unat_add_nowrap [of "en_fde n" 4] a by simp
  show "unat (en_fde n + 4 + of_nat (en_fde_len n)) = unat (en_fde n) + 4 + en_fde_len n"
    using unat_add_nowrap [of "en_fde n" "4 + en_fde_len n"] a by (simp add: add.assoc)
  show "unat (en_cie n + 4 + of_nat (en_cie_len n)) = unat (en_cie n) + 4 + en_cie_len n"
    using unat_add_nowrap [of "en_cie n" "4 + en_cie_len n"] a by (simp add: add.assoc)
  have "unat (en_cie n + ucast (en_ptr n)) = unat (en_cie n) + unat (en_ptr n)"
    using unat_add_nowrap [of "en_cie n" "unat (en_ptr n)"] a by simp
  then have "en_cie n + ucast (en_ptr n) = en_fde n + 4"
    using \<open>unat (en_fde n + 4) = unat (en_fde n) + 4\<close> a by (simp add: word_unat_eq_iff)
  then show "en_fde n + 4 - ucast (en_ptr n) = en_cie n" by (metis add_diff_cancel_right')
qed

lemma check_fde_entry:
  assumes "entry_at m sec n"
  shows "check_fde m (en_fde n) (sec_kbuf sec) (sec_size sec) True = Ok True"
proof -
  note a = assms [unfolded entry_at_def] and b = entry_bounds [OF assms]
  have img: "bytes_at m (en_fde n) (w32 (of_nat (en_fde_len n)))" "bytes_at m (en_fde n + 4) (w32 (en_ptr n))"
    using a by (simp_all add: fde_image_def fde_body_def Let_def bytes_at_append en_fde_len_def)
  have l: "(of_nat (en_fde_len n) :: u32) \<noteq> 0"
    using a b(7) by (simp add: word_unat_eq_iff unat_of_nat take_bit_nat_eq_self)
  have "\<not> en_fde n + 4 + of_nat (en_fde_len n) < sec_kbuf sec"
    "\<not> sec_kbuf sec + ucast (sec_size sec) < en_fde n + 4 + of_nat (en_fde_len n)"
    using a b by (simp_all add: word_less_nat_alt word_le_nat_alt)
  then show ?thesis
    using img [THEN load32_w32] l a b(9) u32_length [of "en_fde_len n"]
    by (simp add: check_fde_def has_cie_id_def Let_def)
qed

lemma aligned_div4:
  assumes "(p :: u32) AND 3 = 0"
  shows "4 * (ucast p div 4) = (ucast p :: u64)"
proof -
  have "(3 :: u32) = mask 2" by (simp add: mask_eq_exp_minus_1)
  then have "take_bit 2 p = 0" using assms by (simp add: take_bit_eq_mask)
  then have "take_bit 2 (ucast p :: u64) = 0"
    by (metis take_bit_of_0 unsigned_0 unsigned_take_bit_eq)
  then have "(ucast p :: u64) mod 4 = 0" by (simp add: take_bit_eq_mod)
  then show ?thesis by (metis add.right_neutral mult_div_mod_eq)
qed

lemma cie_for_fde_entry:
  assumes "entry_at m sec n"
  shows "cie_for_fde m (en_fde n) sec True = Ok (en_cie n)"
proof -
  note a = assms [unfolded entry_at_def] and b = entry_bounds [OF assms]
  have ptr: "load32 m (en_fde n + 4) = Ok (en_ptr n)"
    using a by (intro load32_w32) (simp add: fde_image_def fde_body_def Let_def bytes_at_append)
  have ci: "bytes_at m (en_cie n) (cie_image (en_ver n) (en_aug n) (en_code n) (en_data n) (en_ra n) (en_ci n))" using a by simp
  note c = cie_image_bytes [OF ci, folded en_cie_len_def]
  have id: "load32 m (en_cie n + 4) = Ok 0"
    by (rule c(2))
  have up: "unat (ucast (en_ptr n) :: u64) = unat (en_ptr n)"
    by (simp add: unsigned_ucast_eq take_bit_nat_eq_self_iff less_trans [OF unsigned_less])
  have pos: "cie_address (en_fde n) (sec_kbuf sec) (en_ptr n) True = en_cie n"
    using aligned_div4 [of "en_ptr n"] a b(6) by (simp add: cie_address_def)
  have le: "\<not> ucast (en_ptr n) > en_fde n + 4 - sec_kbuf sec"
    using a b(8) up by (simp add: not_less word_le_nat_alt unat_sub) linarith
  have p4: "unat (ucast (en_ptr n) - 4 :: u64) = unat (en_ptr n) - 4"
    using b(11) up by (simp add: unat_sub word_le_nat_alt)
  have ln: "(ucast (of_nat (en_cie_len n) :: u32) :: u64) = of_nat (en_cie_len n)" "unat (of_nat (en_cie_len n) :: u64) = en_cie_len n"
    using u32_length [OF b(4)] b(4) by (simp_all add: unat_of_nat take_bit_nat_eq_self)
  have lens: "\<not> ((of_nat (en_cie_len n) :: u64) \<le> 8 \<or> (of_nat (en_cie_len n) :: u64) \<ge> ucast (en_ptr n) - 4)"
    using b(5,10) p4 ln(2) by (simp add: word_le_nat_alt)
  have inn: "\<not> en_cie n < sec_kbuf sec" "\<not> sec_kbuf sec + ucast (sec_size sec) < en_cie n"
    "\<not> en_cie n + 4 + of_nat (en_cie_len n) < sec_kbuf sec"
    "\<not> sec_kbuf sec + ucast (sec_size sec) < en_cie n + 4 + of_nat (en_cie_len n)"
    using a b by (simp_all add: word_less_nat_alt word_le_nat_alt)
  have "en_ver n = 1 \<or> en_ver n = 3" using a by simp
  then show ?thesis
    using ptr c(1,3) id le lens inn a
    by (auto simp: cie_for_fde_def Let_def pos ln(1) has_cie_id_def)
qed

lemma locate_entry:
  assumes "entry_at (e_mem e) (ehf km) n" "\<not> e_compat e" "gnu_table (e_mem e) km rows"
    "governs km rows pc j" "row_fde km (rows ! j) = en_fde n" "en_fde n \<noteq> 0"
    "fc = image_parsed (en_cie n) (en_fde n) (en_ver n) (en_aug n) (en_code n) (en_data n) (en_ra n) (en_ci n)
       (en_ptr n) (en_start n) (en_rng n) (en_lsda n) (en_fi n)"
    "startLoc = adjust_start_loc (fc_startLoc fc) (en_type n) True km" "startLoc \<noteq> 0"
    "pc \<le> startLoc + en_rng n" "unat (en_ra n) < NREGS"
  shows "locate_rules e km pc = Ok (LFound fc startLoc (startLoc + en_rng n))"
proof -
  note a = assms(1) [unfolded entry_at_def] and b = entry_bounds [OF assms(1)]
  have "stp_search_fde (e_mem e) (e_ua e) pc True True (e_compat e) km = Ok (en_fde n)"
    using search_fde_governs [OF assms(3,4), of "e_ua e" True] assms(2,5) check_fde_entry [OF assms(1)] by simp
  moreover have "parse_fde_cie (e_mem e) (e_ua e) (en_fde n) (en_cie n) True (e_compat e) = Ok (Some fc)"
    using parse_image [of "e_mem e" "en_cie n"] a b(4) assms(2,7) unat_u64_less [of "en_fde n"]
    by (simp add: en_cie_len_def en_fde_len_def en_type_def)
  moreover have "fc_ptrType fc = en_type n" "fc_locRange fc = en_rng n" "fc_retAddrReg fc = ucast (en_ra n)"
    by (simp_all add: assms(7) image_parsed_def Let_def en_type_def)
  moreover have "unat (ucast (en_ra n) :: u64) = unat (en_ra n)"
    by (simp add: unsigned_ucast_eq take_bit_nat_eq_self_iff less_trans [OF unsigned_less])
  ultimately show ?thesis
    using assms(6,8-11) cie_for_fde_entry [OF assms(1)] a reg_width_8 REG_INVALID_False
    by (simp add: locate_rules_def Let_def)
qed

definition en_parsed :: "fde_entry \<Rightarrow> fde_cie" where
  "en_parsed n = image_parsed (en_cie n) (en_fde n) (en_ver n) (en_aug n) (en_code n) (en_data n) (en_ra n) (en_ci n)
       (en_ptr n) (en_start n) (en_rng n) (en_lsda n) (en_fi n)"

definition prog_bytes :: "u8 list \<Rightarrow> cfa_insn list \<Rightarrow> bool" where
  "prog_bytes bs is \<longleftrightarrow> bs = enc_insns is \<and> length bs \<le> MAX_CFI \<and> list_all ok_insn is"

lemma entry_progs:
  assumes "entry_at m sec n" "prog_bytes (en_ci n) ci" "prog_bytes (en_fi n) fi"
  shows "prog_at m (fc_cieStart (en_parsed n)) (fc_cieEnd (en_parsed n)) ci"
    "prog_at m (fc_fdeStart (en_parsed n)) (fc_fdeEnd (en_parsed n)) fi"
proof -
  note a = assms(1) [unfolded entry_at_def] and b = entry_bounds [OF assms(1)]
  define k l where "k = cie_prog_pos (en_ver n) (en_aug n) (en_code n) (en_data n) (en_ra n)"
    and "l = 8 + length (ptr_bytes False (en_type n) (en_start n)) + length (ptr_bytes False (en_type n) (en_rng n)) +
      length (uleb_enc (length (en_lsda n))) + length (en_lsda n)"
  have ci: "bytes_at m (en_cie n) (cie_image (en_ver n) (en_aug n) (en_code n) (en_data n) (en_ra n) (en_ci n))"
    and fi: "bytes_at m (en_fde n) (fde_image (en_type n) (en_ptr n) (en_start n) (en_rng n) (en_lsda n) (en_fi n))" using a by simp_all
  have len: "4 + en_cie_len n = k + length (en_ci n)" "4 + en_fde_len n = l + length (en_fi n)"
    unfolding en_cie_len_def k_def by (rule cie_image_length) (simp add: en_fde_len_def fde_body_def l_def)
  have cb: "bytes_at m (en_cie n + of_nat k) (en_ci n)" unfolding k_def by (rule cie_image_bytes(10) [OF ci])
  have fb: "bytes_at m (en_fde n + of_nat l) (en_fi n)"
    using fi by (simp add: fde_image_def fde_body_def Let_def bytes_at_append l_def algebra_simps)
  have ce: "fc_cieEnd (en_parsed n) = en_cie n + of_nat (4 + en_cie_len n)"
    "fc_cieStart (en_parsed n) = en_cie n + of_nat (4 + en_cie_len n) - of_nat (length (en_ci n))"
    "fc_fdeEnd (en_parsed n) = en_fde n + of_nat (4 + en_fde_len n)"
    "fc_fdeStart (en_parsed n) = en_fde n + of_nat (4 + en_fde_len n) - of_nat (length (en_fi n))"
    by (simp_all add: en_parsed_def image_parsed_def en_cie_len_def en_fde_len_def en_type_def Let_def add.assoc)
  have cs: "fc_cieStart (en_parsed n) = en_cie n + of_nat k" "fc_fdeStart (en_parsed n) = en_fde n + of_nat l"
    unfolding ce(2,4) len by simp_all
  have uc: "unat (en_cie n + of_nat i) = unat (en_cie n) + i" if "i \<le> 4 + en_cie_len n" for i
    using a that unat_u64_less [of "en_fde n"] by (intro unat_add_nowrap) linarith
  have uf: "unat (en_fde n + of_nat i) = unat (en_fde n) + i" if "i \<le> 4 + en_fde_len n" for i
    using a that by (intro unat_add_nowrap) linarith
  have p: "en_ci n = enc_insns ci" "en_fi n = enc_insns fi" using assms(2,3) by (simp_all add: prog_bytes_def)
  have "unat (en_cie n + of_nat (4 + en_cie_len n)) = unat (en_cie n + of_nat k) + length (en_ci n)"
    using uc [of k] uc [of "4 + en_cie_len n"] len(1) by linarith
  then show "prog_at m (fc_cieStart (en_parsed n)) (fc_cieEnd (en_parsed n)) ci"
    unfolding cs(1) ce(1) prog_at_def p(1) [symmetric] using cb assms(2) by (auto simp: prog_bytes_def)
  have "unat (en_fde n + of_nat (4 + en_fde_len n)) = unat (en_fde n + of_nat l) + length (en_fi n)"
    using uf [of l] uf [of "4 + en_fde_len n"] len(2) by linarith
  then show "prog_at m (fc_fdeStart (en_parsed n)) (fc_fdeEnd (en_parsed n)) fi"
    unfolding cs(2) ce(3) prog_at_def p(2) [symmetric] using fb assms(3) by (auto simp: prog_bytes_def)
qed

text \<open>
  The whole step: from the bytes of \<^verbatim>\<open>.eh_frame_hdr\<close> and \<^verbatim>\<open>.eh_frame\<close> to the caller's frame.
  \<open>covers e km rows pc n startLoc\<close>: the table leads \<open>pc\<close> to the entry \<open>n\<close>, whose range holds it.
\<close>

definition covers :: "unw_env \<Rightarrow> kunwind_module \<Rightarrow> (u32 \<times> u32) list \<Rightarrow> u64 \<Rightarrow> fde_entry \<Rightarrow> u64 \<Rightarrow> bool" where
  "covers e km rows pc n startLoc \<longleftrightarrow>
     \<not> e_compat e \<and> sec_size (ehf km) AND 3 = 0 \<and> gnu_table (e_mem e) km rows \<and>
     entry_at (e_mem e) (ehf km) n \<and> en_ra n = 16 \<and>
     (\<exists>j < length rows. governs km rows pc j \<and> row_fde km (rows ! j) = en_fde n) \<and>
     startLoc = adjust_start_loc (fc_startLoc (en_parsed n)) (en_type n) True km \<and> startLoc \<noteq> 0 \<and>
     pc \<le> startLoc + en_rng n"

lemma locate_covers:
  assumes "covers e km rows pc n startLoc"
  shows "locate_rules e km pc = Ok (LFound (en_parsed n) startLoc (startLoc + en_rng n))"
    "sec_size (ehf km) \<noteq> 0" "fc_retAddrReg (en_parsed n) = UNW_PC_IDX"
proof -
  note c = assms [unfolded covers_def]
  have en: "entry_at (e_mem e) (ehf km) n" using c by simp
  obtain j where j: "governs km rows pc j" "row_fde km (rows ! j) = en_fde n" using c by blast
  have f: "en_fde n \<noteq> 0" using entry_bounds(5) [OF en] en by (auto simp: entry_at_def)
  show "locate_rules e km pc = Ok (LFound (en_parsed n) startLoc (startLoc + en_rng n))"
    by (rule locate_entry [OF en _ _ j f en_parsed_def]) (use c in auto)
  show "sec_size (ehf km) \<noteq> 0"
  proof
    assume "sec_size (ehf km) = 0"
    then show False using en by (auto simp: entry_at_def word_le_nat_alt)
  qed
  show "fc_retAddrReg (en_parsed n) = UNW_PC_IDX"
    using c by (simp add: en_parsed_def image_parsed_def Let_def UNW_PC_IDX_def)
qed

lemma unwind_covered:
  assumes "covers e km rows (get_pc (info ctx)) n startLoc" "wf_frame (info ctx)"
    "unw_cache_find_entry (e_hash e) cache (get_pc (info ctx)) = None"
    "prog_bytes (en_ci n) ci" "prog_bytes (en_fi n) fi"
    "row_for (en_parsed n) startLoc (get_pc (info ctx)) ci fi = Some w" "rm_loc w \<le> startLoc + en_rng n"
    "std_row (rm_row w) r off" "cfa = regs (info ctx) ! slot r + off"
    "read_word (e_ua e) False (cfa - 8) = Some ret"
    "row_bp (e_ua e) cfa (rm_row w) (UNW_BP (info ctx)) = Some bp"
  shows "\<exists>ctx' t. unwind_frame_step e km ctx cache =
      Ok (0, ctx', unw_cache_add_entry (e_hash e) (e_alloc e) t cache) \<and> tpc t = get_pc (info ctx) \<and>
    apply_tdep_state (e_ua e) ((info ctx)\<lparr>call_frame := AugS \<notin> set (en_aug n)\<rparr>) t (e_compat e) True = Ok (True, info ctx') \<and>
    UNW_PC (info ctx') = ret \<and> UNW_SP (info ctx') = cfa \<and> UNW_BP (info ctx') = bp \<and>
    (call_frame (info ctx') \<longleftrightarrow> AugS \<notin> set (en_aug n)) \<and> stub ctx' = stub ctx \<and> wf_frame (info ctx')"
proof -
  have en: "entry_at (e_mem e) (ehf km) n" and c: "\<not> e_compat e" "sec_size (ehf km) AND 3 = 0"
    using assms(1) by (simp_all add: covers_def)
  note l = locate_covers [OF assms(1)]
  have cf: "fc_call_frame (en_parsed n) \<longleftrightarrow> AugS \<notin> set (en_aug n)" by (simp add: en_parsed_def image_parsed_def Let_def)
  show ?thesis
    using step_standard [OF c(1) l(2) c(2) assms(2,3) l(1,3) entry_progs [OF en assms(4,5)] assms(6-11)]
    unfolding cf by auto
qed

lemma cie_for_fde_pos:
  assumes "cie_for_fde m fde sec True = Ok cie" "cie \<noteq> 0" "load32 m (fde + 4) = Ok ptr"
  obtains len where "load32 m cie = Ok len" "cie = fde + 4 - ucast ptr" "sec_kbuf sec \<le> cie"
    "ucast ptr \<le> fde + 4 - sec_kbuf sec" "(8 :: u64) < ucast len" "(ucast len :: u64) < ucast ptr - 4"
    "cie + 4 + ucast len \<le> sec_kbuf sec + ucast (sec_size sec)" "ptr AND 3 = 0"
  using assms
  by (auto simp: cie_for_fde_def Let_def rbind_eq_Ok cie_address_def aligned_div4 not_less not_le split: if_splits)

end
