(* ===== verification/Modules.thy ===== *)
theory Modules
  imports Unwind_Spec "HOL-Library.Multiset"
begin

text \<open>
  Loading the unwind information of a process, from \<^verbatim>\<open>src/modules.c\<close>, \<^verbatim>\<open>src/iterate_phdr.c\<close> and
  \<open>eh_frame_from_hdr\<close> of \<^verbatim>\<open>src/unwind.c\<close>. What the kernel does for the loader is a parameter: the
  lookup of a mapping, the pages it pins, the addresses \<open>vmap\<close> returns, whether \<open>kmalloc\<close> succeeds.
  The pages and mappings that are held are kept in multisets, so that a leak or a second release
  shows.
\<close>

section \<open>The extent of .eh\_frame\<close>

definition ENOMEM :: int where "ENOMEM = 12"

text \<open>
  The loop of \<open>eh_frame_from_hdr\<close> over the lengths of the entries, from \<open>ptr\<close>; \<open>None\<close> is \<open>-EINVAL\<close>.
  It ends because the pointer must grow.
\<close>

function eh_extent :: "kmem \<Rightarrow> u64 \<Rightarrow> u64 \<Rightarrow> addr \<Rightarrow> addr \<Rightarrow> u64 option res" where
  "eh_extent m avail vma_end eh ptr =
     rbind (load32 m ptr) (\<lambda>w.
     rbind (if w = 0xffffffff then rbind (load64 m (ptr + 4)) (\<lambda>d. Ok (d, ptr + 4 + 8))
            else Ok (ucast w, ptr + 4)) (\<lambda>(n, p).
       let ptr' = p + n; eh_len = ptr' - eh
       in if eh_len + avail > vma_end then Ok None
          else if ptr' \<le> ptr then Ok None
          else if n = 0 then Ok (Some eh_len)
          else eh_extent m avail vma_end eh ptr'))"
  by pat_completeness auto
termination
  by (relation "measure (\<lambda>(m, avail, vma_end, eh, ptr). 2 ^ 64 - unat ptr)")
    (auto simp: word_le_nat_alt not_le intro!: diff_less_mono2 less_le_trans [OF unat_u64_less])

declare eh_extent.simps [simp del]

text \<open>\<open>avail\<close> above is \<open>vma_start + hdr_addr\<close>; the section is unchanged on an error.\<close>

definition eh_frame_from_hdr ::
  "kmem \<Rightarrow> uaccess \<Rightarrow> addr \<Rightarrow> u64 \<Rightarrow> u64 \<Rightarrow> bool \<Rightarrow> eh_section \<Rightarrow> eh_section \<Rightarrow> (int \<times> eh_section) res" where
  "eh_frame_from_hdr m ua base vma_start vma_end compat_task hdr sec =
     rbind (load8 m (sec_kbuf hdr + 1)) (\<lambda>enc.
     rbind (read_ptr_sect m ua (sec_kbuf hdr + 4) (sec_kbuf hdr + ucast (sec_size hdr)) (ucast enc)
              vma_start (sec_offset hdr) True compat_task (- 1)) (\<lambda>(eh, _).
     rbind (eh_extent m (vma_start + sec_offset hdr) vma_end eh eh) (\<lambda>r.
       case r of
         None \<Rightarrow> Ok (- EINVAL, sec)
       | Some eh_len \<Rightarrow>
           let eh_off = eh - base
           in Ok (0, \<lparr>sec_offset = eh_off, sec_ubuf = sec_ubuf hdr - sec_offset hdr + eh_off,
                      sec_kbuf = eh, sec_size = ucast eh_len\<rparr>))))"

section \<open>Loading one object\<close>

record load_info =
  obj_addr :: u64
  eh_frame_hdr_ubuf :: u64
  eh_frame_hdr_size :: u64
  eh_frame_addr :: u64
  eh_frame_size :: u64
  li_dynamic :: bool
  li_path :: "u8 list"   \<comment> \<open>\<open>LINFO_PATHLEN\<close> bytes\<close>

definition LINFO_PATHLEN :: nat where "LINFO_PATHLEN = 60"

text \<open>Held resources: pinned pages, mappings, and allocations (page arrays and modules).\<close>

record kres =
  pinned :: "nat multiset"
  vmaps :: "addr multiset"
  allocs :: nat

text \<open>\<open>k_pages\<close> is \<open>__get_user_pages_unlocked\<close>: an error code or the pages it pinned.\<close>

record kern =
  k_mem :: kmem
  k_ua :: uaccess
  k_find_vma :: "addr \<Rightarrow> vm_area option"
  k_kmalloc :: "kres \<Rightarrow> bool"
  k_pages :: "addr \<Rightarrow> nat \<Rightarrow> int + nat list"
  k_vmap :: "nat list \<Rightarrow> addr"
  k_get_user :: "addr \<Rightarrow> int + u64"

definition take_pages :: "nat list \<Rightarrow> kres \<Rightarrow> kres" where
  "take_pages ps k = k\<lparr>pinned := pinned k + mset ps\<rparr>"

definition put_pages :: "nat list \<Rightarrow> kres \<Rightarrow> kres" where
  "put_pages ps k = k\<lparr>pinned := pinned k - mset ps\<rparr>"

definition kalloc :: "kres \<Rightarrow> kres" where "kalloc k = k\<lparr>allocs := allocs k + 1\<rparr>"
definition kfree :: "kres \<Rightarrow> kres" where "kfree k = k\<lparr>allocs := allocs k - 1\<rparr>"
definition kvmap :: "addr \<Rightarrow> kres \<Rightarrow> kres" where "kvmap a k = k\<lparr>vmaps := add_mset a (vmaps k)\<rparr>"
definition kvunmap :: "addr \<Rightarrow> kres \<Rightarrow> kres" where "kvunmap a k = k\<lparr>vmaps := vmaps k - {#a#}\<rparr>"

lemmas kres_defs = take_pages_def put_pages_def kalloc_def kfree_def kvmap_def kvunmap_def

definition vma_pages :: "vm_area \<Rightarrow> nat" where
  "vma_pages v = unat (drop_bit 12 (vm_end v - vm_start v))"

text \<open>The sections of a module: the header at its user address, and the frame where it is given.\<close>

definition hdr_section :: "load_info \<Rightarrow> vm_area \<Rightarrow> addr \<Rightarrow> eh_section" where
  "hdr_section li v vmap_addr =
     (let off = eh_frame_hdr_ubuf li - vm_start v
      in \<lparr>sec_offset = off, sec_ubuf = eh_frame_hdr_ubuf li, sec_kbuf = vmap_addr + off,
          sec_size = ucast (eh_frame_hdr_size li)\<rparr>)"

definition given_section :: "load_info \<Rightarrow> vm_area \<Rightarrow> addr \<Rightarrow> eh_section" where
  "given_section li v vmap_addr =
     (let off = eh_frame_addr li - vm_start v
      in \<lparr>sec_offset = off, sec_ubuf = eh_frame_addr li, sec_kbuf = vmap_addr + off,
          sec_size = ucast (eh_frame_size li)\<rparr>)"

definition no_section :: eh_section where
  "no_section = \<lparr>sec_offset = 0, sec_ubuf = 0, sec_kbuf = 0, sec_size = 0\<rparr>"

text \<open>
  After \<open>vmap\<close>: the sections, then the comparison of the header's first word as the task and as the
  kernel sees it. Every failure leaves through \<open>out_vunmap\<close>; a mismatch does so with the code 0.
\<close>

definition fill_module ::
  "kern \<Rightarrow> load_info \<Rightarrow> bool \<Rightarrow> vm_area \<Rightarrow> nat list \<Rightarrow> addr \<Rightarrow> (int \<times> kunwind_module option \<times> bool) res" where
  "fill_module kn li compat_task v ps a =
     (let hdr = hdr_section li v a
      in rbind (if eh_frame_addr li \<noteq> 0 \<and> eh_frame_size li \<noteq> 0 then Ok (0, given_section li v a)
                else eh_frame_from_hdr (k_mem kn) (k_ua kn) a (vm_start v) (vm_end v) compat_task hdr no_section)
           (\<lambda>(res, sec).
             if res \<noteq> 0 then Ok (res, None, False)
             else case k_get_user kn (eh_frame_hdr_ubuf li) of
                 Inl err \<Rightarrow> Ok (err, None, False)
               | Inr test \<Rightarrow>
                   rbind (load64 (k_mem kn) (sec_kbuf hdr)) (\<lambda>w.
                     Ok (0, Some \<lparr>elf_vma = v, elf_vmap = a, mod_pages = ps, npages = length ps,
                                  ehf_hdr = hdr, ehf = sec, is_dynamic = li_dynamic li\<rparr>, test = w))))"

text \<open>
  The return code, the module when its fields are set, and the resources held. A task address
  without a mapping dereferences the null pointer \<open>find_vma\<close> returned.
\<close>

definition init_kunwind_stp_module ::
  "kern \<Rightarrow> load_info \<Rightarrow> bool \<Rightarrow> kres \<Rightarrow> (int \<times> kunwind_module option \<times> kres) res" where
  "init_kunwind_stp_module kn li compat_task k =
     (case k_find_vma kn (eh_frame_hdr_ubuf li) of
        None \<Rightarrow> Fault (BadRead 0)
      | Some v \<Rightarrow>
          if \<not> k_kmalloc kn k then Ok (- ENOMEM, None, k)
          else case k_pages kn (vm_start v) (vma_pages v) of
              Inl err \<Rightarrow> Ok (err, None, kfree (kalloc k))
            | Inr ps \<Rightarrow>
                let k1 = take_pages ps (kalloc k); a = k_vmap kn ps
                in if a = 0 then Ok (int (length ps), None, kfree (put_pages ps k1))
                   else let k2 = kvmap a k1; released = kfree (put_pages ps (kvunmap a k2))
                        in rbind (fill_module kn li compat_task v ps a) (\<lambda>(res, km, same).
                             Ok (res, km, if km \<noteq> None \<and> same then k2 else released)))"

definition close_kunwind_stp_module :: "kunwind_module \<Rightarrow> kres \<Rightarrow> kres" where
  "close_kunwind_stp_module km k =
     kfree (put_pages (take (npages km) (mod_pages km)) (kvunmap (elf_vmap km) k))"

section \<open>The modules of a process\<close>

text \<open>\<open>init_proc_unwind_info\<close> on an allocated structure; \<open>NULL\<close> is \<open>-EINVAL\<close>.\<close>

definition init_proc_unwind_info :: "bool \<Rightarrow> bool \<Rightarrow> int \<times> kunwind_proc_modules option" where
  "init_proc_unwind_info null compat_task =
     (if null then (- EINVAL, None)
      else (0, Some \<lparr>stp_modules = [], unw_cache = unw_cache_init, mods_compat = compat_task\<rparr>))"

text \<open>Every module is closed, unlinked and freed, the cache is cleared, and the structure is freed.\<close>

fun close_all :: "kunwind_module list \<Rightarrow> kres \<Rightarrow> kres" where
  "close_all [] k = k"
| "close_all (km # kms) k = close_all kms (kfree (close_kunwind_stp_module km k))"

definition release_unwind_info :: "kunwind_proc_modules \<Rightarrow> kres \<Rightarrow> kunwind_proc_modules \<times> kres" where
  "release_unwind_info mods k =
     (mods\<lparr>stp_modules := [], unw_cache := unw_cache_clear (unw_cache mods)\<rparr>,
      kfree (close_all (stp_modules mods) k))"

definition PT_DYNAMIC :: u32 where "PT_DYNAMIC = 2"
definition PT_GNU_EH_FRAME :: u32 where "PT_GNU_EH_FRAME = 0x6474e550"

record elf_phdr =
  p_type :: u32
  p_vaddr :: u64
  p_memsz :: u64

text \<open>The loop over the program headers: the last header entry before both were found.\<close>

fun scan_phdrs :: "elf_phdr list \<Rightarrow> elf_phdr option \<Rightarrow> bool \<Rightarrow> elf_phdr option \<times> bool" where
  "scan_phdrs [] eh dyn = (eh, dyn)"
| "scan_phdrs (h # hs) eh dyn =
     (let (eh, dyn) = (if p_type h = PT_GNU_EH_FRAME then (Some h, dyn)
                       else if p_type h = PT_DYNAMIC then (eh, True) else (eh, dyn))
      in if eh \<noteq> None \<and> dyn then (eh, dyn) else scan_phdrs hs eh dyn)"

text \<open>The segment that \<open>add_module\<close> fills: zero but for four fields.\<close>

definition phdr_linfo :: "u64 \<Rightarrow> elf_phdr \<Rightarrow> bool \<Rightarrow> load_info" where
  "phdr_linfo base h dyn =
     \<lparr>obj_addr = base, eh_frame_hdr_ubuf = base + p_vaddr h, eh_frame_hdr_size = p_memsz h,
      eh_frame_addr = 0, eh_frame_size = 0, li_dynamic = dyn, li_path = replicate LINFO_PATHLEN 0\<rparr>"

text \<open>A loaded module goes to the tail of the list; a module that does not load is skipped.\<close>

definition add_module ::
  "kern \<Rightarrow> u64 \<Rightarrow> elf_phdr list \<Rightarrow> kunwind_proc_modules \<Rightarrow> kres \<Rightarrow>
   (int \<times> kunwind_proc_modules \<times> kres) res" where
  "add_module kn base hs mods k =
     (case scan_phdrs hs None False of
        (None, _) \<Rightarrow> Ok (0, mods, k)
      | (Some h, dyn) \<Rightarrow>
          if \<not> k_kmalloc kn k then Ok (- ENOMEM, mods, k)
          else rbind (init_kunwind_stp_module kn (phdr_linfo base h dyn) (mods_compat mods) (kalloc k))
            (\<lambda>(err, km, k').
              if err \<noteq> 0 then Ok (0, mods, kfree k')
              else case km of
                  None \<Rightarrow> Fault Uninit
                | Some km \<Rightarrow> Ok (0, mods\<lparr>stp_modules := stp_modules mods @ [km]\<rparr>, k')))"

text \<open>
  \<open>iterate_phdr\<close> with \<open>add_module\<close> as its callback: what the first page of a mapping holds is a
  parameter, and the page is unmapped and put back before the next. Only the first mapping tried
  has the base 0.
\<close>

record elf_page =
  e_ident :: "u8 list"
  e_phdrs :: "elf_phdr list"

datatype first_page = PinError | VmapError | PageAt elf_page

definition elf_magic :: "u8 list \<Rightarrow> bool" where
  "elf_magic mg \<longleftrightarrow> mg ! 0 = 0x7f \<and> mg ! 1 = 0x45 \<and> mg ! 2 = 0x4c \<and> mg ! 3 = 0x46"

fun iterate_phdr ::
  "(vm_area \<Rightarrow> first_page) \<Rightarrow> kern \<Rightarrow> bool \<Rightarrow> vm_area list \<Rightarrow> kunwind_proc_modules \<Rightarrow> kres \<Rightarrow>
   (int \<times> kunwind_proc_modules \<times> kres) res" where
  "iterate_phdr page kn first [] mods k = Ok (0, mods, k)"
| "iterate_phdr page kn first (v # vs) mods k =
     (if vm_pgoff v \<noteq> 0 then iterate_phdr page kn first vs mods k
      else case page v of
          PinError \<Rightarrow> iterate_phdr page kn first vs mods k
        | VmapError \<Rightarrow> iterate_phdr page kn False vs mods k
        | PageAt pg \<Rightarrow>
            if \<not> elf_magic (e_ident pg) then iterate_phdr page kn False vs mods k
            else rbind (add_module kn (if first then 0 else vm_start v) (e_phdrs pg) mods k)
              (\<lambda>(res, mods, k).
                if res \<noteq> 0 then Ok (res, mods, k) else iterate_phdr page kn False vs mods k))"

definition init_modules_from_task ::
  "(vm_area \<Rightarrow> first_page) \<Rightarrow> kern \<Rightarrow> vm_area list option \<Rightarrow> kunwind_proc_modules \<Rightarrow> kres \<Rightarrow>
   (int \<times> kunwind_proc_modules \<times> kres) res" where
  "init_modules_from_task page kn mm mods k =
     (case mm of None \<Rightarrow> Ok (- EINVAL, mods, k) | Some vs \<Rightarrow> iterate_phdr page kn True vs mods k)"

text \<open>The allocation is not checked here: its failure is a store through the null pointer.\<close>

fun init_modules_from_proc_info ::
  "kern \<Rightarrow> load_info list \<Rightarrow> kunwind_proc_modules \<Rightarrow> kres \<Rightarrow>
   (int \<times> kunwind_proc_modules \<times> kres) res" where
  "init_modules_from_proc_info kn [] mods k = Ok (0, mods, k)"
| "init_modules_from_proc_info kn (li # lis) mods k =
     (if \<not> k_kmalloc kn k then Fault (BadRead 0)
      else rbind (init_kunwind_stp_module kn li (mods_compat mods) (kalloc k)) (\<lambda>(err, km, k').
        if err \<noteq> 0 then Ok (err, mods, kfree k')
        else case km of
            None \<Rightarrow> Fault Uninit
          | Some km \<Rightarrow>
              init_modules_from_proc_info kn lis (mods\<lparr>stp_modules := stp_modules mods @ [km]\<rparr>) k'))"

text \<open>A backtrace of the current task starts from its saved registers, in both frames.\<close>

definition do_current_unwind ::
  "unw_env \<Rightarrow> u64 list \<Rightarrow> kunwind_proc_modules \<Rightarrow> kunwind_backtrace \<Rightarrow>
   (int \<times> unwind_context \<times> kunwind_proc_modules \<times> kunwind_backtrace) res" where
  "do_current_unwind e pt_regs mods bt =
     (let zero = \<lparr>regs = replicate PT_REGS_WORDS 0, call_frame = False\<rparr>;
          f = arch_unw_init_frame_info zero (RegsPtr pt_regs) False
      in unwind_full e \<lparr>info = f, stub = f, ustate = zero_state\<rparr> mods bt)"

section \<open>Resources\<close>

text \<open>\<open>holds km k k'\<close>: \<open>k'\<close> is \<open>k\<close> with what a loaded module holds on top.\<close>

definition holds :: "kunwind_module \<Rightarrow> kres \<Rightarrow> kres \<Rightarrow> bool" where
  "holds km k k' \<longleftrightarrow>
     k' = kvmap (elf_vmap km) (take_pages (mod_pages km) (kalloc k)) \<and> npages km = length (mod_pages km)"

lemma put_take [simp]: "put_pages ps (take_pages ps k) = k" "kfree (kalloc k) = k"
  "kvunmap a (kvmap a k) = k"
  by (simp_all add: kres_defs)

lemma put_kvunmap [simp]: "put_pages ps (kvunmap a k) = kvunmap a (put_pages ps k)"
  "put_pages ps (kvmap a k) = kvmap a (put_pages ps k)"
  by (simp_all add: kres_defs)

lemma fill_module_some:
  assumes "fill_module kn li c v ps a = Ok (res, Some km, same)"
  shows "res = 0 \<and> elf_vma km = v \<and> elf_vmap km = a \<and> mod_pages km = ps \<and> npages km = length ps \<and>
    ehf_hdr km = hdr_section li v a"
  using assms
  by (cases "k_get_user kn (eh_frame_hdr_ubuf li)")
    (auto simp: fill_module_def Let_def rbind_eq_Ok split: if_splits)

lemma fill_module_compares:
  assumes "fill_module kn li c v ps a = Ok (res, Some km, same)"
  shows "\<exists>t w. k_get_user kn (eh_frame_hdr_ubuf li) = Inr t \<and>
    load64 (k_mem kn) (a + (eh_frame_hdr_ubuf li - vm_start v)) = Ok w \<and> (same \<longleftrightarrow> t = w)"
  using assms
  by (cases "k_get_user kn (eh_frame_hdr_ubuf li)")
    (auto simp: fill_module_def Let_def rbind_eq_Ok hdr_section_def split: if_splits)

lemma init_module_fields:
  assumes "eh_frame_hdr_ubuf li = eh_frame_hdr_ubuf li'" "eh_frame_hdr_size li = eh_frame_hdr_size li'"
    "li_dynamic li = li_dynamic li'" "eh_frame_addr li = 0 \<or> eh_frame_size li = 0"
    "eh_frame_addr li' = 0 \<or> eh_frame_size li' = 0"
  shows "init_kunwind_stp_module kn li c k = init_kunwind_stp_module kn li' c k"
proof -
  have "(eh_frame_addr li \<noteq> 0 \<and> eh_frame_size li \<noteq> 0) = False" "(eh_frame_addr li' \<noteq> 0 \<and> eh_frame_size li' \<noteq> 0) = False"
    using assms(4,5) by blast+
  then have f: "fill_module kn li = fill_module kn li'"
    by (intro ext) (simp only: fill_module_def hdr_section_def Let_def assms(1-3) if_False)
  show ?thesis unfolding init_kunwind_stp_module_def assms(1) f ..
qed

lemma init_module_resources:
  assumes "init_kunwind_stp_module kn li c k = Ok (err, km, k')"
  shows "k' = k \<or> err = 0 \<and> (\<exists>m. km = Some m \<and> holds m k k')"
  using assms
  by (auto simp: init_kunwind_stp_module_def holds_def Let_def rbind_eq_Ok
      split: option.splits sum.splits if_splits dest!: fill_module_some)

lemma init_module_error:
  assumes "init_kunwind_stp_module kn li c k = Ok (err, km, k')" "err \<noteq> 0"
  shows "k' = k"
  using init_module_resources [OF assms(1)] assms(2) by blast

lemma close_holds: "holds km k k' \<Longrightarrow> close_kunwind_stp_module km k' = k"
  by (simp add: holds_def close_kunwind_stp_module_def)


text \<open>
  \<open>held kms k k'\<close>: \<open>k'\<close> is \<open>k\<close> with what the modules \<open>kms\<close> hold, each with its own allocation.
  \<open>same_view kn\<close>: wherever \<open>init_kunwind_stp_module\<close> maps the pages of the mapping that \<open>find_vma\<close> gives for an
  address of the task, and both the task's word there and the word at the same offset from the kernel's
  view are readable, the two words agree.
\<close>

definition held :: "kunwind_module list \<Rightarrow> kres \<Rightarrow> kres \<Rightarrow> bool" where
  "held kms k k' \<longleftrightarrow>
     (\<forall>km \<in> set kms. npages km = length (mod_pages km)) \<and>
     pinned k' = pinned k + mset (concat (map mod_pages kms)) \<and>
     vmaps k' = vmaps k + mset (map elf_vmap kms) \<and> allocs k' = allocs k + 2 * length kms"

definition same_view :: "kern \<Rightarrow> bool" where
  "same_view kn \<longleftrightarrow>
     (\<forall>u v ps t w. k_find_vma kn u = Some v \<longrightarrow> k_pages kn (vm_start v) (vma_pages v) = Inr ps \<longrightarrow>
        k_vmap kn ps \<noteq> 0 \<longrightarrow> k_get_user kn u = Inr t \<longrightarrow>
        load64 (k_mem kn) (k_vmap kn ps + (u - vm_start v)) = Ok w \<longrightarrow> w = t)"

lemma held_Nil: "held [] k k" by (simp add: held_def)

lemma held_add:
  assumes "held kms k k1" "holds km (kalloc k1) k2"
  shows "held (kms @ [km]) k k2"
  using assms by (auto simp: held_def holds_def kres_defs)

lemma held_kalloc: "held kms k k1 \<Longrightarrow> held kms k (kfree (kalloc k1))"
  by simp

lemma close_all_held: "held kms k k' \<Longrightarrow> close_all kms k' = k"
proof (induction kms arbitrary: k')
  case (Cons km kms)
  have "held kms k (kfree (close_kunwind_stp_module km k'))"
    using Cons.prems by (simp add: held_def close_kunwind_stp_module_def kres_defs)
  then show ?case using Cons.IH by simp
qed (simp add: held_def)

lemma init_module_held:
  assumes "same_view kn" "init_kunwind_stp_module kn li c (kalloc k) = Ok (0, Some km, k')"
  shows "holds km (kalloc k) k'"
proof -
  obtain v ps same where v: "k_find_vma kn (eh_frame_hdr_ubuf li) = Some v"
    "k_pages kn (vm_start v) (vma_pages v) = Inr ps" "k_vmap kn ps \<noteq> 0"
    and f: "fill_module kn li c v ps (k_vmap kn ps) = Ok (0, Some km, same)"
    "k' = (if same then kvmap (k_vmap kn ps) (take_pages ps (kalloc (kalloc k))) else kalloc k)"
    using assms(2)
    by (auto simp: init_kunwind_stp_module_def Let_def rbind_eq_Ok split: option.splits sum.splits if_splits)
  obtain t w where "k_get_user kn (eh_frame_hdr_ubuf li) = Inr t"
    "load64 (k_mem kn) (k_vmap kn ps + (eh_frame_hdr_ubuf li - vm_start v)) = Ok w" "same \<longleftrightarrow> t = w"
    using fill_module_compares [OF f(1)] by blast
  then have "same" using assms(1) v unfolding same_view_def by blast
  then show ?thesis using f fill_module_some [OF f(1)] by (simp add: holds_def)
qed

lemma from_proc_info_held:
  assumes "same_view kn" "held (stp_modules mods) k0 k"
    "init_modules_from_proc_info kn lis mods k = Ok (err, mods', k')"
  shows "held (stp_modules mods') k0 k'"
  using assms(2,3)
proof (induction lis arbitrary: mods k)
  case (Cons li lis)
  obtain err1 km k1 where i: "k_kmalloc kn k"
    "init_kunwind_stp_module kn li (mods_compat mods) (kalloc k) = Ok (err1, km, k1)"
    using Cons.prems(2) by (auto simp: rbind_eq_Ok split: if_splits)
  show ?case
  proof (cases "err1 = 0")
    case True
    then obtain m where m: "km = Some m"
      "init_modules_from_proc_info kn lis (mods\<lparr>stp_modules := stp_modules mods @ [m]\<rparr>) k1 = Ok (err, mods', k')"
      using Cons.prems(2) i by (auto split: option.splits)
    then show ?thesis
      using Cons.IH [of "mods\<lparr>stp_modules := stp_modules mods @ [m]\<rparr>" k1]
        held_add [OF Cons.prems(1) init_module_held [OF assms(1)]] i(2) True by simp
  next
    case False
    then show ?thesis
      using Cons.prems i init_module_error [OF i(2)] by simp
  qed
qed simp

lemma add_module_held:
  assumes "same_view kn" "held (stp_modules mods) k0 k" "add_module kn base hs mods k = Ok (err, mods', k')"
  shows "held (stp_modules mods') k0 k'"
proof -
  obtain eh dyn where sc: "scan_phdrs hs None False = (eh, dyn)" by fastforce
  show ?thesis
  proof (cases "eh = None \<or> \<not> k_kmalloc kn k")
    case True
    then show ?thesis using assms(2,3) sc by (auto simp: add_module_def split: option.splits if_splits)
  next
    case False
    then obtain h err1 km k1 where i: "eh = Some h"
      "init_kunwind_stp_module kn (phdr_linfo base h dyn) (mods_compat mods) (kalloc k) = Ok (err1, km, k1)"
      using assms(3) sc by (auto simp: add_module_def rbind_eq_Ok)
    then show ?thesis
      using assms(2,3) sc False init_module_error [OF i(2)] init_module_held [OF assms(1)]
        held_add [OF assms(2)]
      by (auto simp: add_module_def split: option.splits if_splits)
  qed
qed

lemma iterate_phdr_held:
  assumes "same_view kn" "held (stp_modules mods) k0 k"
    "iterate_phdr page kn first vs mods k = Ok (err, mods', k')"
  shows "held (stp_modules mods') k0 k'"
  using assms(2,3)
proof (induction vs arbitrary: first mods k)
  case (Cons v vs)
  show ?case
  proof (cases "vm_pgoff v \<noteq> 0 \<or> (case page v of PageAt pg \<Rightarrow> \<not> elf_magic (e_ident pg) | _ \<Rightarrow> True)")
    case True
    then show ?thesis using Cons by (auto split: if_splits first_page.splits)
  next
    case False
    then obtain pg where pg: "page v = PageAt pg" "elf_magic (e_ident pg)" by (auto split: first_page.splits)
    obtain res m1 k1 where a: "add_module kn (if first then 0 else vm_start v) (e_phdrs pg) mods k = Ok (res, m1, k1)"
      using Cons.prems(2) False pg by (auto simp: rbind_eq_Ok)
    note h = add_module_held [OF assms(1) Cons.prems(1) a]
    show ?thesis using Cons.IH [OF h] Cons.prems(2) False pg a h by (auto split: if_splits)
  qed
qed simp

text \<open>
  \<open>phdr_objs page first vs\<close>: the objects that \<open>iterate_phdr\<close> hands to its callback, each with its base and its
  program headers; the walk is the callback on each, until one returns another code than 0.
\<close>

fun phdr_objs :: "(vm_area \<Rightarrow> first_page) \<Rightarrow> bool \<Rightarrow> vm_area list \<Rightarrow> (u64 \<times> elf_phdr list) list" where
  "phdr_objs page first [] = []"
| "phdr_objs page first (v # vs) =
     (if vm_pgoff v \<noteq> 0 \<or> page v = PinError then phdr_objs page first vs
      else case page v of
          PageAt pg \<Rightarrow> (if elf_magic (e_ident pg) then [(if first then 0 else vm_start v, e_phdrs pg)] else []) @
            phdr_objs page False vs
        | _ \<Rightarrow> phdr_objs page False vs)"

fun add_objs ::
  "kern \<Rightarrow> (u64 \<times> elf_phdr list) list \<Rightarrow> kunwind_proc_modules \<Rightarrow> kres \<Rightarrow>
   (int \<times> kunwind_proc_modules \<times> kres) res" where
  "add_objs kn [] mods k = Ok (0, mods, k)"
| "add_objs kn ((base, hs) # obs) mods k =
     rbind (add_module kn base hs mods k) (\<lambda>(res, mods, k).
       if res \<noteq> 0 then Ok (res, mods, k) else add_objs kn obs mods k)"

lemma iterate_phdr_objs: "iterate_phdr page kn first vs mods k = add_objs kn (phdr_objs page first vs) mods k"
  by (induction vs arbitrary: first mods k) (auto split: first_page.splits intro!: rbind_cong)

section \<open>The extent of a terminated table\<close>

text \<open>The entries of \<^verbatim>\<open>.eh_frame\<close> behind their lengths, and the zero that ends them.\<close>

fun eh_image :: "u8 list list \<Rightarrow> u8 list" where
  "eh_image [] = w32 0"
| "eh_image (b # bs) = w32 (of_nat (length b)) @ b @ eh_image bs"

text \<open>
  The outcome of the walk over such a table: it finds the end, unless the length so far, counted from \<open>avail\<close>,
  goes past \<open>vma_end\<close>.
\<close>

lemma eh_extent_image:
  assumes "bytes_at m ptr (eh_image bs)" "\<forall>b \<in> set bs. b \<noteq> [] \<and> length b < 0xffffffff"
    "unat ptr + length (eh_image bs) < 2 ^ 64" "eh \<le> ptr"
    "unat ptr - unat eh + length (eh_image bs) + unat avail < 2 ^ 64"
  shows "eh_extent m avail vma_end eh ptr =
    Ok (if unat ptr - unat eh + length (eh_image bs) + unat avail \<le> unat vma_end
        then Some (ptr - eh + of_nat (length (eh_image bs))) else None)"
  using assms
proof (induction bs arbitrary: ptr)
  case Nil
  have u: "unat (ptr + 4) = unat ptr + 4" using unat_add_nowrap [of ptr 4] Nil.prems(3) by simp
  have le: "unat (ptr + 4 - eh) = unat ptr - unat eh + 4"
    using u Nil.prems(4) by (simp add: unat_sub word_le_nat_alt)
  then have "unat (ptr + 4 - eh + avail) = unat ptr - unat eh + 4 + unat avail"
    using unat_add_nowrap [of "ptr + 4 - eh" "unat avail"] Nil.prems(5) by simp
  then have "vma_end < ptr + 4 - eh + avail \<longleftrightarrow> \<not> unat ptr - unat eh + 4 + unat avail \<le> unat vma_end"
    "\<not> ptr + 4 \<le> ptr"
    using u by (auto simp: word_less_nat_alt word_le_nat_alt)
  then have "eh_extent m avail vma_end eh ptr =
      Ok (if unat ptr - unat eh + 4 + unat avail \<le> unat vma_end then Some (ptr + 4 - eh) else None)"
    using load32_w32 [of m ptr 0] Nil.prems(1)
    by (simp add: eh_extent.simps [of m avail vma_end eh ptr] Let_def)
  then show ?case by (simp add: diff_add_eq)
next
  case (Cons b bs)
  define n where "n = length b"
  let ?p = "ptr + 4 + of_nat n"
  have n: "0 < n" "n < 0xffffffff" using Cons.prems(2) by (simp_all add: n_def)
  have by4: "bytes_at m ptr (w32 (of_nat n))" "bytes_at m ?p (eh_image bs)"
    using Cons.prems(1) by (simp_all add: bytes_at_append n_def)
  have u: "unat ?p = unat ptr + 4 + n"
    using unat_add_nowrap [of ptr "4 + n"] Cons.prems(3) by (simp add: n_def add.assoc)
  have le: "unat (?p - eh) = unat ptr - unat eh + 4 + n"
    using u Cons.prems(4) by (simp add: unat_sub word_le_nat_alt)
  then have "unat (?p - eh + avail) = unat ptr - unat eh + 4 + n + unat avail"
    using unat_add_nowrap [of "?p - eh" "unat avail"] Cons.prems(5) by (simp add: n_def)
  then have c: "vma_end < ?p - eh + avail \<longleftrightarrow> unat vma_end < unat ptr - unat eh + 4 + n + unat avail" "\<not> ?p \<le> ptr"
    using u by (simp_all add: word_less_nat_alt word_le_nat_alt)
  have w: "(of_nat n :: u32) \<noteq> 0xffffffff" "(of_nat n :: u64) \<noteq> 0" "(ucast (of_nat n :: u32) :: u64) = of_nat n"
    using n u32_length [of n] by (simp_all add: word_unat_eq_iff unat_of_nat take_bit_nat_eq_self)
  have "eh_extent m avail vma_end eh ptr =
      (if vma_end < ?p - eh + avail then Ok None else eh_extent m avail vma_end eh ?p)"
    using load32_w32 [OF by4(1)] w c(2) by (simp add: eh_extent.simps [of m avail vma_end eh ptr] Let_def)
  moreover have "eh_extent m avail vma_end eh ?p =
      Ok (if unat ?p - unat eh + length (eh_image bs) + unat avail \<le> unat vma_end
          then Some (?p - eh + of_nat (length (eh_image bs))) else None)"
    using Cons.prems(2-5) u by4(2) by (intro Cons.IH) (auto simp: n_def word_le_nat_alt)
  moreover have "unat ?p - unat eh + length (eh_image bs) = unat ptr - unat eh + length (eh_image (b # bs))"
    using u Cons.prems(4) by (simp add: n_def word_le_nat_alt)
  moreover have "?p - eh + of_nat (length (eh_image bs)) = ptr - eh + of_nat (length (eh_image (b # bs)))"
    by (simp add: n_def algebra_simps)
  ultimately show ?case using c(1) by (auto simp: n_def)
qed

section \<open>Properties\<close>

lemma scan_phdrs_found: "scan_phdrs hs (Some h) False = (r, d) \<Longrightarrow>
    \<forall>g \<in> set hs. p_type g \<noteq> PT_GNU_EH_FRAME \<Longrightarrow> r = Some h \<and> d = (\<exists>g \<in> set hs. p_type g = PT_DYNAMIC)"
  by (induction hs) (auto simp: Let_def split: if_splits)

lemma scan_phdrs_dyn: "scan_phdrs hs None True = (r, d) \<Longrightarrow> \<exists>g \<in> set hs. p_type g = PT_GNU_EH_FRAME \<Longrightarrow>
    d \<and> (\<exists>g \<in> set hs. p_type g = PT_GNU_EH_FRAME \<and> r = Some g)"
  by (induction hs) (auto simp: Let_def split: if_splits)

lemma scan_phdrs_unique:
  assumes "filter (\<lambda>g. p_type g = PT_GNU_EH_FRAME) hs = [h]"
  shows "scan_phdrs hs None False = (Some h, \<exists>g \<in> set hs. p_type g = PT_DYNAMIC)"
  using assms
proof (induction hs)
  case (Cons g hs)
  consider "p_type g = PT_GNU_EH_FRAME" | "p_type g = PT_DYNAMIC" "p_type g \<noteq> PT_GNU_EH_FRAME"
    | "p_type g \<noteq> PT_GNU_EH_FRAME" "p_type g \<noteq> PT_DYNAMIC" by blast
  then show ?case
  proof cases
    case 1
    then have "g = h" "\<forall>g \<in> set hs. p_type g \<noteq> PT_GNU_EH_FRAME"
      using Cons.prems by (simp_all add: filter_empty_conv)
    then show ?thesis
      using 1 scan_phdrs_found [of hs h] by (cases "scan_phdrs hs (Some h) False") (auto simp: PT_GNU_EH_FRAME_def PT_DYNAMIC_def)
  next
    case 2
    then have f: "filter (\<lambda>g. p_type g = PT_GNU_EH_FRAME) hs = [h]" using Cons.prems by simp
    have "\<exists>g \<in> set hs. p_type g = PT_GNU_EH_FRAME" "\<And>g. g \<in> set hs \<Longrightarrow> p_type g = PT_GNU_EH_FRAME \<Longrightarrow> g = h"
      using arg_cong [OF f, of set] by auto
    then show ?thesis
      using 2 scan_phdrs_dyn [of hs] by (cases "scan_phdrs hs None True") auto
  qed (use Cons in auto)
qed simp

text \<open>
  A kernel that maps one mapping \<open>v\<close> of a task at the address \<open>a\<close>: what it sees there are the bytes of the
  task's memory \<open>um\<close>, and \<open>get_user\<close> reads a word of that memory or fails with \<open>-EFAULT\<close>.
\<close>

definition user_word :: "kmem \<Rightarrow> addr \<Rightarrow> int + u64" where
  "user_word um u = (case load64 um u of Ok w \<Rightarrow> Inr w | Fault f \<Rightarrow> Inl (- 14))"

definition view_kern :: "kmem \<Rightarrow> uaccess \<Rightarrow> vm_area \<Rightarrow> addr \<Rightarrow> kern" where
  "view_kern um ua v a = \<lparr>k_mem = (\<lambda>x. um (x + (vm_start v - a))), k_ua = ua, k_find_vma = (\<lambda>_. Some v),
     k_kmalloc = (\<lambda>_. True), k_pages = (\<lambda>_ n. Inr [0..<n]), k_vmap = (\<lambda>_. a), k_get_user = user_word um\<rparr>"

lemma load_bytes_shift: "load_bytes (\<lambda>x. m (x + d)) a n = Ok bs \<longleftrightarrow> load_bytes m (a + d) n = Ok bs"
proof (induction n arbitrary: a bs)
  case (Suc n)
  have "load8 (\<lambda>x. m (x + d)) a = Ok b \<longleftrightarrow> load8 m (a + d) = Ok b" for b
    by (simp add: load8_def split: option.splits)
  then show ?case using Suc.IH [of "a + 1"] by (simp add: rbind_eq_Ok add.commute add.left_commute)
qed simp

lemma load64_shift: "load64 (\<lambda>x. m (x + d)) a = Ok w \<longleftrightarrow> load64 m (a + d) = Ok w"
  by (simp add: load64_def load_le_def rbind_eq_Ok load_bytes_shift)

lemma same_view_view_kern: "same_view (view_kern um ua v a)"
  by (auto simp: same_view_def view_kern_def load64_shift user_word_def split: res.splits)

text \<open>A task with a header at \<open>0x400100\<close> in two pages, its kernel, the information on the object and its module.\<close>

definition ex_user :: kmem where
  "ex_user = (\<lambda>a. if 0x400000 \<le> a \<and> a < 0x402000 then Some 0 else None) ++
     mem_of 0x400100 [1, 0x1b, 3, 0x3b, 0xfc, 0, 0, 0]"

definition ex_kern :: kern where
  "ex_kern = view_kern ex_user \<lparr>access_ok = (\<lambda>_ _ _. False), get_user = (\<lambda>_ _. None)\<rparr>
     \<lparr>vm_start = 0x400000, vm_end = 0x402000, vm_pgoff = 0\<rparr> 0x10000"

definition ex_linfo :: load_info where
  "ex_linfo = \<lparr>obj_addr = 0x400000, eh_frame_hdr_ubuf = 0x400100, eh_frame_hdr_size = 36,
     eh_frame_addr = 0x400200, eh_frame_size = 52, li_dynamic = True,
     li_path = replicate LINFO_PATHLEN 0\<rparr>"

definition ex_loaded :: kunwind_module where
  "ex_loaded = \<lparr>elf_vma = \<lparr>vm_start = 0x400000, vm_end = 0x402000, vm_pgoff = 0\<rparr>, elf_vmap = 0x10000,
     mod_pages = [0, 1], npages = 2,
     ehf_hdr = \<lparr>sec_offset = 0x100, sec_ubuf = 0x400100, sec_kbuf = 0x10100, sec_size = 36\<rparr>,
     ehf = \<lparr>sec_offset = 0x200, sec_ubuf = 0x400200, sec_kbuf = 0x10200, sec_size = 52\<rparr>, is_dynamic = True\<rparr>"

lemma same_view_ex_kern: "same_view ex_kern"
  unfolding ex_kern_def by (rule same_view_view_kern)

lemma ex_user_word: "\<exists>w. load64 ex_user 0x400100 = Ok w"
proof -
  have "load_bytes ex_user 0x400100 (Suc (Suc (Suc (Suc (Suc (Suc (Suc (Suc 0)))))))) = Ok [1, 0x1b, 3, 0x3b, 0xfc, 0, 0, 0]"
    by (simp add: ex_user_def mem_of_def map_add_def)
  then show ?thesis by (simp add: load64_def load_le_def numeral_eq_Suc)
qed

lemma ex_fill: "fill_module ex_kern ex_linfo c
    \<lparr>vm_start = 0x400000, vm_end = 0x402000, vm_pgoff = 0\<rparr> [0, 1] 0x10000 = Ok (0, Some ex_loaded, True)"
proof -
  obtain w where w: "load64 ex_user 0x400100 = Ok w" using ex_user_word by blast
  then have "load64 (k_mem ex_kern) 0x10100 = Ok w"
    unfolding ex_kern_def view_kern_def by (simp add: load64_shift)
  moreover have "k_get_user ex_kern 0x400100 = Inr w" using w by (simp add: ex_kern_def view_kern_def user_word_def)
  ultimately show ?thesis
    by (simp add: fill_module_def ex_linfo_def hdr_section_def given_section_def ex_loaded_def Let_def)
qed

text \<open>
  C29. The extent of \<^verbatim>\<open>.eh_frame\<close>, exactly: from a header with a pc-relative pointer to a table of entries
  that a zero length ends, \<open>eh_frame_from_hdr\<close> returns 0 and the section from the first entry to the end
  of the zero if the length of the table fits between the header and the end of the mapping, and
  \<open>-EINVAL\<close> with the section unchanged if it does not. The bound counts the length of the table from the
  offset of the header (\<open>eh_len + vma_start + hdr_addr > vma_end\<close>) and not from where the table begins,
  so that a table that lies before its header and inside the mapping is refused when it is longer than
  what the mapping holds behind the header.
\<close>

theorem eh_frame_located:
  assumes "m (sec_kbuf hdr + 1) = Some 0x1b" "bytes_at m (sec_kbuf hdr + 4) (w32 off)"
    "8 \<le> unat (sec_size hdr)" "unat (sec_kbuf hdr) + unat (sec_size hdr) < 2 ^ 64"
    "eh = scast off + (sec_kbuf hdr + 4)" "bytes_at m eh (eh_image bs)"
    "\<forall>b \<in> set bs. b \<noteq> [] \<and> length b < 0xffffffff" "unat eh + length (eh_image bs) < 2 ^ 64"
    "length (eh_image bs) + unat (vma_start + sec_offset hdr) < 2 ^ 64"
  shows "eh_frame_from_hdr m ua base vma_start vma_end False hdr sec =
    Ok (if length (eh_image bs) + unat (vma_start + sec_offset hdr) \<le> unat vma_end
        then (0, \<lparr>sec_offset = eh - base, sec_ubuf = sec_ubuf hdr - sec_offset hdr + (eh - base), sec_kbuf = eh,
                  sec_size = of_nat (length (eh_image bs))\<rparr>)
        else (- EINVAL, sec))"
proof -
  have "unat (ucast (sec_size hdr) :: u64) = unat (sec_size hdr)"
    by (simp add: unsigned_ucast_eq take_bit_nat_eq_self_iff less_trans [OF unsigned_less])
  then have u: "unat (sec_kbuf hdr + ucast (sec_size hdr)) = unat (sec_kbuf hdr) + unat (sec_size hdr)"
    "unat (sec_kbuf hdr + 4) = unat (sec_kbuf hdr) + 4" "unat (sec_kbuf hdr + 4 + 4) = unat (sec_kbuf hdr) + 8"
    using assms(3,4) unat_add_nowrap [of "sec_kbuf hdr" "unat (sec_size hdr)"] unat_add_nowrap [of "sec_kbuf hdr" 4]
      unat_add_nowrap [of "sec_kbuf hdr" 8] by (simp_all add: add.assoc)
  have "read_fixed m (sec_kbuf hdr + 4) (sec_kbuf hdr + ucast (sec_size hdr)) 4 True = Ok (Some (scast off, sec_kbuf hdr + 8))"
    using read_fixed_w32 [OF assms(2)] u assms(3,4) by (simp add: word_le_nat_alt add.assoc)
  then have r: "read_ptr_sect m ua (sec_kbuf hdr + 4) (sec_kbuf hdr + ucast (sec_size hdr)) (ucast (0x1b :: u8))
      vma_start (sec_offset hdr) True False (- 1) = Ok (eh, sec_kbuf hdr + 8)"
    by (simp add: read_ptr_sect_def read_form_def DW_EH_PE_defs adjust_ptr_def assms(5))
  have x: "eh_extent m (vma_start + sec_offset hdr) vma_end eh eh =
      Ok (if length (eh_image bs) + unat (vma_start + sec_offset hdr) \<le> unat vma_end
          then Some (of_nat (length (eh_image bs))) else None)"
    using eh_extent_image [OF assms(6-8) order_refl, of "vma_start + sec_offset hdr" vma_end] assms(9) by simp
  have "(ucast (of_nat (length (eh_image bs)) :: u64) :: u32) = of_nat (length (eh_image bs))"
    by (rule bit_word_eqI) (simp add: bit_simps)
  moreover have "load8 m (sec_kbuf hdr + 1) = Ok 0x1b" using assms(1) by simp
  ultimately show ?thesis
    unfolding eh_frame_from_hdr_def
    by (cases "length (eh_image bs) + unat (vma_start + sec_offset hdr) \<le> unat vma_end")
      (simp_all only: rbind.simps r prod.case x option.case Let_def if_True if_False)
qed

theorem eh_frame_located_witness:
  "eh_frame_from_hdr (mem_of 0x100 [1, 0x1b, 3, 0x3b, 4, 0, 0, 0, 4, 0, 0, 0, 1, 2, 3, 4, 0, 0, 0, 0])
     \<lparr>access_ok = (\<lambda>_ _ _. False), get_user = (\<lambda>_ _. None)\<rparr> 0x80 0x400000 0x401000 False
     \<lparr>sec_offset = 0x80, sec_ubuf = 0x400080, sec_kbuf = 0x100, sec_size = 8\<rparr> no_section =
   Ok (0, \<lparr>sec_offset = 0x88, sec_ubuf = 0x400088, sec_kbuf = 0x108, sec_size = 12\<rparr>) \<and>
   eh_frame_from_hdr (mem_of 0x100 [4, 0, 0, 0, 1, 2, 3, 4, 0, 0, 0, 0, 1, 0x1b, 3, 0x3b, 0xf0, 0xff, 0xff, 0xff])
     \<lparr>access_ok = (\<lambda>_ _ _. False), get_user = (\<lambda>_ _. None)\<rparr> 0x80 0x400000 0x400094 False
     \<lparr>sec_offset = 0x8c, sec_ubuf = 0x40008c, sec_kbuf = 0x10c, sec_size = 8\<rparr> no_section = Ok (- EINVAL, no_section)"
proof -
  let ?m = "mem_of 0x100 [1, 0x1b, 3, 0x3b, 4, 0, 0, 0, 4, 0, 0, 0, 1, 2, 3, 4, 0, 0, 0, 0]"
  let ?n = "mem_of 0x100 [4, 0, 0, 0, 1, 2, 3, 4, 0, 0, 0, 0, 1, 0x1b, 3, 0x3b, 0xf0, 0xff, 0xff, 0xff]"
  let ?ua = "\<lparr>access_ok = (\<lambda>_ _ _. False), get_user = (\<lambda>_ _. None)\<rparr> :: uaccess"
  have "bytes_at ?m 0x104 (w32 4)" "bytes_at ?m 0x108 (eh_image [[1, 2, 3, 4]])"
    by (simp_all add: w32_def mem_of_def)
  then have "eh_frame_from_hdr ?m ?ua 0x80 0x400000 0x401000 False
      \<lparr>sec_offset = 0x80, sec_ubuf = 0x400080, sec_kbuf = 0x100, sec_size = 8\<rparr> no_section =
    Ok (0, \<lparr>sec_offset = 0x88, sec_ubuf = 0x400088, sec_kbuf = 0x108, sec_size = 12\<rparr>)"
    using eh_frame_located [of ?m "\<lparr>sec_offset = 0x80, sec_ubuf = 0x400080, sec_kbuf = 0x100, sec_size = 8\<rparr>" 4 "0x108"
        "[[1, 2, 3, 4]]" "0x400000" ?ua "0x80" "0x401000" no_section]
    by (simp add: mem_of_def)
  moreover have n: "?n (0x10c + 1) = Some 0x1b" "bytes_at ?n (0x10c + 4) (w32 0xfffffff0)"
    "bytes_at ?n 0x100 (eh_image [[1, 2, 3, 4]])" "scast (0xfffffff0 :: u32) + (0x10c + 4) = (0x100 :: addr)"
    by (simp_all add: w32_def mem_of_def)
  have "eh_frame_from_hdr ?n ?ua 0x80 0x400000 0x400094 False
      \<lparr>sec_offset = 0x8c, sec_ubuf = 0x40008c, sec_kbuf = 0x10c, sec_size = 8\<rparr> no_section = Ok (- EINVAL, no_section)"
    by (subst eh_frame_located [where off = "0xfffffff0" and eh = "0x100" and bs = "[[1, 2, 3, 4]]"]) (use n in \<open>simp_all add: w32_def\<close>)
  ultimately show ?thesis by blast
qed

text \<open>
  A header that the kernel does not see as the task does: the loader releases the pages and the mapping
  it has taken, but returns 0, so that the module is put on the list of the process without them.
\<close>

lemma mismatched_header_listed:
  assumes "k_find_vma kn (eh_frame_hdr_ubuf li) = Some v" "k_kmalloc kn k" "k_kmalloc kn (kalloc k)"
    "k_pages kn (vm_start v) (vma_pages v) = Inr ps" "k_vmap kn ps \<noteq> 0"
    "fill_module kn li (mods_compat mods) v ps (k_vmap kn ps) = Ok (0, Some km, False)"
  shows "init_modules_from_proc_info kn [li] mods k =
    Ok (0, mods\<lparr>stp_modules := stp_modules mods @ [km]\<rparr>, kalloc k)"
  using assms by (simp add: init_kunwind_stp_module_def Let_def)

end
