(* ===== verification/Kunwind_Debug.thy ===== *)
theory Kunwind_Debug
  imports Modules
begin

text \<open>
  The device \<^verbatim>\<open>/proc/kunwind_debug\<close> of \<^verbatim>\<open>src/kunwind-debug.c\<close>: the registry of processes, opening and
  releasing a file, the two ioctls and the stack trace hook. The state is the registry, the live
  \<open>kunwind_proc_modules\<close> objects by address, the \<open>private_data\<close> of each open file and the resources
  the modules hold.
\<close>

section \<open>State\<close>

definition EBUSY :: int where "EBUSY = 16"
definition EFAULT :: int where "EFAULT = 14"
definition ENOIOCTLCMD :: int where "ENOIOCTLCMD = 515"
definition entries_limit :: u32 where "entries_limit = 128"

definition KUNWIND_PROC_INFO_IOCTL :: u32 where "KUNWIND_PROC_INFO_IOCTL = 0xF691"
definition KUNWIND_UNWIND_IOCTL :: u32 where "KUNWIND_UNWIND_IOCTL = 0xF692"

type_synonym pid = int
type_synonym map_hash = "pid \<Rightarrow> 3 word"

record kunw_map_val =
  mv_tgid :: pid
  mv_mods :: addr

record world =
  kunw_map :: "kunw_map_val chains"
  objs :: "addr \<Rightarrow> kunwind_proc_modules option"
  private_data :: "nat \<Rightarrow> addr"
  wres :: kres

section \<open>The registry\<close>

definition kunwind_process_find :: "map_hash \<Rightarrow> kunw_map_val chains \<Rightarrow> pid \<Rightarrow> kunw_map_val option" where
  "kunwind_process_find h t tgid = find (\<lambda>v. tgid = mv_tgid v) (t ! unat (h tgid))"

text \<open>The two changes of the table; a process that has an entry keeps it.\<close>

definition kunwind_process_link :: "map_hash \<Rightarrow> kunw_map_val \<Rightarrow> kunw_map_val chains \<Rightarrow> kunw_map_val chains" where
  "kunwind_process_link h v t =
     (case kunwind_process_find h t (mv_tgid v) of Some _ \<Rightarrow> t | None \<Rightarrow> ht_add h mv_tgid v t)"

definition kunwind_process_unlink :: "map_hash \<Rightarrow> pid \<Rightarrow> kunw_map_val chains \<Rightarrow> kunw_map_val chains" where
  "kunwind_process_unlink h tgid t =
     (case kunwind_process_find h t tgid of None \<Rightarrow> t | Some _ \<Rightarrow> ht_del h mv_tgid tgid t)"

text \<open>
  \<open>node\<close>: \<open>kzalloc\<close> has memory for the entry; its result is not checked, and the entry is filled through
  the null pointer otherwise.
\<close>

definition kunwind_process_register :: "map_hash \<Rightarrow> bool \<Rightarrow> kunw_map_val \<Rightarrow> world \<Rightarrow> world res" where
  "kunwind_process_register h node v w =
     (case kunwind_process_find h (kunw_map w) (mv_tgid v) of
        Some _ \<Rightarrow> Ok w
      | None \<Rightarrow>
          if \<not> node then Fault (BadRead 0)
          else Ok (w\<lparr>kunw_map := kunwind_process_link h v (kunw_map w), wres := kalloc (wres w)\<rparr>))"

text \<open>
  Unregistering also releases the process's modules and frees them. The entry that it takes out of the
  table is not freed.
\<close>

definition kunwind_process_unregister :: "map_hash \<Rightarrow> pid \<Rightarrow> world \<Rightarrow> world res" where
  "kunwind_process_unregister h tgid w =
     (case kunwind_process_find h (kunw_map w) tgid of
        None \<Rightarrow> Ok w
      | Some v \<Rightarrow>
         (case objs w (mv_mods v) of
            None \<Rightarrow> Fault Freed
          | Some mods \<Rightarrow>
              Ok (w\<lparr>kunw_map := kunwind_process_unlink h tgid (kunw_map w),
                    objs := (objs w)(mv_mods v := None),
                    wres := snd (release_unwind_info mods (wres w))\<rparr>)))"

section \<open>Open and release\<close>

text \<open>\<open>p\<close> is what \<open>kmalloc\<close> returns, 0 for \<open>NULL\<close>; \<open>pid\<close> is \<open>current->pid\<close>.\<close>

definition kunwind_debug_open ::
  "map_hash \<Rightarrow> addr \<Rightarrow> bool \<Rightarrow> bool \<Rightarrow> pid \<Rightarrow> nat \<Rightarrow> world \<Rightarrow> (int \<times> world) res" where
  "kunwind_debug_open h p node compat_task pid file w =
     (case kunwind_process_find h (kunw_map w) pid of
        Some _ \<Rightarrow> Ok (- EBUSY, w)
      | None \<Rightarrow>
          if p = 0 then Ok (- ENOMEM, w)
          else (case init_proc_unwind_info (p = 0) compat_task of
              (ret, None) \<Rightarrow> Ok (ret, w)
            | (ret, Some mods) \<Rightarrow>
                rbind (kunwind_process_register h node \<lparr>mv_tgid = pid, mv_mods = p\<rparr>
                         (w\<lparr>objs := (objs w)(p \<mapsto> mods), wres := kalloc (wres w)\<rparr>)) (\<lambda>w.
                  Ok (ret, w\<lparr>private_data := (private_data w)(file := p)\<rparr>))))"

definition kunwind_debug_release :: "map_hash \<Rightarrow> pid \<Rightarrow> nat \<Rightarrow> world \<Rightarrow> (int \<times> world) res" where
  "kunwind_debug_release h pid file w =
     rbind (kunwind_process_unregister h pid w) (\<lambda>w'.
       Ok (0, w'\<lparr>private_data := (private_data w')(file := 0)\<rparr>))"

section \<open>Ioctls\<close>

text \<open>The object behind a file: a pointer to freed memory is a fault.\<close>

definition file_mods :: "nat \<Rightarrow> world \<Rightarrow> kunwind_proc_modules res" where
  "file_mods file w = (case objs w (private_data w file) of None \<Rightarrow> Fault Freed | Some mods \<Rightarrow> Ok mods)"

definition set_mods :: "nat \<Rightarrow> kunwind_proc_modules \<Rightarrow> kres \<Rightarrow> world \<Rightarrow> world" where
  "set_mods file mods k w =
     w\<lparr>objs := (objs w)(private_data w file \<mapsto> mods), wres := k\<rparr>"

text \<open>
  The user's argument of the first ioctl: \<open>NULL\<close>, a size that cannot be read, no memory for the
  copy, a copy that fails, one that is too short for the number of segments, or that number and the segments
  that are in the copy.
\<close>

datatype proc_info_arg =
  PINull | PISizeFault | PINoMem | PICopyFault | PIShort | PICopied nat "load_info list"

definition kunwind_init_ioctl ::
  "(vm_area \<Rightarrow> first_page) \<Rightarrow> kern \<Rightarrow> vm_area list option \<Rightarrow> nat \<Rightarrow> world \<Rightarrow> (int \<times> world) res" where
  "kunwind_init_ioctl page kn mm file w =
     rbind (file_mods file w) (\<lambda>mods.
     rbind (init_modules_from_task page kn mm mods (wres w)) (\<lambda>(r, mods, k). Ok (r, set_mods file mods k w)))"

definition kunwind_proc_info_ioctl ::
  "(vm_area \<Rightarrow> first_page) \<Rightarrow> kern \<Rightarrow> vm_area list option \<Rightarrow> proc_info_arg \<Rightarrow> nat \<Rightarrow> world \<Rightarrow> (int \<times> world) res" where
  "kunwind_proc_info_ioctl page kn mm arg file w =
     (case arg of
        PINull \<Rightarrow> kunwind_init_ioctl page kn mm file w
      | PISizeFault \<Rightarrow> Ok (- EFAULT, w)
      | PINoMem \<Rightarrow> Ok (- ENOMEM, w)
      | PICopyFault \<Rightarrow> Ok (- EFAULT, w)
      | PIShort \<Rightarrow> Fault BadIndex
      | PICopied n lis \<Rightarrow>
          rbind (file_mods file w) (\<lambda>mods.
          rbind (init_modules_from_proc_info kn (take n lis) mods (wres w)) (\<lambda>(r, mods, k).
            if r = 0 \<and> length lis < n then Fault BadIndex else Ok (r, set_mods file mods k w))))"

text \<open>
  The user's \<open>kunwind_backtrace\<close>: the number of entries it asks for (or an unreadable one), and
  whether the two stores back to it succeed. The result is the code and, on success, the entries.
\<close>

record bt_arg =
  ba_max :: "u32 option"
  ba_put_nr :: bool
  ba_copy :: bool

definition kunwind_backtrace_ioctl ::
  "unw_env \<Rightarrow> bool \<Rightarrow> u64 list \<Rightarrow> bt_arg \<Rightarrow> nat \<Rightarrow> world \<Rightarrow> (int \<times> u64 list option \<times> world) res" where
  "kunwind_backtrace_ioctl e alloc_ok pt_regs ba file w =
     (case ba_max ba of
        None \<Rightarrow> Ok (- EFAULT, None, w)
      | Some mx \<Rightarrow>
          if mx = 0 then Ok (- EINVAL, None, w)
          else if \<not> alloc_ok then Ok (- ENOMEM, None, w)
          else rbind (file_mods file w) (\<lambda>mods.
            rbind (do_current_unwind e pt_regs mods
                     \<lparr>max_entries = min mx entries_limit, nr_entries = 0, bt_entries = [], bt_null = False\<rparr>)
              (\<lambda>(ret, _, mods, bt).
                let w = set_mods file mods (wres w) w
                in Ok (if ret \<noteq> 0 then (- EFAULT, None, w)
                       else if \<not> ba_put_nr ba then (- EFAULT, None, w)
                       else if \<not> ba_copy ba then (- EFAULT, None, w)
                       else (0, Some (bt_entries bt), w)))))"

text \<open>The hook for kernel stack traces: nothing happens for a process that is not registered.\<close>

definition save_stack_trace_kunwind ::
  "map_hash \<Rightarrow> unw_env \<Rightarrow> u64 list \<Rightarrow> pid \<Rightarrow> kunwind_backtrace \<Rightarrow> world \<Rightarrow> (kunwind_backtrace \<times> world) res" where
  "save_stack_trace_kunwind h e pt_regs pid trace w =
     (case kunwind_process_find h (kunw_map w) pid of
        None \<Rightarrow> Ok (trace, w)
      | Some v \<Rightarrow>
         (case objs w (mv_mods v) of
            None \<Rightarrow> Fault Freed
          | Some mods \<Rightarrow>
              rbind (do_current_unwind e pt_regs mods trace) (\<lambda>(_, _, mods, bt).
                Ok (bt, w\<lparr>objs := (objs w)(mv_mods v \<mapsto> mods)\<rparr>))))"

text \<open>The dispatch on the command; the argument is read as the command says.\<close>

definition kunwind_debug_ioctl ::
  "(vm_area \<Rightarrow> first_page) \<Rightarrow> kern \<Rightarrow> vm_area list option \<Rightarrow> unw_env \<Rightarrow> bool \<Rightarrow> u64 list \<Rightarrow>
   u32 \<Rightarrow> proc_info_arg \<Rightarrow> bt_arg \<Rightarrow> nat \<Rightarrow> world \<Rightarrow> (int \<times> u64 list option \<times> world) res" where
  "kunwind_debug_ioctl page kn mm e alloc_ok pt_regs cmd pi ba file w =
     (if cmd = KUNWIND_PROC_INFO_IOCTL then
        rbind (kunwind_proc_info_ioctl page kn mm pi file w) (\<lambda>(r, w). Ok (r, None, w))
      else if cmd = KUNWIND_UNWIND_IOCTL then kunwind_backtrace_ioctl e alloc_ok pt_regs ba file w
      else Ok (- ENOIOCTLCMD, None, w))"

section \<open>The registry's contract\<close>

lemma process_find_ht: "kunwind_process_find h t tgid = ht_find h mv_tgid t tgid"
  by (simp add: kunwind_process_find_def ht_find_def eq_commute)

interpretation pr: registry "ht_wf h mv_tgid" "kunwind_process_find h" mv_tgid "ht_empty TYPE(3)"
  "kunwind_process_link h" "kunwind_process_unlink h"
  for h :: map_hash
  by unfold_locales
    (auto simp: process_find_ht kunwind_process_link_def kunwind_process_unlink_def ht_laws
      split: option.splits dest: ht_find_key)

section \<open>Opening a file\<close>

text \<open>The state after a file has been opened, and the cases in which it is not.\<close>

definition opened :: "map_hash \<Rightarrow> addr \<Rightarrow> bool \<Rightarrow> pid \<Rightarrow> nat \<Rightarrow> world \<Rightarrow> world" where
  "opened h p c pid fl w =
     w\<lparr>kunw_map := kunwind_process_link h \<lparr>mv_tgid = pid, mv_mods = p\<rparr> (kunw_map w),
       objs := (objs w)(p \<mapsto> \<lparr>stp_modules = [], unw_cache = unw_cache_init, mods_compat = c\<rparr>),
       private_data := (private_data w)(fl := p), wres := kalloc (kalloc (wres w))\<rparr>"

lemma open_eq:
  "kunwind_debug_open h p node c pid fl w =
     (if kunwind_process_find h (kunw_map w) pid \<noteq> None then Ok (- EBUSY, w)
      else if p = 0 then Ok (- ENOMEM, w)
      else if \<not> node then Fault (BadRead 0) else Ok (0, opened h p c pid fl w))"
  by (auto simp: kunwind_debug_open_def init_proc_unwind_info_def kunwind_process_register_def opened_def
      split: option.splits)

lemma open_ok:
  "kunwind_debug_open h p node c pid fl w = Ok (r, w') \<Longrightarrow>
   r = 0 \<and> kunwind_process_find h (kunw_map w) pid = None \<and> p \<noteq> 0 \<and> node \<and> w' = opened h p c pid fl w \<or> r < 0 \<and> w' = w"
  by (auto simp: open_eq EBUSY_def ENOMEM_def split: if_splits)

lemma open_zero:
  assumes "kunwind_debug_open h p node c pid fl w = Ok (0, w')"
  shows "kunwind_process_find h (kunw_map w) pid = None" "p \<noteq> 0" "w' = opened h p c pid fl w"
  using open_ok [OF assms] by simp_all

lemma find_opened:
  assumes "ht_wf h mv_tgid (kunw_map w)" "kunwind_process_find h (kunw_map w) pid = None"
  shows "kunwind_process_find h (kunw_map (opened h p c pid fl w)) q =
    (if q = pid then Some \<lparr>mv_tgid = pid, mv_mods = p\<rparr> else kunwind_process_find h (kunw_map w) q)"
  using pr.lookup_add [OF assms(1)] assms(2) by (simp add: opened_def)

lemma wf_opened: "ht_wf h mv_tgid (kunw_map w) \<Longrightarrow> ht_wf h mv_tgid (kunw_map (opened h p c pid fl w))"
  by (simp add: opened_def pr.inv_add)

section \<open>Reachable states\<close>

definition initial_world :: "kres \<Rightarrow> world" where
  "initial_world k = \<lparr>kunw_map = ht_empty TYPE(3), objs = (\<lambda>_. None), private_data = (\<lambda>_. 0), wres = k\<rparr>"

text \<open>
  One call into the device. \<open>kmalloc\<close> returns memory that is not in use. A release may be of any file, by any
  process: the kernel calls it for open files only, so that these are more states than the device has, and what
  holds of all of them holds of those of the device.
\<close>

inductive dev_step :: "map_hash \<Rightarrow> world \<Rightarrow> world \<Rightarrow> bool" for h where
  dev_open: "objs w p = None \<Longrightarrow> kunwind_debug_open h p node c pid file w = Ok (r, w') \<Longrightarrow> dev_step h w w'"
| dev_release: "kunwind_debug_release h pid file w = Ok (r, w') \<Longrightarrow> dev_step h w w'"
| dev_proc_info: "kunwind_proc_info_ioctl page kn mm arg file w = Ok (r, w') \<Longrightarrow> dev_step h w w'"
| dev_backtrace: "kunwind_backtrace_ioctl e ok rs ba file w = Ok (r, out, w') \<Longrightarrow> dev_step h w w'"
| dev_trace: "save_stack_trace_kunwind h e rs pid tr w = Ok (tr', w') \<Longrightarrow> dev_step h w w'"

inductive reachable :: "map_hash \<Rightarrow> world \<Rightarrow> bool" for h where
  reach_init: "reachable h (initial_world k)"
| reach_step: "reachable h w \<Longrightarrow> dev_step h w w' \<Longrightarrow> reachable h w'"

text \<open>
  \<open>registered_live\<close>: every registered process has a live object, and no two share one.
\<close>

definition registered_live :: "map_hash \<Rightarrow> world \<Rightarrow> bool" where
  "registered_live h w \<longleftrightarrow>
     ht_wf h mv_tgid (kunw_map w) \<and>
     (\<forall>p v. kunwind_process_find h (kunw_map w) p = Some v \<longrightarrow> objs w (mv_mods v) \<noteq> None) \<and>
     (\<forall>p q v u. kunwind_process_find h (kunw_map w) p = Some v \<longrightarrow>
        kunwind_process_find h (kunw_map w) q = Some u \<longrightarrow> mv_mods v = mv_mods u \<longrightarrow> p = q)"

lemma liveD:
  "registered_live h w \<Longrightarrow> kunwind_process_find h (kunw_map w) p = Some v \<Longrightarrow>
   \<exists>mods. objs w (mv_mods v) = Some mods"
  by (simp add: registered_live_def)

lemma live_initial: "registered_live h (initial_world k)"
  by (simp add: registered_live_def initial_world_def pr.inv_emp pr.lookup_emp)

lemma live_opened:
  assumes "registered_live h w" "objs w p = None" "kunwind_process_find h (kunw_map w) pid = None"
  shows "registered_live h (opened h p c pid fl w)"
proof -
  have wf: "ht_wf h mv_tgid (kunw_map w)" using assms(1) by (simp add: registered_live_def)
  note f = find_opened [OF wf assms(3)]
  have old: "objs w (mv_mods v) \<noteq> None" "mv_mods v \<noteq> p" if "kunwind_process_find h (kunw_map w) q = Some v" for q v
    using liveD [OF assms(1) that] assms(2) by auto
  have o: "objs (opened h p c pid fl w) a \<noteq> None" if "a = p \<or> objs w a \<noteq> None" for a
    using that by (auto simp: opened_def)
  show ?thesis
    unfolding registered_live_def
  proof (intro conjI allI impI)
    show "ht_wf h mv_tgid (kunw_map (opened h p c pid fl w))" by (rule wf_opened [OF wf])
    fix q v assume v: "kunwind_process_find h (kunw_map (opened h p c pid fl w)) q = Some v"
    show "objs (opened h p c pid fl w) (mv_mods v) \<noteq> None"
      using v old(1) by (intro o) (auto simp: f split: if_splits)
    fix q' u assume "kunwind_process_find h (kunw_map (opened h p c pid fl w)) q' = Some u" "mv_mods v = mv_mods u"
    then show "q = q'"
      using v assms(1) by (auto simp: f registered_live_def split: if_splits dest: old(2))
  qed
qed

lemma live_open:
  "registered_live h w \<Longrightarrow> objs w p = None \<Longrightarrow> kunwind_debug_open h p node c pid fl w = Ok (r, w') \<Longrightarrow>
   registered_live h w'"
  by (auto dest!: open_ok intro: live_opened)

lemma live_release:
  assumes "registered_live h w" "kunwind_debug_release h pid file w = Ok (r, w')"
  shows "registered_live h w'" "kunwind_process_find h (kunw_map w') pid = None"
proof -
  have wf: "ht_wf h mv_tgid (kunw_map w)" using assms(1) by (simp add: registered_live_def)
  note d = pr.lookup_del [OF wf] pr.inv_del [OF wf]
  have "registered_live h w' \<and> kunwind_process_find h (kunw_map w') pid = None"
  proof (cases "kunwind_process_find h (kunw_map w) pid")
    case None
    then show ?thesis
      using assms by (auto simp: kunwind_debug_release_def kunwind_process_unregister_def registered_live_def)
  next
    case (Some v)
    then have w': "kunw_map w' = kunwind_process_unlink h pid (kunw_map w)" "objs w' = (objs w)(mv_mods v := None)"
      using assms(2)
      by (auto simp: kunwind_debug_release_def kunwind_process_unregister_def split: option.splits)
    show ?thesis
      using assms(1) Some unfolding registered_live_def w' d(1)
      by (auto simp: d(2) split: if_splits)
  qed
  then show "registered_live h w'" "kunwind_process_find h (kunw_map w') pid = None" by simp_all
qed

text \<open>The ioctls change what a live object holds, and nothing else of the registry.\<close>

lemma live_objs:
  assumes "registered_live h w" "kunw_map w' = kunw_map w" "\<And>a. objs w a \<noteq> None \<Longrightarrow> objs w' a \<noteq> None"
  shows "registered_live h w'"
  using assms by (auto simp: registered_live_def)

lemma live_step: "dev_step h w w' \<Longrightarrow> registered_live h w \<Longrightarrow> registered_live h w'"
proof (induction rule: dev_step.induct)
  case (dev_proc_info page kn mm arg fl w r w')
  then show ?case
    by (intro live_objs [OF dev_proc_info.prems])
      (auto simp: kunwind_proc_info_ioctl_def kunwind_init_ioctl_def rbind_eq_Ok set_mods_def
        split: proc_info_arg.splits if_splits)
next
  case (dev_backtrace e ok rs ba fl w r out w')
  then show ?case
    by (intro live_objs [OF dev_backtrace.prems])
      (auto simp: kunwind_backtrace_ioctl_def rbind_eq_Ok set_mods_def Let_def
        split: option.splits if_splits)
next
  case (dev_trace e rs pid tr w tr' w')
  then show ?case
    by (intro live_objs [OF dev_trace.prems])
      (auto simp: save_stack_trace_kunwind_def rbind_eq_Ok split: option.splits)
qed (auto intro: live_open live_release)

lemma reachable_live: "reachable h w \<Longrightarrow> registered_live h w"
  by (induction rule: reachable.induct) (auto intro: live_initial live_step)

lemma release_defined:
  assumes "registered_live h w"
  shows "\<exists>w'. kunwind_debug_release h pid file w = Ok (0, w')"
  using liveD [OF assms, of pid]
  by (auto simp: kunwind_debug_release_def kunwind_process_unregister_def split: option.splits)

end
