(* ===== verification/Device_Spec.thy ===== *)
theory Device_Spec
  imports Kunwind_Debug
begin

text \<open>
  What the device promises its users: sessions from the opening of a file to its release give back
  everything they take, every registered process has a live object, and the cases in which a file
  outlives its object.
\<close>

section \<open>Backtraces keep the modules\<close>


lemma steps_modules:
  assumes "unwind_frame e c user p = Ok (r, c', p')"
  shows "stp_modules p' = stp_modules p \<and> mods_compat p' = mods_compat p"
  using assms by (auto simp: unwind_frame_def Let_def rbind_eq_Ok split: if_splits option.splits)

lemma full_loop_modules:
  "full_loop fuel e c p bt ret = Ok (ret', c', p', bt') \<Longrightarrow> stp_modules p' = stp_modules p"
proof (induction fuel arbitrary: c p bt ret)
  case 0
  then show ?case by (auto simp: full_loop.simps [of 0] Let_def split: if_splits)
next
  case (Suc n)
  show ?case
  proof (cases "nr_entries bt < max_entries bt \<and> get_pc (info c) \<noteq> 0")
    case True
    then show ?thesis
      using Suc by (auto simp: full_loop_step rbind_eq_Ok split: if_splits dest!: steps_modules)
  qed (use Suc.prems in \<open>auto simp: full_loop_done\<close>)
qed

lemma current_unwind_modules:
  "do_current_unwind e rs mods bt = Ok (r, c', mods', bt') \<Longrightarrow> stp_modules mods' = stp_modules mods"
  by (auto simp: do_current_unwind_def Let_def unwind_full_def rbind_eq_Ok split: if_splits option.splits
      dest: full_loop_modules)

section \<open>Loads keep the cache\<close>

lemma proc_info_cache:
  "init_modules_from_proc_info kn lis mods k = Ok (err, mods', k') \<Longrightarrow> unw_cache mods' = unw_cache mods"
proof (induction lis arbitrary: mods k)
  case (Cons li lis)
  then show ?case by (fastforce simp: rbind_eq_Ok split: if_splits option.splits)
qed simp

lemma add_module_cache: "add_module kn base hs mods k = Ok (res, mods', k') \<Longrightarrow> unw_cache mods' = unw_cache mods"
  by (auto simp: add_module_def rbind_eq_Ok split: option.splits if_splits prod.splits)

lemma iterate_phdr_cache:
  "iterate_phdr page kn first vs mods k = Ok (err, mods', k') \<Longrightarrow> unw_cache mods' = unw_cache mods"
proof (induction vs arbitrary: first mods k)
  case (Cons v vs)
  then show ?case
    by (auto simp: rbind_eq_Ok split: if_splits first_page.splits dest!: add_module_cache Cons.IH)
qed simp

lemma load_keeps_cache:
  assumes "file_mods fl w = Ok mods" "kunwind_proc_info_ioctl page kn mm arg fl w = Ok (r, w')"
  shows "\<exists>mods'. file_mods fl w' = Ok mods' \<and> unw_cache mods' = unw_cache mods"
  using assms
  by (auto simp: kunwind_proc_info_ioctl_def kunwind_init_ioctl_def file_mods_def set_mods_def init_modules_from_task_def rbind_eq_Ok
      split: proc_info_arg.splits if_splits option.splits dest!: proc_info_cache iterate_phdr_cache)

section \<open>Sessions\<close>

text \<open>
  A session: the calls on an open file between its opening and its release, by any process, in any
  order. \<open>in_session\<close> is what they keep: the file's object is live and the resources held are those of
  its modules.
\<close>

inductive session :: "map_hash \<Rightarrow> nat \<Rightarrow> world \<Rightarrow> world \<Rightarrow> bool" for h fl where
  session_refl: "session h fl w w"
| session_load: "session h fl w w1 \<Longrightarrow> same_view kn \<Longrightarrow>
    kunwind_proc_info_ioctl page kn mm arg fl w1 = Ok (r, w2) \<Longrightarrow> session h fl w w2"
| session_trace: "session h fl w w1 \<Longrightarrow>
    kunwind_backtrace_ioctl e ok rs ba fl w1 = Ok (r, out, w2) \<Longrightarrow> session h fl w w2"

definition in_session :: "map_hash \<Rightarrow> kunw_map_val chains \<Rightarrow> nat \<Rightarrow> addr \<Rightarrow> kres \<Rightarrow> world \<Rightarrow> bool" where
  "in_session h t file p k w \<longleftrightarrow>
     kunw_map w = t \<and> private_data w file = p \<and>
     (\<exists>mods. objs w p = Some mods \<and> held (stp_modules mods) k (wres w))"

lemma from_task_held:
  "same_view kn \<Longrightarrow> held (stp_modules mods) k0 k \<Longrightarrow>
   init_modules_from_task page kn mm mods k = Ok (err, mods', k') \<Longrightarrow> held (stp_modules mods') k0 k'"
  by (auto simp: init_modules_from_task_def iterate_phdr_held split: option.splits)

lemma in_session_set_mods:
  assumes "in_session h t file p k w" "held (stp_modules mods) k k'"
  shows "in_session h t file p k (set_mods file mods k' w)"
  using assms by (auto simp: in_session_def set_mods_def)

lemma in_session_load:
  assumes "in_session h t file p k w" "same_view kn" "kunwind_proc_info_ioctl page kn mm arg file w = Ok (r, w')"
  shows "in_session h t file p k w'"
proof -
  obtain mods where m: "objs w (private_data w file) = Some mods" "held (stp_modules mods) k (wres w)"
    using assms(1) by (auto simp: in_session_def)
  show ?thesis
    using assms(1,3) m in_session_set_mods [OF assms(1)] from_task_held [OF assms(2) m(2)]
      from_proc_info_held [OF assms(2) m(2)]
    by (auto simp: kunwind_proc_info_ioctl_def kunwind_init_ioctl_def file_mods_def rbind_eq_Ok
        split: proc_info_arg.splits if_splits)
qed

lemma in_session_trace:
  assumes "in_session h t file p k w" "kunwind_backtrace_ioctl e ok rs ba file w = Ok (r, out, w')"
  shows "in_session h t file p k w'"
proof -
  obtain mods where m: "objs w (private_data w file) = Some mods" "held (stp_modules mods) k (wres w)"
    using assms(1) by (auto simp: in_session_def)
  show ?thesis
    using assms m in_session_set_mods [OF assms(1)] current_unwind_modules
    by (auto simp: kunwind_backtrace_ioctl_def file_mods_def rbind_eq_Ok Let_def split: option.splits if_splits)
qed

lemma session_keeps:
  "session h file w w' \<Longrightarrow> in_session h t file p k w \<Longrightarrow> in_session h t file p k w'"
  by (induction rule: session.induct) (auto intro: in_session_load in_session_trace)

lemma open_session:
  assumes "ht_wf h mv_tgid (kunw_map w)" "kunwind_debug_open h p node c pid file w = Ok (0, w1)"
  shows "in_session h (kunw_map w1) file p (kalloc (kalloc (wres w))) w1 \<and>
    kunwind_process_find h (kunw_map w1) pid = Some \<lparr>mv_tgid = pid, mv_mods = p\<rparr>"
  using open_zero [OF assms(2)] find_opened [OF assms(1)] by (simp add: in_session_def opened_def held_Nil)

lemma session_released:
  assumes "ht_wf h mv_tgid (kunw_map w)" "kunwind_debug_open h p node c pid file w = Ok (0, w1)" "session h file w1 w2"
  shows "\<exists>w3. kunwind_debug_release h pid file w2 = Ok (0, w3) \<and> wres w3 = kalloc (wres w) \<and>
    kunwind_process_find h (kunw_map w3) pid = None"
proof -
  note o = open_session [OF assms(1,2)]
  have wf: "ht_wf h mv_tgid (kunw_map w1)"
    using open_zero [OF assms(2)] wf_opened [OF assms(1)] by simp
  have "in_session h (kunw_map w1) file p (kalloc (kalloc (wres w))) w2"
    using session_keeps [OF assms(3)] o by blast
  then obtain mods where m: "kunw_map w2 = kunw_map w1" "objs w2 p = Some mods"
    "held (stp_modules mods) (kalloc (kalloc (wres w))) (wres w2)" by (auto simp: in_session_def)
  then show ?thesis
    using o close_all_held [OF m(3)] pr.lookup_del [OF wf]
    by (simp add: kunwind_debug_release_def kunwind_process_unregister_def release_unwind_info_def)
qed

section \<open>What the calls return\<close>

lemma open_refused: "kunwind_debug_open h p node c pid file w = Ok (r, w') \<Longrightarrow> r \<noteq> 0 \<Longrightarrow> r < 0 \<and> w' = w"
  using open_ok by fastforce

lemma proc_info_ioctl_map:
  "kunwind_proc_info_ioctl page kn mm arg file w = Ok (r, w') \<Longrightarrow> kunw_map w' = kunw_map w"
  by (auto simp: kunwind_proc_info_ioctl_def kunwind_init_ioctl_def rbind_eq_Ok set_mods_def
      split: proc_info_arg.splits if_splits)

lemma ioctl_error:
  "kunwind_backtrace_ioctl e ok rs ba file w = Ok (r, None, w') \<Longrightarrow> r < 0"
  by (auto simp: kunwind_backtrace_ioctl_def EFAULT_def EINVAL_def ENOMEM_def rbind_eq_Ok Let_def
      split: option.splits if_splits)

lemma ioctl_bounds:
  assumes "kunwind_backtrace_ioctl e ok rs ba file w = Ok (r, Some pcs, w')"
  shows "r = 0 \<and> length pcs \<le> 128 \<and> length pcs \<le> unat (the (ba_max ba)) \<and> pcs \<noteq> [] \<and> 0 \<notin> set pcs"
proof -
  obtain mx mods c' mods' bt where b: "ba_max ba = Some mx" "mx \<noteq> 0" "r = 0" "bt_entries bt = pcs"
    "do_current_unwind e rs mods \<lparr>max_entries = min mx entries_limit, nr_entries = 0, bt_entries = [], bt_null = False\<rparr> =
       Ok (0, c', mods', bt)"
    using assms by (auto simp: kunwind_backtrace_ioctl_def rbind_eq_Ok Let_def split: option.splits if_splits)
  have m: "min mx entries_limit \<noteq> 0" using b(2) by (simp add: min_def entries_limit_def)
  obtain f where u: "unwind_full e f mods \<lparr>max_entries = min mx entries_limit, nr_entries = 0, bt_entries = [], bt_null = False\<rparr> =
      Ok (0, c', mods', bt)"
    using b(5) by (auto simp: do_current_unwind_def Let_def)
  note s = unwind_full_spec [OF u]
  have "nr_entries bt \<le> min mx entries_limit" "length pcs = unat (nr_entries bt)" using s m b(4) by auto
  then have "length pcs \<le> unat (min mx entries_limit)" by (simp add: word_le_nat_alt)
  also have "unat (min mx entries_limit) \<le> unat mx" "unat (min mx entries_limit) \<le> 128"
    by (simp_all add: min_def entries_limit_def word_le_nat_alt)
  moreover have "pcs \<noteq> [] \<and> 0 \<notin> set pcs"
    using s m b(4) steps_nonzero by (auto split: if_splits)
  ultimately show ?thesis using b(1,3) by auto
qed

section \<open>A concrete device\<close>

text \<open>
  For the witnesses: the device after process 10 has opened file 1, and the load of one object by it.
\<close>

definition dev0 :: world where
  "dev0 = initial_world \<lparr>pinned = {#}, vmaps = {#}, allocs = 0\<rparr>"

definition dev1 :: world where
  "dev1 = opened (\<lambda>_. 0) 0x1000 False 10 1 dev0"

lemma dev0_wf: "ht_wf h mv_tgid (kunw_map dev0)" "objs dev0 p = None"
  "kunwind_process_find h (kunw_map dev0) pid = None"
  by (simp_all add: dev0_def initial_world_def pr.inv_emp pr.lookup_emp)

lemma dev0_reachable: "reachable h dev0"
  unfolding dev0_def by (rule reach_init)

lemma dev1_open: "kunwind_debug_open (\<lambda>_. 0) 0x1000 True False 10 1 dev0 = Ok (0, dev1)"
  using dev0_wf(3) by (simp add: open_eq dev1_def)

lemma dev1_fields: "private_data dev1 1 = 0x1000" "wres dev1 = \<lparr>pinned = {#}, vmaps = {#}, allocs = 2\<rparr>"
  "objs dev1 0x1000 = Some \<lparr>stp_modules = [], unw_cache = unw_cache_init, mods_compat = False\<rparr>"
  by (simp_all add: dev1_def opened_def) (simp add: dev0_def initial_world_def kalloc_def)

lemma ex_kern_loads:
  "init_modules_from_proc_info ex_kern [ex_linfo] mods k =
     Ok (0, mods\<lparr>stp_modules := stp_modules mods @ [ex_loaded]\<rparr>,
         kvmap 0x10000 (take_pages [0, 1] (kalloc (kalloc k))))"
proof -
  have "[0..<vma_pages \<lparr>vm_start = 0x400000, vm_end = 0x402000, vm_pgoff = 0\<rparr>] = [0, 1]"
    by (simp add: vma_pages_def upt_rec)
  moreover have "k_find_vma ex_kern u = Some \<lparr>vm_start = 0x400000, vm_end = 0x402000, vm_pgoff = 0\<rparr>" "k_kmalloc ex_kern r"
    "k_pages ex_kern s n = Inr [0..<n]" "k_vmap ex_kern ps = 0x10000" for u r s n ps
    by (simp_all add: ex_kern_def view_kern_def)
  ultimately show ?thesis
    using ex_fill [of "mods_compat mods"] by (simp add: init_kunwind_stp_module_def Let_def)
qed

definition dev2 :: world where
  "dev2 = set_mods 1 \<lparr>stp_modules = [ex_loaded], unw_cache = unw_cache_init, mods_compat = False\<rparr>
     \<lparr>pinned = {#0, 1#}, vmaps = {#0x10000#}, allocs = 4\<rparr> dev1"

lemma dev2_load:
  "kunwind_proc_info_ioctl (\<lambda>_. PinError) ex_kern None (PICopied 1 [ex_linfo]) 1 dev1 = Ok (0, dev2)"
  using dev1_fields ex_kern_loads
  by (simp add: kunwind_proc_info_ioctl_def file_mods_def dev2_def kres_defs)

lemma dev2_session: "session (\<lambda>_. 0) 1 dev1 dev2"
  by (rule session_load [OF session_refl same_view_ex_kern dev2_load])

lemma dev2_reachable: "reachable (\<lambda>_. 0) dev2"
  using dev0_wf(2) dev0_reachable dev1_open dev2_load
  by (meson dev_step.dev_open dev_step.dev_proc_info reach_step)

section \<open>Properties\<close>



text \<open>
  C23. In every reachable state of the device each registered process has a live object of its own: no call
  in any order, by any process and on any file, makes the registry point to freed memory.
\<close>

theorem registered_processes_live:
  assumes "reachable h w" "kunwind_process_find h (kunw_map w) pid = Some v"
  shows "objs w (mv_mods v) \<noteq> None \<and> mv_tgid v = pid \<and>
    (\<forall>q u. kunwind_process_find h (kunw_map w) q = Some u \<and> mv_mods u = mv_mods v \<longrightarrow> q = pid)"
  using reachable_live [OF assms(1)] assms(2) pr.lookup_key by (fastforce simp: registered_live_def)

theorem registered_processes_live_witness:
  "\<exists>v. kunwind_process_find (\<lambda>_. 0) (kunw_map dev2) 10 = Some v \<and> objs dev2 (mv_mods v) \<noteq> None"
proof -
  have "kunwind_process_find (\<lambda>_. 0) (kunw_map dev2) 10 = Some \<lparr>mv_tgid = 10, mv_mods = 0x1000\<rparr>"
    using open_session [OF dev0_wf(1) dev1_open] by (simp add: dev2_def set_mods_def)
  then show ?thesis using registered_processes_live [OF dev2_reachable] by blast
qed

text \<open>
  C33. Releasing a file is defined in every reachable state, returns 0, and lets the process open the device
  again, with the object that \<open>kmalloc\<close> gives it.
\<close>

theorem release_then_open:
  assumes "reachable h w" "p \<noteq> 0"
  shows "\<exists>w1 w2. kunwind_debug_release h pid file w = Ok (0, w1) \<and>
    kunwind_debug_open h p True c pid file' w1 = Ok (0, w2) \<and>
    kunwind_process_find h (kunw_map w2) pid = Some \<lparr>mv_tgid = pid, mv_mods = p\<rparr>"
proof -
  have l: "registered_live h w" using assms(1) by (rule reachable_live)
  obtain w1 where w1: "kunwind_debug_release h pid file w = Ok (0, w1)" using release_defined [OF l] by blast
  have n: "kunwind_process_find h (kunw_map w1) pid = None" by (rule live_release(2) [OF l w1])
  have wf: "ht_wf h mv_tgid (kunw_map w1)" using live_release(1) [OF l w1] by (simp add: registered_live_def)
  obtain w2 where "kunwind_debug_open h p True c pid file' w1 = Ok (0, w2)"
    using n assms(2) by (simp add: open_eq)
  then show ?thesis using w1 open_session [OF wf] by blast
qed

theorem release_then_open_witness:
  "\<exists>w1 w2. kunwind_debug_release (\<lambda>_. 0) 10 1 dev2 = Ok (0, w1) \<and>
     kunwind_debug_open (\<lambda>_. 0) 0x3000 True False 10 2 w1 = Ok (0, w2)"
  using release_then_open [OF dev2_reachable, of "0x3000" 10 1 False 2] by auto

text \<open>
  C39. A release unregisters the process that runs it and not the one that has opened the file: when a process has
  opened one file of the device and another process a second one, and the first process is the one that drops the
  second file (having inherited or received its descriptor), the release returns 0, frees the object of the first
  process, whose file still points to it, and leaves the second process registered without a file. The next
  ioctl on the first file, be it to load the unwind information of the task or to take a backtrace, uses freed
  memory.
\<close>

theorem foreign_release_frees:
  assumes "reachable h w" "objs w p = None" "kunwind_debug_open h p True c pid f w = Ok (0, w1)"
    "objs w1 p' = None" "kunwind_debug_open h p' True c' pid' f' w1 = Ok (0, w2)" "f' \<noteq> f"
  shows "\<exists>w3. kunwind_debug_release h pid f' w2 = Ok (0, w3) \<and> private_data w3 f = p \<and> private_data w3 f' = 0 \<and>
    kunwind_process_find h (kunw_map w3) pid = None \<and>
    kunwind_process_find h (kunw_map w3) pid' = Some \<lparr>mv_tgid = pid', mv_mods = p'\<rparr> \<and>
    kunwind_proc_info_ioctl page kn mm PINull f w3 = Fault Freed \<and>
    (ba_max ba = Some mx \<and> mx \<noteq> 0 \<longrightarrow> kunwind_backtrace_ioctl e True rs ba f w3 = Fault Freed)"
proof -
  have l: "registered_live h w" using assms(1) by (rule reachable_live)
  then have wf: "ht_wf h mv_tgid (kunw_map w)" by (simp add: registered_live_def)
  note o1 = open_zero [OF assms(3)] and o2 = open_zero [OF assms(5)]
  have wf1: "ht_wf h mv_tgid (kunw_map w1)" using wf_opened [OF wf] o1 by simp
  have r2: "registered_live h w2"
    using reachable_live assms(1-5) by (meson dev_open reach_step)
  have f1: "kunwind_process_find h (kunw_map w1) q =
      (if q = pid then Some \<lparr>mv_tgid = pid, mv_mods = p\<rparr> else kunwind_process_find h (kunw_map w) q)" for q
    using find_opened [OF wf] o1 by simp
  have f2: "kunwind_process_find h (kunw_map w2) q =
      (if q = pid' then Some \<lparr>mv_tgid = pid', mv_mods = p'\<rparr> else kunwind_process_find h (kunw_map w1) q)" for q
    using find_opened [OF wf1] o2 by simp
  have ne: "pid' \<noteq> pid" using f1 [of pid] o2 by auto
  obtain w3 where w3: "kunwind_debug_release h pid f' w2 = Ok (0, w3)" using release_defined [OF r2] by blast
  have d: "private_data w3 f = p" "private_data w3 f' = 0" "objs w3 p = None"
    "kunw_map w3 = kunwind_process_unlink h pid (kunw_map w2)"
    using w3 f2 [of pid] f1 [of pid] ne assms(6) o1 o2
    by (auto simp: kunwind_debug_release_def kunwind_process_unregister_def opened_def split: option.splits)
  moreover have "kunwind_process_find h (kunw_map w3) pid = None"
    "kunwind_process_find h (kunw_map w3) pid' = Some \<lparr>mv_tgid = pid', mv_mods = p'\<rparr>"
    using r2 f2 [of pid'] ne d(4) by (simp_all add: registered_live_def pr.lookup_del)
  ultimately show ?thesis
    using w3 by (auto simp: kunwind_proc_info_ioctl_def kunwind_init_ioctl_def kunwind_backtrace_ioctl_def file_mods_def)
qed

theorem foreign_release_frees_witness:
  "\<exists>w1 w2 w3. kunwind_debug_open (\<lambda>_. 0) 0x1000 True False 10 1 dev0 = Ok (0, w1) \<and>
     kunwind_debug_open (\<lambda>_. 0) 0x2000 True False 11 2 w1 = Ok (0, w2) \<and>
     kunwind_debug_release (\<lambda>_. 0) 10 2 w2 = Ok (0, w3) \<and>
     kunwind_proc_info_ioctl (\<lambda>_. PinError) ex_kern None PINull 1 w3 = Fault Freed \<and>
     kunwind_process_find (\<lambda>_. 0) (kunw_map w3) 11 \<noteq> None"
proof -
  have "kunwind_process_find (\<lambda>_. 0) (kunw_map dev1) 11 = None"
    using find_opened [OF dev0_wf(1,3), of "\<lambda>_. 0" "0x1000" False 10 1 11] dev0_wf(3) by (simp add: dev1_def)
  then obtain w2 where w2: "kunwind_debug_open (\<lambda>_. 0) 0x2000 True False 11 2 dev1 = Ok (0, w2)" by (simp add: open_eq)
  moreover have "objs dev1 0x2000 = None" using dev0_wf(2) by (simp add: dev1_def opened_def)
  ultimately show ?thesis
    using foreign_release_frees [OF dev0_reachable dev0_wf(2) dev1_open _ w2, of "\<lambda>_. PinError" ex_kern None] dev1_open
    by fastforce
qed

end
