(* ===== verification/Libkunwind.thy ===== *)
theory Libkunwind
  imports Device_Spec
begin

text \<open>
  The user library of \<^verbatim>\<open>libkunwind/src\<close>: collecting the unwind information of the loaded objects
  (\<^verbatim>\<open>find_proc_info.c\<close>) and the calls on the device (\<^verbatim>\<open>libkunwind.c\<close>), on top of the model of the device.
  The objects that \<open>dl_iterate_phdr\<close> visits and what \<open>malloc\<close> and \<open>calloc\<close> return are parameters.
\<close>

section \<open>Collecting the unwind information\<close>

definition ERR_NO_EH_PHDR :: int where "ERR_NO_EH_PHDR = 1"

record dl_phdr_info =
  dlpi_addr :: u64
  dlpi_phdr :: "elf_phdr list"

text \<open>The loop over the program headers, with the count \<open>features\<close> of those that were recognised.\<close>

fun extract_scan :: "elf_phdr list \<Rightarrow> elf_phdr option \<Rightarrow> bool \<Rightarrow> nat \<Rightarrow> elf_phdr option \<times> bool" where
  "extract_scan [] eh dyn features = (eh, dyn)"
| "extract_scan (h # hs) eh dyn features =
     (let (eh, dyn, features) =
            (if p_type h = PT_GNU_EH_FRAME then (Some h, dyn, features + 1)
             else if p_type h = PT_DYNAMIC then (eh, True, features + 1) else (eh, dyn, features))
      in if features \<ge> 2 then (eh, dyn) else extract_scan hs eh dyn features)"

text \<open>
  The linked list, from its head; \<open>heap\<close> counts the blocks allocated.
\<close>

record extract_unwind_info_data =
  ed_list :: "load_info list"
  ed_nr :: u64
  heap :: nat

text \<open>
  The callback. \<open>mem i\<close> is the block that \<open>malloc\<close> returns for the \<open>i\<close>-th element, with what it held
  before, or \<open>None\<close> for \<open>NULL\<close>, which is not checked. \<open>eh_frame_addr\<close> and \<open>eh_frame_size\<close> are not
  assigned.
\<close>

definition extract_unwind_info ::
  "(nat \<Rightarrow> load_info option) \<Rightarrow> dl_phdr_info \<Rightarrow> extract_unwind_info_data \<Rightarrow>
   (int \<times> extract_unwind_info_data) res" where
  "extract_unwind_info mem obj d =
     (case extract_scan (dlpi_phdr obj) None False 0 of
        (None, _) \<Rightarrow> Ok (- ERR_NO_EH_PHDR, d)
      | (Some h, dyn) \<Rightarrow>
         (case mem (length (ed_list d)) of
            None \<Rightarrow> Fault (BadRead 0)
          | Some old \<Rightarrow>
              Ok (0, \<lparr>ed_list = ed_list d @ [old\<lparr>obj_addr := dlpi_addr obj,
                        eh_frame_hdr_ubuf := dlpi_addr obj + p_vaddr h,
                        eh_frame_hdr_size := p_memsz h, li_dynamic := dyn\<rparr>],
                      ed_nr = (if ed_list d = [] then 1 else ed_nr d + 1), heap = heap d + 1\<rparr>)))"

text \<open>\<open>dl_iterate_phdr\<close> calls the callback on each object until a call returns another value than 0.\<close>

fun dl_iterate_phdr ::
  "(dl_phdr_info \<Rightarrow> extract_unwind_info_data \<Rightarrow> (int \<times> extract_unwind_info_data) res) \<Rightarrow>
   dl_phdr_info list \<Rightarrow> extract_unwind_info_data \<Rightarrow> (int \<times> extract_unwind_info_data) res" where
  "dl_iterate_phdr cb [] d = Ok (0, d)"
| "dl_iterate_phdr cb (ob # obs) d =
     rbind (cb ob d) (\<lambda>(r, d). if r \<noteq> 0 then Ok (r, d) else dl_iterate_phdr cb obs d)"

text \<open>
  \<open>sizeof(struct load_info)\<close> is 104, and so is the offset of \<open>next\<close> behind it. The \<open>do\<close> loop loads
  \<open>next\<close> from its argument before any test, from \<open>NULL\<close> too.
\<close>

definition LOAD_INFO_SIZE :: nat where "LOAD_INFO_SIZE = 104"
definition PROC_INFO_SIZE :: nat where "PROC_INFO_SIZE = 8"

fun free_load_info_list :: "load_info list \<Rightarrow> nat \<Rightarrow> nat res" where
  "free_load_info_list [] n = Fault (BadRead (of_nat LOAD_INFO_SIZE))"
| "free_load_info_list (li # lis) n =
     (if lis = [] then Ok (n - 1) else free_load_info_list lis (n - 1))"

record proc_info =
  pi_size :: u32
  pi_nr :: u32
  pi_segments :: "load_info list"

text \<open>\<open>pmem\<close>: the second \<open>malloc\<close> succeeds; it is not checked. The copy follows the list.\<close>

definition find_proc_info ::
  "dl_phdr_info list \<Rightarrow> (nat \<Rightarrow> load_info option) \<Rightarrow> bool \<Rightarrow> nat \<Rightarrow> (proc_info option \<times> nat) res" where
  "find_proc_info obs mem pmem hp =
     rbind (dl_iterate_phdr (extract_unwind_info mem) obs \<lparr>ed_list = [], ed_nr = 0, heap = hp\<rparr>) (\<lambda>(err, d).
       if err \<noteq> 0 then rbind (free_load_info_list (ed_list d) (heap d)) (\<lambda>n. Ok (None, n))
       else let size = of_nat PROC_INFO_SIZE + ed_nr d * of_nat LOAD_INFO_SIZE
            in if \<not> pmem then Fault (BadRead 0)
               else rbind (free_load_info_list (ed_list d) (heap d + 1)) (\<lambda>n.
                 Ok (Some \<lparr>pi_size = ucast size, pi_nr = ucast (ed_nr d), pi_segments = ed_list d\<rparr>, n)))"

section \<open>The calls on the device\<close>

text \<open>
  A process: the state of the device, the blocks on its heap and its number. A handle is the open
  file it holds.
\<close>

record uproc =
  dev :: world
  uheap :: nat

text \<open>What a call gets from its environment.\<close>

record uenv =
  u_hash :: map_hash
  u_pid :: pid
  u_compat :: bool
  u_fopen :: bool     \<comment> \<open>\<open>fopen\<close> has memory for its stream\<close>
  u_file :: nat       \<comment> \<open>the file that \<open>fopen\<close> opens\<close>
  u_kmods :: addr     \<comment> \<open>what \<open>kmalloc\<close> returns while it is opened\<close>
  u_knode :: bool     \<comment> \<open>the kernel has memory for the entry of the registry\<close>
  u_page :: "vm_area \<Rightarrow> first_page"
  u_kern :: kern
  u_mm :: "vm_area list option"
  u_kcopy :: bool     \<comment> \<open>the kernel has memory for its copy of the segments\<close>
  u_calloc :: bool    \<comment> \<open>\<open>calloc\<close> has memory for the handle\<close>

text \<open>The system call returns \<open>-1\<close> to user space for the codes from \<open>-4095\<close> to \<open>-1\<close>.\<close>

definition syscall_ret :: "int \<Rightarrow> int" where
  "syscall_ret r = (if - 4095 \<le> r \<and> r < 0 then - 1 else r)"

text \<open>What the kernel copies from a \<open>struct proc_info\<close>: \<open>size\<close> bytes, with the segments in them.\<close>

definition proc_info_copy :: "bool \<Rightarrow> proc_info option \<Rightarrow> proc_info_arg" where
  "proc_info_copy mem_ok pi =
     (case pi of
        None \<Rightarrow> PINull
      | Some pi \<Rightarrow>
          if \<not> mem_ok then PINoMem
          else if unat (pi_size pi) < PROC_INFO_SIZE then PIShort
          else PICopied (unat (pi_nr pi))
                 (take ((unat (pi_size pi) - PROC_INFO_SIZE) div LOAD_INFO_SIZE) (pi_segments pi)))"

definition kunwind_backtrace_new ::
  "(nat \<Rightarrow> bool) \<Rightarrow> u32 \<Rightarrow> nat \<Rightarrow> (kunwind_backtrace \<times> nat) option \<times> nat" where
  "kunwind_backtrace_new calloc_ok mx hp =
     (let n = unat (scast mx :: u64)
      in if mx = 0 then (None, hp)
         else if \<not> calloc_ok 16 then (None, hp)
         else if 8 * n \<ge> 2 ^ 64 \<or> \<not> calloc_ok (8 * n) then (None, hp)
         else (Some (\<lparr>max_entries = mx, nr_entries = 0, bt_entries = [], bt_null = False\<rparr>, n), hp + 2))"

text \<open>The structure and its buffer are freed; \<open>NULL\<close> is accepted.\<close>

definition kunwind_backtrace_free :: "(kunwind_backtrace \<times> nat) option \<Rightarrow> nat \<Rightarrow> nat" where
  "kunwind_backtrace_free bt hp = (case bt of None \<Rightarrow> hp | Some _ \<Rightarrow> hp - 2)"

text \<open>
  \<open>fopen\<close> takes a block for its stream, gives it back when the kernel refuses, and sets \<open>errno\<close>, which
  is returned as it is. The handle is the new file; on an error of the ioctl the stream is left open.
\<close>

definition kunwind_init_proc_info :: "uenv \<Rightarrow> proc_info option \<Rightarrow> uproc \<Rightarrow> (int \<times> nat option \<times> uproc) res" where
  "kunwind_init_proc_info u pi s =
     (if \<not> u_fopen u then Ok (ENOMEM, None, s)
      else rbind (kunwind_debug_open (u_hash u) (u_kmods u) (u_knode u) (u_compat u) (u_pid u) (u_file u) (dev s))
        (\<lambda>(r, w).
          if r \<noteq> 0 then Ok (- r, None, s\<lparr>dev := w\<rparr>)
          else rbind (kunwind_proc_info_ioctl (u_page u) (u_kern u) (u_mm u) (proc_info_copy (u_kcopy u) pi) (u_file u) w)
            (\<lambda>(r, w).
              let ret = syscall_ret r; s = s\<lparr>dev := w, uheap := uheap s + 1\<rparr>
              in if ret < 0 then Ok (ret, None, s)
                 else if \<not> u_calloc u then
                   rbind (kunwind_debug_release (u_hash u) (u_pid u) (u_file u) w) (\<lambda>(_, w).
                     Ok (- ENOMEM, None, s\<lparr>dev := w, uheap := uheap s - 1\<rparr>))
                 else Ok (ret, Some (u_file u), s\<lparr>uheap := uheap s + 1\<rparr>))))"

definition kunwind_open :: "uenv \<Rightarrow> uproc \<Rightarrow> (int \<times> nat option \<times> uproc) res" where
  "kunwind_open u s = kunwind_init_proc_info u None s"

text \<open>
  The ioctl on the handle's file; \<open>put_nr\<close> and \<open>copy\<close> are the kernel's two stores to the structure, whose
  buffer has \<open>n\<close> words. After an error what the structure holds is left open.
\<close>

definition kunwind_backtrace_call ::
  "unw_env \<Rightarrow> bool \<Rightarrow> u64 list \<Rightarrow> bool \<Rightarrow> bool \<Rightarrow> nat \<Rightarrow> kunwind_backtrace \<times> nat \<Rightarrow> uproc \<Rightarrow>
   (int \<times> kunwind_backtrace option \<times> uproc) res" where
  "kunwind_backtrace_call e alloc_ok rs put_nr copy fl bt s =
     rbind (kunwind_backtrace_ioctl e alloc_ok rs
              \<lparr>ba_max = Some (max_entries (fst bt)), ba_put_nr = put_nr, ba_copy = copy\<rparr> fl (dev s)) (\<lambda>(r, out, w).
       case out of
         None \<Rightarrow> Ok (syscall_ret r, None, s\<lparr>dev := w\<rparr>)
       | Some pcs \<Rightarrow>
           if length pcs > snd bt then Fault BadIndex
           else Ok (syscall_ret r, Some ((fst bt)\<lparr>nr_entries := of_nat (length pcs), bt_entries := pcs\<rparr>),
                    s\<lparr>dev := w\<rparr>))"

definition kunwind_close :: "uenv \<Rightarrow> nat option \<Rightarrow> uproc \<Rightarrow> uproc res" where
  "kunwind_close u handle s =
     (case handle of
        None \<Rightarrow> Ok s
      | Some fl \<Rightarrow>
          rbind (kunwind_debug_release (u_hash u) (u_pid u) fl (dev s)) (\<lambda>(_, w).
            Ok (s\<lparr>dev := w, uheap := uheap s - 2\<rparr>)))"

section \<open>What is collected\<close>

lemma extract_scan_agrees:
  assumes "features = (if eh = None then 0 else 1) + (if dyn then 1 else 0)" "eh = None \<or> \<not> dyn"
    "length (filter (\<lambda>g. p_type g = PT_GNU_EH_FRAME) hs) + (if eh = None then 0 else 1) \<le> 1"
    "length (filter (\<lambda>g. p_type g = PT_DYNAMIC) hs) + (if dyn then 1 else 0) \<le> 1"
  shows "extract_scan hs eh dyn features = scan_phdrs hs eh dyn"
  using assms
proof (induction hs arbitrary: eh dyn features)
  case (Cons h hs)
  have ne: "PT_GNU_EH_FRAME \<noteq> PT_DYNAMIC" by (simp add: PT_GNU_EH_FRAME_def PT_DYNAMIC_def)
  consider "p_type h = PT_GNU_EH_FRAME" | "p_type h = PT_DYNAMIC" | "p_type h \<noteq> PT_GNU_EH_FRAME" "p_type h \<noteq> PT_DYNAMIC"
    by blast
  then show ?case
  proof cases
    case 1
    then show ?thesis using Cons.prems Cons.IH [of 1 "Some h" False] ne by (cases dyn) auto
  next
    case 2
    then show ?thesis using Cons.prems Cons.IH [of 1 None True] ne by (cases eh) auto
  next
    case 3
    have "\<not> 2 \<le> features" using Cons.prems(1,2) by auto
    moreover have "\<not> (eh \<noteq> None \<and> dyn)" using Cons.prems(2) by auto
    ultimately show ?thesis using 3 Cons.prems Cons.IH [of features eh dyn] by (cases eh; cases dyn) simp_all
  qed
qed simp

lemma free_list:
  "lis \<noteq> [] \<Longrightarrow> free_load_info_list lis n = Ok (n - length lis)"
  by (induction lis arbitrary: n) auto

text \<open>What the callback makes of an object that has a header.\<close>

definition obj_phdr :: "dl_phdr_info \<Rightarrow> elf_phdr option \<times> bool" where
  "obj_phdr ob = extract_scan (dlpi_phdr ob) None False 0"

definition obj_linfo :: "dl_phdr_info \<Rightarrow> load_info \<Rightarrow> load_info" where
  "obj_linfo ob old =
     (let (h, dyn) = obj_phdr ob
      in old\<lparr>obj_addr := dlpi_addr ob, eh_frame_hdr_ubuf := dlpi_addr ob + p_vaddr (the h),
             eh_frame_hdr_size := p_memsz (the h), li_dynamic := dyn\<rparr>)"

definition segments :: "(nat \<Rightarrow> load_info option) \<Rightarrow> nat \<Rightarrow> dl_phdr_info list \<Rightarrow> load_info list" where
  "segments mem k obs = map (\<lambda>(i, ob). obj_linfo ob (the (mem i))) (enumerate k obs)"

lemma segments_simps [simp]:
  "segments mem k [] = []"
  "segments mem k (ob # obs) = obj_linfo ob (the (mem k)) # segments mem (Suc k) obs"
  "length (segments mem k obs) = length obs"
  by (simp_all add: segments_def)

lemma segments_nth: "i < length obs \<Longrightarrow> segments mem k obs ! i = obj_linfo (obs ! i) (the (mem (k + i)))"
  by (simp add: segments_def nth_enumerate_eq)

lemma extract_step:
  assumes "fst (obj_phdr ob) \<noteq> None" "mem (length (ed_list d)) = Some old"
  shows "extract_unwind_info mem ob d =
    Ok (0, \<lparr>ed_list = ed_list d @ [obj_linfo ob old], ed_nr = (if ed_list d = [] then 1 else ed_nr d + 1), heap = heap d + 1\<rparr>)"
  using assms by (cases "obj_phdr ob") (auto simp: extract_unwind_info_def obj_linfo_def obj_phdr_def)

lemma extract_no_header: "fst (obj_phdr ob) = None \<Longrightarrow> extract_unwind_info mem ob d = Ok (- ERR_NO_EH_PHDR, d)"
  by (cases "obj_phdr ob") (auto simp: extract_unwind_info_def obj_phdr_def)

lemma iterate_headers:
  assumes "\<forall>ob \<in> set obs. fst (obj_phdr ob) \<noteq> None" "\<forall>i < length (ed_list d) + length obs. mem i \<noteq> None"
    "ed_nr d = of_nat (length (ed_list d))"
  shows "dl_iterate_phdr (extract_unwind_info mem) (obs @ rest) d =
    dl_iterate_phdr (extract_unwind_info mem) rest
      \<lparr>ed_list = ed_list d @ segments mem (length (ed_list d)) obs, ed_nr = of_nat (length (ed_list d) + length obs),
       heap = heap d + length obs\<rparr>"
  using assms
proof (induction obs arbitrary: d)
  case (Cons ob obs)
  obtain old where old: "mem (length (ed_list d)) = Some old" using Cons.prems(2) by force
  let ?d = "\<lparr>ed_list = ed_list d @ [obj_linfo ob old], ed_nr = of_nat (Suc (length (ed_list d))), heap = heap d + 1\<rparr>"
  have "extract_unwind_info mem ob d = Ok (0, ?d)"
    using extract_step [of ob mem d old] old Cons.prems by auto
  then show ?case using Cons.IH [of ?d] Cons.prems old by simp
next
  case Nil
  then show ?case by (cases d) simp
qed

lemma proc_info_copied:
  assumes "length lis * LOAD_INFO_SIZE + PROC_INFO_SIZE < 2 ^ 32"
  shows "proc_info_copy True (Some \<lparr>pi_size = ucast (of_nat PROC_INFO_SIZE + of_nat (length lis) * of_nat LOAD_INFO_SIZE :: u64),
      pi_nr = ucast (of_nat (length lis) :: u64), pi_segments = lis\<rparr>) = PICopied (length lis) lis"
proof -
  let ?n = "length lis"
  have b: "?n < 2 ^ 32" using assms by (simp add: LOAD_INFO_SIZE_def PROC_INFO_SIZE_def)
  have s: "(of_nat PROC_INFO_SIZE + of_nat ?n * of_nat LOAD_INFO_SIZE :: u64) = of_nat (PROC_INFO_SIZE + ?n * LOAD_INFO_SIZE)"
    by simp
  have "unat (ucast (of_nat k :: u64) :: u32) = k" if "k < 2 ^ 32" for k
    using that by (simp add: unsigned_ucast_eq unsigned_of_nat take_bit_nat_eq_self_iff less_trans [of _ "2 ^ 32"])
  note u = this [OF b] this [of "PROC_INFO_SIZE + ?n * LOAD_INFO_SIZE"]
  show ?thesis unfolding s using u assms by (simp add: proc_info_copy_def LOAD_INFO_SIZE_def add.commute del: of_nat_add of_nat_mult)
qed


lemma find_proc_info_all:
  assumes "\<forall>ob \<in> set obs. fst (obj_phdr ob) \<noteq> None" "obs \<noteq> []" "\<forall>i < length obs. mem i \<noteq> None"
  shows "find_proc_info obs mem True hp =
    Ok (Some \<lparr>pi_size = ucast (of_nat PROC_INFO_SIZE + of_nat (length obs) * of_nat LOAD_INFO_SIZE :: u64),
              pi_nr = ucast (of_nat (length obs) :: u64), pi_segments = segments mem 0 obs\<rparr>, hp + 1)"
proof -
  have "segments mem 0 obs \<noteq> []" using assms(2) by (cases obs) simp_all
  from free_list [OF this] show ?thesis
    using iterate_headers [of obs "\<lparr>ed_list = [], ed_nr = 0, heap = hp\<rparr>" mem "[]"] assms
    by (simp add: find_proc_info_def)
qed

section \<open>Calls and sessions\<close>

lemma busy_init:
  assumes "kunwind_process_find (u_hash u) (kunw_map (dev s)) (u_pid u) \<noteq> None" "u_fopen u"
  shows "kunwind_init_proc_info u pi s = Ok (EBUSY, None, s)"
  using assms by (auto simp: kunwind_init_proc_info_def open_eq EBUSY_def)

text \<open>Any number of backtraces on one handle.\<close>

inductive traces :: "nat \<Rightarrow> uproc \<Rightarrow> uproc \<Rightarrow> bool" for fl where
  traces_refl: "traces fl s s"
| traces_call: "traces fl s s1 \<Longrightarrow> kunwind_backtrace_call e ok rs put_nr copy fl bt s1 = Ok (r, out, s2) \<Longrightarrow>
    traces fl s s2"

lemma traces_session:
  "traces fl s s' \<Longrightarrow> session h fl w (dev s) \<Longrightarrow> session h fl w (dev s') \<and> uheap s' = uheap s"
proof (induction rule: traces.induct)
  case (traces_call s s1 e ok rs put_nr copy bt r out s2)
  then obtain q os w1 where "kunwind_backtrace_ioctl e ok rs
      \<lparr>ba_max = Some (max_entries (fst bt)), ba_put_nr = put_nr, ba_copy = copy\<rparr> fl (dev s1) = Ok (q, os, w1)"
    "s2 = s1\<lparr>dev := w1\<rparr>"
    by (auto simp: kunwind_backtrace_call_def rbind_eq_Ok split: option.splits if_splits)
  then show ?case using traces_call by (auto intro: session_trace)
qed simp

section \<open>A process\<close>

text \<open>An object, the environment of a call and what the calls do in it, for the witnesses.\<close>

definition ex_obj :: dl_phdr_info where
  "ex_obj = \<lparr>dlpi_addr = 0x400000, dlpi_phdr = [\<lparr>p_type = 2, p_vaddr = 0x10, p_memsz = 1\<rparr>,
     \<lparr>p_type = 0x6474e550, p_vaddr = 0x100, p_memsz = 36\<rparr>]\<rparr>"

definition ex_uenv :: uenv where
  "ex_uenv = \<lparr>u_hash = (\<lambda>_. 0), u_pid = 10, u_compat = False, u_fopen = True, u_file = 1, u_kmods = 0x1000, u_knode = True,
     u_page = (\<lambda>_. PinError), u_kern = ex_kern, u_mm = None, u_kcopy = True, u_calloc = True\<rparr>"

lemma ex_obj_phdr: "obj_phdr ex_obj = (Some \<lparr>p_type = 0x6474e550, p_vaddr = 0x100, p_memsz = 36\<rparr>, True)"
  "obj_phdr (ex_obj\<lparr>dlpi_phdr := []\<rparr>) = (None, False)"
  by (simp_all add: obj_phdr_def ex_obj_def PT_GNU_EH_FRAME_def PT_DYNAMIC_def)

lemma ex_init:
  "kunwind_init_proc_info ex_uenv (Some \<lparr>pi_size = 112, pi_nr = 1, pi_segments = [ex_linfo]\<rparr>) \<lparr>dev = dev0, uheap = 0\<rparr> =
     Ok (0, Some 1, \<lparr>dev = dev2, uheap = 2\<rparr>)"
  using dev1_open dev2_load
  by (simp add: kunwind_init_proc_info_def ex_uenv_def proc_info_copy_def PROC_INFO_SIZE_def LOAD_INFO_SIZE_def syscall_ret_def)

section \<open>Properties\<close>




text \<open>
  A task whose second mapping starts with the headers of the object, and the block of an object whose field for the
  length of \<^verbatim>\<open>.eh_frame\<close> happens to be 0.
\<close>

definition ex_old :: load_info where
  "ex_old = ex_linfo\<lparr>eh_frame_size := 0, li_path := replicate LINFO_PATHLEN 0xaa\<rparr>"

definition ex_pages :: "vm_area \<Rightarrow> first_page" where
  "ex_pages v = PageAt \<lparr>e_ident = [0x7f, 0x45, 0x4c, 0x46],
     e_phdrs = (if vm_start v = 0x400000 then dlpi_phdr ex_obj else [])\<rparr>"


text \<open>
  Two fields of a segment are not assigned: when the memory that \<open>malloc\<close> returned held other values than 0
  there, the kernel takes the object's \<^verbatim>\<open>.eh_frame\<close> to be where they say.
\<close>

lemma unassigned_section_used:
  assumes "find_proc_info obs mem pmem hp = Ok (Some pi, n)" "\<forall>ob \<in> set obs. fst (obj_phdr ob) \<noteq> None" "i < length obs"
     "\<forall>j < length obs. mem j \<noteq> None" "mem i = Some old"
    "eh_frame_addr old \<noteq> 0" "eh_frame_size old \<noteq> 0"
    "fill_module kn (pi_segments pi ! i) c v ps a = Ok (r, Some km, same)"
  shows "sec_ubuf (ehf km) = eh_frame_addr old \<and> sec_size (ehf km) = ucast (eh_frame_size old)"
proof -
  have p: "pmem" using assms(1) by (auto simp: find_proc_info_def rbind_eq_Ok Let_def split: if_splits)
  have "obs \<noteq> []" using assms(3) by auto
  from find_proc_info_all [OF assms(2) this assms(4)] assms(1) p
  have "pi_segments pi = segments mem 0 obs" by auto
  then have "pi_segments pi ! i = obj_linfo (obs ! i) old" using assms(3,5) by (simp add: segments_nth)
  then have "eh_frame_addr (pi_segments pi ! i) = eh_frame_addr old" "eh_frame_size (pi_segments pi ! i) = eh_frame_size old"
    by (simp_all add: obj_linfo_def split: prod.splits)
  then show ?thesis
    using assms(6-8) by (auto simp: fill_module_def Let_def rbind_eq_Ok given_section_def split: if_splits sum.splits)
qed

text \<open>
  Opening through the library without getting a handle: a positive code means that nothing has changed;
  \<open>-ENOMEM\<close> that everything was given back but for the entry of the registry; any other negative code leaves the file open, so that one block stays on the
  heap and every later attempt of the process returns \<open>EBUSY\<close>.
\<close>

lemma init_without_handle:
  assumes "ht_wf (u_hash u) mv_tgid (kunw_map (dev s))" "same_view (u_kern u)"
    "kunwind_init_proc_info u pi s = Ok (ret, None, s')"
    "u_hash u' = u_hash u" "u_pid u' = u_pid u" "u_fopen u'"
  shows "if ret > 0 then s' = s
    else if ret = - ENOMEM then uheap s' = uheap s \<and> wres (dev s') = kalloc (wres (dev s)) \<and>
      kunwind_process_find (u_hash u) (kunw_map (dev s')) (u_pid u) = None
    else uheap s' = uheap s + 1 \<and> kunwind_init_proc_info u' pi' s' = Ok (EBUSY, None, s')"
proof (cases "u_fopen u")
  case True
  obtain r w where o: "kunwind_debug_open (u_hash u) (u_kmods u) (u_knode u) (u_compat u) (u_pid u) (u_file u) (dev s) = Ok (r, w)"
    using True assms(3) by (auto simp: kunwind_init_proc_info_def rbind_eq_Ok)
  show ?thesis
  proof (cases "r = 0")
    case False
    then show ?thesis using True o assms(3) open_refused [OF o] by (auto simp: kunwind_init_proc_info_def)
  next
    case r0: True
    let ?arg = "proc_info_copy (u_kcopy u) pi"
    note os = open_session [OF assms(1) o [unfolded r0]]
    obtain q w1 where l: "kunwind_proc_info_ioctl (u_page u) (u_kern u) (u_mm u) ?arg (u_file u) w = Ok (q, w1)"
      using True o r0 assms(3) by (auto simp: kunwind_init_proc_info_def rbind_eq_Ok)
    have m: "kunw_map w1 = kunw_map w" using l by (rule proc_info_ioctl_map)
    show ?thesis
    proof (cases "syscall_ret q < 0")
      case neg: True
      then have "ret = syscall_ret q" "s' = s\<lparr>dev := w1, uheap := uheap s + 1\<rparr>"
        using True o r0 l assms(3) by (auto simp: kunwind_init_proc_info_def)
      moreover have "syscall_ret q \<noteq> - ENOMEM" using neg by (auto simp: syscall_ret_def ENOMEM_def split: if_splits)
      ultimately show ?thesis
        using neg os m busy_init [of u' s'] assms(4-6) by simp
    next
      case False
      then have c: "\<not> u_calloc u" using True o r0 l assms(3) by (auto simp: kunwind_init_proc_info_def Let_def split: if_splits)
      have "session (u_hash u) (u_file u) w w1" by (rule session_load [OF session_refl assms(2) l])
      from session_released [OF assms(1) o [unfolded r0] this] show ?thesis
        using True o r0 l c False assms(3) by (auto simp: kunwind_init_proc_info_def ENOMEM_def)
    qed
  qed
qed (use assms(3) in \<open>auto simp: kunwind_init_proc_info_def ENOMEM_def\<close>)

text \<open>
  An object without a header for \<^verbatim>\<open>.eh_frame_hdr\<close>: when it is the first one, \<open>find_proc_info\<close> frees a list that is
  empty and loads through the null pointer; behind others it returns \<open>NULL\<close>, with all of them freed.
\<close>

lemma missing_header_outcome:
  assumes "\<forall>ob \<in> set obs. fst (obj_phdr ob) \<noteq> None" "fst (obj_phdr ob) = None" "\<forall>i < length obs. mem i \<noteq> None"
  shows "find_proc_info (obs @ ob # rest) mem pmem hp =
    (if obs = [] then Fault (BadRead 104) else Ok (None, hp))"
  using iterate_headers [of obs "\<lparr>ed_list = [], ed_nr = 0, heap = hp\<rparr>" mem "ob # rest"]
    free_list [of "segments mem 0 obs" "hp + length obs"] assms
  by (cases obs) (simp_all add: find_proc_info_def extract_no_header LOAD_INFO_SIZE_def ERR_NO_EH_PHDR_def)

end
