(* ===== verification/Device_Refine.thy ===== *)
theory Device_Refine
  imports Device_Spec
begin

text \<open>
  The device seen from outside: an abstract device in which each process has its modules as a value and
  each open file an owner, without addresses, registry or freed memory, and the proof that the model of
  \<^verbatim>\<open>src/kunwind-debug.c\<close> answers every sequence of orderly requests as the abstract device does.
\<close>

section \<open>Requests\<close>

text \<open>
  One call into the module with what it gets from its environment: the result of \<open>kmalloc\<close> and whether
  \<open>kzalloc\<close> has memory, the caller, the file, the user's arguments and the memory of the task.
\<close>

datatype dev_req =
    ROpen addr bool bool pid nat
  | RRelease pid nat
  | RIoctl "vm_area \<Rightarrow> first_page" kern "vm_area list option" unw_env bool "u64 list" u32 proc_info_arg bt_arg nat
  | RHook unw_env "u64 list" pid kunwind_backtrace

datatype dev_reply = Code int "u64 list option" | Trace kunwind_backtrace

fun dev_call :: "map_hash \<Rightarrow> dev_req \<Rightarrow> world \<Rightarrow> (dev_reply \<times> world) res" where
  "dev_call h (ROpen p node c pid fl) w =
     rbind (kunwind_debug_open h p node c pid fl w) (\<lambda>(r, w). Ok (Code r None, w))"
| "dev_call h (RRelease pid fl) w =
     rbind (kunwind_debug_release h pid fl w) (\<lambda>(r, w). Ok (Code r None, w))"
| "dev_call h (RIoctl page kn mm e alloc_ok rs cmd arg ba fl) w =
     rbind (kunwind_debug_ioctl page kn mm e alloc_ok rs cmd arg ba fl w) (\<lambda>(r, out, w). Ok (Code r out, w))"
| "dev_call h (RHook e rs pid tr) w =
     rbind (save_stack_trace_kunwind h e rs pid tr w) (\<lambda>(tr, w). Ok (Trace tr, w))"

section \<open>The abstract device\<close>

record dev_spec =
  ds_mods :: "pid \<rightharpoonup> kunwind_proc_modules"
  ds_owner :: "nat \<rightharpoonup> pid"
  ds_res :: kres

definition initial_spec :: "kres \<Rightarrow> dev_spec" where
  "initial_spec k = \<lparr>ds_mods = Map.empty, ds_owner = Map.empty, ds_res = k\<rparr>"

text \<open>The two ioctls on the modules themselves.\<close>

definition load_modules ::
  "(vm_area \<Rightarrow> first_page) \<Rightarrow> kern \<Rightarrow> vm_area list option \<Rightarrow> proc_info_arg \<Rightarrow> kunwind_proc_modules \<Rightarrow> kres \<Rightarrow>
   (int \<times> kunwind_proc_modules \<times> kres) res" where
  "load_modules page kn mm arg m k =
     (case arg of
        PINull \<Rightarrow> init_modules_from_task page kn mm m k
      | PINoMem \<Rightarrow> Ok (- ENOMEM, m, k)
      | PIShort \<Rightarrow> Fault BadIndex
      | PICopied n lis \<Rightarrow>
          rbind (init_modules_from_proc_info kn (take n lis) m k) (\<lambda>(r, m, k).
            if r = 0 \<and> length lis < n then Fault BadIndex else Ok (r, m, k))
      | _ \<Rightarrow> Ok (- EFAULT, m, k))"

definition trace_modules ::
  "unw_env \<Rightarrow> bool \<Rightarrow> u64 list \<Rightarrow> bt_arg \<Rightarrow> kunwind_proc_modules \<Rightarrow>
   (int \<times> u64 list option \<times> kunwind_proc_modules) res" where
  "trace_modules e alloc_ok rs ba m =
     (case ba_max ba of
        None \<Rightarrow> Ok (- EFAULT, None, m)
      | Some mx \<Rightarrow>
          if mx = 0 then Ok (- EINVAL, None, m)
          else if \<not> alloc_ok then Ok (- ENOMEM, None, m)
          else rbind (do_current_unwind e rs m
                   \<lparr>max_entries = min mx entries_limit, nr_entries = 0, bt_entries = [], bt_null = False\<rparr>)
            (\<lambda>(ret, _, m, bt).
              Ok (if ret = 0 \<and> ba_put_nr ba \<and> ba_copy ba then (0, Some (bt_entries bt), m) else (- EFAULT, None, m))))"

definition ioctl_modules ::
  "(vm_area \<Rightarrow> first_page) \<Rightarrow> kern \<Rightarrow> vm_area list option \<Rightarrow> unw_env \<Rightarrow> bool \<Rightarrow> u64 list \<Rightarrow>
   u32 \<Rightarrow> proc_info_arg \<Rightarrow> bt_arg \<Rightarrow> kunwind_proc_modules \<Rightarrow> kres \<Rightarrow>
   (int \<times> u64 list option \<times> kunwind_proc_modules \<times> kres) res" where
  "ioctl_modules page kn mm e alloc_ok rs cmd arg ba m k =
     (if cmd = KUNWIND_PROC_INFO_IOCTL then
        rbind (load_modules page kn mm arg m k) (\<lambda>(r, m, k). Ok (r, None, m, k))
      else if cmd = KUNWIND_UNWIND_IOCTL then
        rbind (trace_modules e alloc_ok rs ba m) (\<lambda>(r, out, m). Ok (r, out, m, k))
      else Ok (- ENOIOCTLCMD, None, m, k))"

text \<open>
  A process has at most one session. What an ioctl does is done to the modules of the file's owner.
\<close>

fun spec_call :: "dev_req \<Rightarrow> dev_spec \<Rightarrow> (dev_reply \<times> dev_spec) res" where
  "spec_call (ROpen p node c pid fl) s =
     (if ds_mods s pid \<noteq> None then Ok (Code (- EBUSY) None, s)
      else if p = 0 then Ok (Code (- ENOMEM) None, s)
      else if \<not> node then Fault (BadRead 0)
      else Ok (Code 0 None,
               s\<lparr>ds_mods := (ds_mods s)(pid \<mapsto> \<lparr>stp_modules = [], unw_cache = unw_cache_init, mods_compat = c\<rparr>),
                 ds_owner := (ds_owner s)(fl \<mapsto> pid), ds_res := kalloc (kalloc (ds_res s))\<rparr>))"
| "spec_call (RRelease pid fl) s =
     Ok (Code 0 None,
         s\<lparr>ds_mods := (ds_mods s)(pid := None), ds_owner := (ds_owner s)(fl := None),
           ds_res := (case ds_mods s pid of None \<Rightarrow> ds_res s | Some m \<Rightarrow> snd (release_unwind_info m (ds_res s)))\<rparr>)"
| "spec_call (RIoctl page kn mm e alloc_ok rs cmd arg ba fl) s =
     (let pid = the (ds_owner s fl)
      in rbind (ioctl_modules page kn mm e alloc_ok rs cmd arg ba (the (ds_mods s pid)) (ds_res s)) (\<lambda>(r, out, m, k).
           Ok (Code r out, s\<lparr>ds_mods := (ds_mods s)(pid \<mapsto> m), ds_res := k\<rparr>)))"
| "spec_call (RHook e rs pid tr) s =
     (case ds_mods s pid of
        None \<Rightarrow> Ok (Trace tr, s)
      | Some m \<Rightarrow>
          rbind (do_current_unwind e rs m tr) (\<lambda>(_, _, m, tr). Ok (Trace tr, s\<lparr>ds_mods := (ds_mods s)(pid \<mapsto> m)\<rparr>)))"

text \<open>
  Orderly requests: a file is opened once, used while it is open, and released by the process that has
  opened it.
\<close>

fun orderly :: "dev_req \<Rightarrow> dev_spec \<Rightarrow> bool" where
  "orderly (ROpen p node c pid fl) s \<longleftrightarrow> ds_owner s fl = None"
| "orderly (RRelease pid fl) s \<longleftrightarrow> ds_owner s fl = Some pid"
| "orderly (RIoctl page kn mm e alloc_ok rs cmd arg ba fl) s \<longleftrightarrow> ds_owner s fl \<noteq> None"
| "orderly (RHook e rs pid tr) s \<longleftrightarrow> True"

text \<open>\<open>kmalloc\<close> returns memory that is not in use.\<close>

fun fresh :: "dev_req \<Rightarrow> world \<Rightarrow> bool" where
  "fresh (ROpen p node c pid fl) w \<longleftrightarrow> objs w p = None"
| "fresh _ w \<longleftrightarrow> True"

section \<open>Runs of two machines\<close>

text \<open>A sequence of requests gives the replies up to the first fault.\<close>

fun run :: "('q \<Rightarrow> 's \<Rightarrow> ('a \<times> 's) res) \<Rightarrow> 'q list \<Rightarrow> 's \<Rightarrow> ('a list \<times> 's) res" where
  "run call [] s = Ok ([], s)"
| "run call (q # qs) s =
     rbind (call q s) (\<lambda>(a, s). rbind (run call qs s) (\<lambda>(as, s). Ok (a # as, s)))"

fun always :: "('q \<Rightarrow> 's \<Rightarrow> ('a \<times> 's) res) \<Rightarrow> ('q \<Rightarrow> 's \<Rightarrow> bool) \<Rightarrow> 'q list \<Rightarrow> 's \<Rightarrow> bool" where
  "always call P [] s \<longleftrightarrow> True"
| "always call P (q # qs) s \<longleftrightarrow>
     P q s \<and> (case call q s of Ok (a, s') \<Rightarrow> always call P qs s' | Fault _ \<Rightarrow> True)"

text \<open>
  \<open>same_answer\<close>: the same reply and related states, or the same fault.
\<close>

definition same_answer :: "('s \<Rightarrow> 't \<Rightarrow> bool) \<Rightarrow> ('a \<times> 's) res \<Rightarrow> ('a \<times> 't) res \<Rightarrow> bool" where
  "same_answer R x y \<longleftrightarrow>
     (case (x, y) of
        (Ok (a, s), Ok (b, t)) \<Rightarrow> a = b \<and> R s t
      | (Fault f, Fault g) \<Rightarrow> f = g
      | _ \<Rightarrow> False)"

lemma same_answer_simps [simp]:
  "same_answer R (Ok (a, s)) (Ok (b, t)) \<longleftrightarrow> a = b \<and> R s t"
  "same_answer R (Fault f) (Fault g) \<longleftrightarrow> f = g"
  by (simp_all add: same_answer_def)

lemma same_answerE:
  assumes "same_answer R x y"
  obtains a s t where "x = Ok (a, s)" "y = Ok (a, t)" "R s t" | f where "x = Fault f" "y = Fault f"
  using assms by (cases x; cases y) (auto simp: same_answer_def)

text \<open>One law, for a single request, carries over to every run.\<close>

locale call_refinement =
  fixes call :: "'q \<Rightarrow> 's \<Rightarrow> ('a \<times> 's) res"
    and acall :: "'q \<Rightarrow> 't \<Rightarrow> ('a \<times> 't) res"
    and R :: "'s \<Rightarrow> 't \<Rightarrow> bool"
    and env :: "'q \<Rightarrow> 's \<Rightarrow> bool"
    and allowed :: "'q \<Rightarrow> 't \<Rightarrow> bool"
  assumes call_refines: "R s t \<Longrightarrow> env q s \<Longrightarrow> allowed q t \<Longrightarrow> same_answer R (call q s) (acall q t)"
begin

lemma run_refines:
  "R s t \<Longrightarrow> always call env qs s \<Longrightarrow> always acall allowed qs t \<Longrightarrow> same_answer R (run call qs s) (run acall qs t)"
proof (induction qs arbitrary: s t)
  case (Cons q qs)
  have c: "same_answer R (call q s) (acall q t)" using Cons.prems by (intro call_refines) auto
  then show ?case
  proof (cases rule: same_answerE)
    case (1 a s' t')
    then have "same_answer R (run call qs s') (run acall qs t')" using Cons by auto
    then show ?thesis using 1 by (cases rule: same_answerE) simp_all
  qed simp
qed simp

end

section \<open>The device refines the abstract device\<close>

definition registered_modules :: "map_hash \<Rightarrow> world \<Rightarrow> pid \<rightharpoonup> kunwind_proc_modules" where
  "registered_modules h w pid =
     (case kunwind_process_find h (kunw_map w) pid of None \<Rightarrow> None | Some v \<Rightarrow> objs w (mv_mods v))"

definition owns :: "map_hash \<Rightarrow> world \<Rightarrow> pid \<Rightarrow> nat \<Rightarrow> bool" where
  "owns h w pid fl \<longleftrightarrow> kunwind_process_find h (kunw_map w) pid = Some \<lparr>mv_tgid = pid, mv_mods = private_data w fl\<rparr>"

definition dev_rel :: "map_hash \<Rightarrow> world \<Rightarrow> dev_spec \<Rightarrow> bool" where
  "dev_rel h w s \<longleftrightarrow>
     registered_live h w \<and> registered_modules h w = ds_mods s \<and> wres w = ds_res s \<and>
     (\<forall>fl q. ds_owner s fl = Some q \<longrightarrow> owns h w q fl) \<and>
     (\<forall>fl fl' q. ds_owner s fl = Some q \<longrightarrow> ds_owner s fl' = Some q \<longrightarrow> fl = fl')"

lemma dev_rel_initial: "dev_rel h (initial_world k) (initial_spec k)"
  using live_initial [of h k]
  by (auto simp: dev_rel_def registered_modules_def initial_world_def initial_spec_def pr.lookup_emp)

lemma registered_None:
  "registered_live h w \<Longrightarrow> registered_modules h w q = None \<longleftrightarrow> kunwind_process_find h (kunw_map w) q = None"
  using liveD by (fastforce simp: registered_modules_def split: option.splits)

lemma owned_mods:
  "dev_rel h w s \<Longrightarrow> ds_owner s fl = Some q \<Longrightarrow> \<exists>m. ds_mods s q = Some m \<and> objs w (private_data w fl) = Some m"
proof -
  assume a: "dev_rel h w s" "ds_owner s fl = Some q"
  then have o: "kunwind_process_find h (kunw_map w) q = Some \<lparr>mv_tgid = q, mv_mods = private_data w fl\<rparr>"
    by (simp add: dev_rel_def owns_def)
  have "registered_live h w" "ds_mods s = registered_modules h w" using a(1) by (simp_all add: dev_rel_def)
  with liveD [OF this(1) o] o show ?thesis by (auto simp: registered_modules_def)
qed

text \<open>Writing an object through a file or an entry of the registry changes one process's modules.\<close>

lemma dev_rel_write:
  assumes "dev_rel h w s" "kunwind_process_find h (kunw_map w) q = Some v"
  shows "dev_rel h (w\<lparr>objs := (objs w)(mv_mods v \<mapsto> m), wres := k\<rparr>) (s\<lparr>ds_mods := (ds_mods s)(q \<mapsto> m), ds_res := k\<rparr>)"
proof -
  let ?w = "w\<lparr>objs := (objs w)(mv_mods v \<mapsto> m), wres := k\<rparr>"
  have l: "registered_live h w" using assms(1) by (simp add: dev_rel_def)
  have "registered_modules h ?w = (registered_modules h w)(q \<mapsto> m)"
    using assms(2) l by (auto simp: fun_eq_iff registered_modules_def registered_live_def split: option.splits)
  moreover have "registered_live h ?w" by (rule live_objs [OF l]) auto
  ultimately show ?thesis using assms(1) by (simp add: dev_rel_def owns_def)
qed

lemma dev_rel_open:
  assumes "dev_rel h w s" "objs w p = None" "kunwind_process_find h (kunw_map w) pid = None" "ds_owner s fl = None"
  shows "dev_rel h (opened h p c pid fl w)
    (s\<lparr>ds_mods := (ds_mods s)(pid \<mapsto> \<lparr>stp_modules = [], unw_cache = unw_cache_init, mods_compat = c\<rparr>),
       ds_owner := (ds_owner s)(fl \<mapsto> pid), ds_res := kalloc (kalloc (ds_res s))\<rparr>)"
proof -
  have l: "registered_live h w" using assms(1) by (simp add: dev_rel_def)
  then have wf: "ht_wf h mv_tgid (kunw_map w)" by (simp add: registered_live_def)
  note f = find_opened [OF wf assms(3), of p c fl]
  have o: "objs (opened h p c pid fl w) = (objs w)(p \<mapsto> \<lparr>stp_modules = [], unw_cache = unw_cache_init, mods_compat = c\<rparr>)"
    "private_data (opened h p c pid fl w) = (private_data w)(fl := p)" "wres (opened h p c pid fl w) = kalloc (kalloc (wres w))"
    by (simp_all add: opened_def)
  have "registered_modules h (opened h p c pid fl w) q =
      ((registered_modules h w)(pid \<mapsto> \<lparr>stp_modules = [], unw_cache = unw_cache_init, mods_compat = c\<rparr>)) q" for q
    using assms(2,3) liveD [OF l, of q] by (auto simp: registered_modules_def f o split: option.splits)
  moreover have "registered_live h (opened h p c pid fl w)" by (rule live_opened [OF l assms(2,3)])
  moreover have "ds_owner s fl' \<noteq> Some pid" for fl' using assms(1,3) by (auto simp: dev_rel_def owns_def)
  ultimately show ?thesis
    using assms(1,4) by (auto simp: dev_rel_def owns_def f o fun_eq_iff)
qed

lemma dev_rel_release:
  assumes "dev_rel h w s" "ds_owner s fl = Some pid"
  shows "same_answer (dev_rel h) (dev_call h (RRelease pid fl) w) (spec_call (RRelease pid fl) s)"
proof -
  let ?v = "\<lparr>mv_tgid = pid, mv_mods = private_data w fl\<rparr>"
  have l: "registered_live h w" using assms(1) by (simp add: dev_rel_def)
  then have wf: "ht_wf h mv_tgid (kunw_map w)" by (simp add: registered_live_def)
  have v: "kunwind_process_find h (kunw_map w) pid = Some ?v" using assms by (simp add: dev_rel_def owns_def)
  obtain m where m: "ds_mods s pid = Some m" "objs w (private_data w fl) = Some m" using owned_mods [OF assms] by blast
  define w' where "w' = w\<lparr>kunw_map := kunwind_process_unlink h pid (kunw_map w), objs := (objs w)(private_data w fl := None),
    wres := snd (release_unwind_info m (wres w)), private_data := (private_data w)(fl := 0)\<rparr>"
  have r: "kunwind_debug_release h pid fl w = Ok (0, w')"
    using v m(2) by (simp add: kunwind_debug_release_def kunwind_process_unregister_def w'_def)
  have f: "kunwind_process_find h (kunw_map w') q = (if q = pid then None else kunwind_process_find h (kunw_map w) q)" for q
    using pr.lookup_del [OF wf] by (simp add: w'_def)
  have other: "mv_mods u \<noteq> private_data w fl" if "kunwind_process_find h (kunw_map w) q = Some u" "q \<noteq> pid" for q u
    using l v that by (fastforce simp: registered_live_def)
  have "registered_modules h w' = (registered_modules h w)(pid := None)"
    using other by (auto simp: registered_modules_def f fun_eq_iff split: option.splits) (simp add: w'_def)
  moreover have "owns h w' q fl'" if "ds_owner s fl' = Some q" "fl' \<noteq> fl" for q fl'
    using that assms by (auto simp: dev_rel_def owns_def f) (simp add: w'_def)
  moreover have "registered_live h w'" by (rule live_release(1) [OF l r])
  ultimately show ?thesis
    using assms(1) m(1) by (auto simp: r dev_rel_def) (simp_all add: w'_def)
qed

lemma set_mods_same: "objs w (private_data w fl) = Some m \<Longrightarrow> set_mods fl m (wres w) w = w"
  by (simp add: set_mods_def map_upd_triv)

lemma load_ioctl_eq:
  assumes "objs w (private_data w fl) = Some m"
  shows "kunwind_proc_info_ioctl page kn mm arg fl w =
    rbind (load_modules page kn mm arg m (wres w)) (\<lambda>(r, m, k). Ok (r, set_mods fl m k w))"
  using assms
  by (cases arg)
    (auto simp: kunwind_proc_info_ioctl_def kunwind_init_ioctl_def load_modules_def file_mods_def set_mods_same rbind_assoc
      intro!: rbind_cong)

lemma trace_ioctl_eq:
  assumes "objs w (private_data w fl) = Some m"
  shows "kunwind_backtrace_ioctl e ok rs ba fl w =
    rbind (trace_modules e ok rs ba m) (\<lambda>(r, out, m). Ok (r, out, set_mods fl m (wres w) w))"
  using assms
  by (cases "ba_max ba")
    (auto simp: kunwind_backtrace_ioctl_def trace_modules_def file_mods_def set_mods_same Let_def rbind_assoc intro!: rbind_cong)

lemma ioctl_eq:
  assumes "objs w (private_data w fl) = Some m"
  shows "kunwind_debug_ioctl page kn mm e ok rs cmd arg ba fl w =
    rbind (ioctl_modules page kn mm e ok rs cmd arg ba m (wres w)) (\<lambda>(r, out, m, k). Ok (r, out, set_mods fl m k w))"
  using set_mods_same [OF assms]
  by (simp add: kunwind_debug_ioctl_def ioctl_modules_def load_ioctl_eq [OF assms] trace_ioctl_eq [OF assms] rbind_assoc)
    (auto intro!: rbind_cong)

lemma dev_rel_ioctl:
  assumes "dev_rel h w s" "ds_owner s fl = Some pid"
  shows "same_answer (dev_rel h) (dev_call h (RIoctl page kn mm e ok rs cmd arg ba fl) w)
    (spec_call (RIoctl page kn mm e ok rs cmd arg ba fl) s)"
proof -
  obtain m where m: "ds_mods s pid = Some m" "objs w (private_data w fl) = Some m" using owned_mods [OF assms] by blast
  have v: "kunwind_process_find h (kunw_map w) pid = Some \<lparr>mv_tgid = pid, mv_mods = private_data w fl\<rparr>" and k: "wres w = ds_res s"
    using assms by (simp_all add: dev_rel_def owns_def)
  show ?thesis
  proof (cases "ioctl_modules page kn mm e ok rs cmd arg ba m (ds_res s)")
    case (Ok x)
    then show ?thesis
      using m assms(2) dev_rel_write [OF assms(1) v] by (cases x) (simp add: ioctl_eq [OF m(2)] k set_mods_def)
  next
    case (Fault f)
    then show ?thesis using m assms(2) by (simp add: ioctl_eq [OF m(2)] k)
  qed
qed

lemma dev_rel_hook:
  assumes "dev_rel h w s"
  shows "same_answer (dev_rel h) (dev_call h (RHook e rs pid tr) w) (spec_call (RHook e rs pid tr) s)"
proof -
  have l: "registered_live h w" and s: "ds_mods s = registered_modules h w" "ds_res s = wres w"
    using assms by (simp_all add: dev_rel_def)
  show ?thesis
  proof (cases "kunwind_process_find h (kunw_map w) pid")
    case None
    then show ?thesis using assms by (simp add: save_stack_trace_kunwind_def s registered_modules_def)
  next
    case (Some v)
    then obtain m where m: "objs w (mv_mods v) = Some m" using liveD [OF l] by blast
    have k: "s\<lparr>ds_mods := M, ds_res := wres w\<rparr> = s\<lparr>ds_mods := M\<rparr>" for M using s(2) by (cases s) simp
    show ?thesis
    proof (cases "do_current_unwind e rs m tr")
      case (Ok x)
      then show ?thesis
        using Some m dev_rel_write [OF assms Some, where k = "wres w"]
        by (cases x) (simp add: save_stack_trace_kunwind_def s k registered_modules_def)
    next
      case (Fault f)
      then show ?thesis using Some m by (simp add: save_stack_trace_kunwind_def s registered_modules_def)
    qed
  qed
qed

lemma dev_call_refines:
  assumes "dev_rel h w s" "fresh q w" "orderly q s"
  shows "same_answer (dev_rel h) (dev_call h q w) (spec_call q s)"
proof (cases q)
  case (ROpen p node c pid fl)
  have "registered_modules h w pid = None \<longleftrightarrow> kunwind_process_find h (kunw_map w) pid = None" "ds_mods s = registered_modules h w"
    using assms(1) registered_None [of h w pid] by (auto simp: dev_rel_def)
  then show ?thesis
    using assms dev_rel_open [OF assms(1)] by (auto simp: ROpen open_eq)
next
  case (RIoctl page kn mm e ok rs cmd arg ba fl)
  then obtain pid where "ds_owner s fl = Some pid" using assms(3) by auto
  then show ?thesis unfolding RIoctl by (rule dev_rel_ioctl [OF assms(1)])
qed (use assms dev_rel_release dev_rel_hook in \<open>simp_all del: dev_call.simps spec_call.simps\<close>)

interpretation device: call_refinement "dev_call h" spec_call "dev_rel h" fresh orderly
  for h :: map_hash
  by unfold_locales (rule dev_call_refines)

section \<open>Processes are independent\<close>

text \<open>The requests that concern a process: its own calls, and the ioctls on its file.\<close>

fun concerns :: "pid \<Rightarrow> dev_req \<Rightarrow> dev_spec \<Rightarrow> bool" where
  "concerns pid (ROpen p node c q fl) s \<longleftrightarrow> q = pid"
| "concerns pid (RRelease q fl) s \<longleftrightarrow> q = pid"
| "concerns pid (RIoctl page kn mm e alloc_ok rs cmd arg ba fl) s \<longleftrightarrow> ds_owner s fl = Some pid"
| "concerns pid (RHook e rs q tr) s \<longleftrightarrow> q = pid"

lemma spec_call_others:
  assumes "spec_call q s = Ok (a, s')" "orderly q s" "\<not> concerns pid q s"
  shows "ds_mods s' pid = ds_mods s pid"
  using assms by (cases q) (auto simp: Let_def rbind_eq_Ok split: if_splits option.splits)

lemma spec_run_others:
  "run spec_call qs s = Ok (as, s') \<Longrightarrow> always spec_call orderly qs s \<Longrightarrow>
   always spec_call (\<lambda>q s. \<not> concerns pid q s) qs s \<Longrightarrow> ds_mods s' pid = ds_mods s pid"
proof (induction qs arbitrary: s as)
  case (Cons q qs)
  then obtain a s1 as1 where "spec_call q s = Ok (a, s1)" "run spec_call qs s1 = Ok (as1, s')"
    by (auto simp: rbind_eq_Ok)
  then show ?case using Cons spec_call_others by fastforce
qed simp

section \<open>A run\<close>

text \<open>
  For the witnesses: a process opens the device and loads one object, tries to open it again, and releases it.
\<close>

definition ex_load_req :: dev_req where
  "ex_load_req = RIoctl (\<lambda>_. PinError) ex_kern None std_env True [] KUNWIND_PROC_INFO_IOCTL (PICopied 1 [ex_linfo])
     \<lparr>ba_max = None, ba_put_nr = True, ba_copy = True\<rparr> 1"

definition ex_reqs :: "dev_req list" where
  "ex_reqs = [ROpen 0x1000 True False 10 1, ex_load_req, ROpen 0x2000 True False 10 2, RRelease 10 1]"

definition ex_spec :: dev_spec where
  "ex_spec = initial_spec \<lparr>pinned = {#}, vmaps = {#}, allocs = 0\<rparr>"

lemma ex_load_spec:
  assumes "ds_owner s 1 = Some 10" "ds_mods s 10 = Some m"
  shows "spec_call ex_load_req s = Ok (Code 0 None,
    s\<lparr>ds_mods := (ds_mods s)(10 \<mapsto> m\<lparr>stp_modules := stp_modules m @ [ex_loaded]\<rparr>),
      ds_res := kvmap 0x10000 (take_pages [0, 1] (kalloc (kalloc (ds_res s))))\<rparr>)"
  using assms by (simp add: ex_load_req_def ioctl_modules_def load_modules_def ex_kern_loads del: init_modules_from_proc_info.simps)

lemma ex_load_orderly: "orderly ex_load_req s \<longleftrightarrow> ds_owner s 1 \<noteq> None" "fresh ex_load_req w"
  by (simp_all add: ex_load_req_def)

lemma ex_reqs_spec:
  "\<exists>s. run spec_call ex_reqs ex_spec = Ok ([Code 0 None, Code 0 None, Code (- EBUSY) None, Code 0 None], s) \<and>
     ds_mods s = Map.empty"
  by (simp add: ex_reqs_def ex_spec_def initial_spec_def ex_load_spec)

lemma ex_reqs_orderly: "always spec_call orderly ex_reqs ex_spec"
  by (simp add: ex_reqs_def ex_spec_def initial_spec_def ex_load_spec ex_load_orderly)

lemma dev1_call: "dev_call (\<lambda>_. 0) (ROpen 0x1000 True False 10 1) dev0 = Ok (Code 0 None, dev1)"
  using dev1_open by simp

lemma dev2_call: "dev_call (\<lambda>_. 0) ex_load_req dev1 = Ok (Code 0 None, dev2)"
  using dev2_load by (simp add: ex_load_req_def kunwind_debug_ioctl_def)

lemma dev2_objs: "a \<noteq> 0x1000 \<Longrightarrow> objs dev2 a = None"
  using dev0_wf(2) by (simp add: dev2_def set_mods_def dev1_fields) (simp add: dev1_def opened_def)

lemma ex_reqs_fresh: "always (dev_call (\<lambda>_. 0)) fresh ex_reqs dev0"
  unfolding ex_reqs_def
  by (simp add: dev1_call dev2_call ex_load_orderly dev0_wf(2) dev2_objs del: dev_call.simps One_nat_def split: res.splits)

lemma dev2_rel: "\<exists>s. dev_rel (\<lambda>_. 0) dev2 s \<and> ds_owner s = [1 \<mapsto> 10] \<and> ds_mods s 11 = None"
proof -
  let ?qs = "[ROpen 0x1000 True False 10 1, ex_load_req]"
  have r: "run (dev_call (\<lambda>_. 0)) ?qs dev0 = Ok ([Code 0 None, Code 0 None], dev2)"
    by (simp add: dev1_call dev2_call del: dev_call.simps One_nat_def)
  have "always (dev_call (\<lambda>_. 0)) fresh ?qs dev0" by (simp add: ex_load_orderly dev0_wf(2) split: res.splits)
  moreover have "always spec_call orderly ?qs ex_spec" by (simp add: ex_spec_def initial_spec_def ex_load_spec ex_load_orderly)
  moreover have "dev_rel (\<lambda>_. 0) dev0 ex_spec" unfolding dev0_def ex_spec_def by (rule dev_rel_initial)
  ultimately have "same_answer (dev_rel (\<lambda>_. 0)) (run (dev_call (\<lambda>_. 0)) ?qs dev0) (run spec_call ?qs ex_spec)"
    by (intro device.run_refines)
  then show ?thesis unfolding r by (auto simp: ex_load_spec ex_spec_def initial_spec_def elim!: same_answerE)
qed

section \<open>Properties\<close>

text \<open>
  C15. The device implements the abstract one: from the state after loading, for every sequence of
  requests, by any processes and interleaved in any way, in which a file is opened once, used while it is open and
  released by the process that has opened it, the device gives the replies of the abstract device, in
  which each process has its modules as a value, or meets the fault that it meets; the modules registered for each process
  are its value, each open file leads to the modules of its owner, and the resources held are the same. \<open>kmalloc\<close> is
  assumed to return memory that is not in use.
\<close>

theorem device_implements_spec:
  assumes "always (dev_call h) fresh qs (initial_world k)"
    "always spec_call orderly qs (initial_spec k)"
  shows "case (run (dev_call h) qs (initial_world k),
               run spec_call qs (initial_spec k)) of
      (Ok (as, w), Ok (bs, s)) \<Rightarrow> as = bs \<and> registered_modules h w = ds_mods s \<and> wres w = ds_res s \<and>
        (\<forall>fl pid. ds_owner s fl = Some pid \<longrightarrow> (\<exists>m. file_mods fl w = Ok m \<and> ds_mods s pid = Some m))
    | (Fault f, Fault g) \<Rightarrow> f = g
    | _ \<Rightarrow> False"
  using device.run_refines [OF dev_rel_initial assms]
proof (cases rule: same_answerE)
  case (1 a w s)
  have "\<exists>m. file_mods fl w = Ok m \<and> ds_mods s pid = Some m" if "ds_owner s fl = Some pid" for fl pid
    using owned_mods [OF 1(3) that] by (auto simp: file_mods_def)
  then show ?thesis using 1 by (simp add: dev_rel_def)
qed simp

theorem device_implements_spec_witness:
  "\<exists>w. run (dev_call (\<lambda>_. 0)) ex_reqs dev0 = Ok ([Code 0 None, Code 0 None, Code (- EBUSY) None, Code 0 None], w) \<and>
     registered_modules (\<lambda>_. 0) w = Map.empty"
  using device_implements_spec [OF ex_reqs_fresh [unfolded dev0_def] ex_reqs_orderly [unfolded ex_spec_def]] ex_reqs_spec
  by (auto simp: dev0_def ex_spec_def split: res.splits prod.splits)

text \<open>
  C25. Processes do not disturb each other: after any orderly run, requests that do not concern a process,
  whether they succeed or fail, leave the modules registered for it as they are, with their cache.
\<close>

theorem processes_independent:
  assumes "dev_rel h w s" "always (dev_call h) fresh qs w" "always spec_call orderly qs s"
    "always spec_call (\<lambda>q s. \<not> concerns pid q s) qs s" "run (dev_call h) qs w = Ok (as, w')"
  shows "registered_modules h w' pid = registered_modules h w pid"
  using device.run_refines [OF assms(1-3)]
proof (cases rule: same_answerE)
  case (1 a w1 s1)
  then show ?thesis using spec_run_others [OF 1(2) assms(3,4)] assms(1,5) by (simp add: dev_rel_def)
qed (use assms(5) in simp)

theorem processes_independent_witness:
  "\<exists>as w. run (dev_call (\<lambda>_. 0)) [ROpen 0x2000 True False 11 2, RRelease 11 2] dev2 = Ok (as, w) \<and>
     registered_modules (\<lambda>_. 0) w 10 = registered_modules (\<lambda>_. 0) dev2 10"
proof -
  obtain s where s: "dev_rel (\<lambda>_. 0) dev2 s" "ds_owner s = [1 \<mapsto> 10]" "ds_mods s 11 = None" using dev2_rel by blast
  let ?qs = "[ROpen 0x2000 True False 11 2, RRelease 11 2]"
  have f: "always (dev_call (\<lambda>_. 0)) fresh ?qs dev2" using dev2_objs by (auto split: res.splits)
  have a: "always spec_call orderly ?qs s" "always spec_call (\<lambda>q s. \<not> concerns 10 q s) ?qs s" using s(2,3) by simp_all
  have "\<exists>as s'. run spec_call ?qs s = Ok (as, s')" using s(3) by simp
  then obtain as w where "run (dev_call (\<lambda>_. 0)) ?qs dev2 = Ok (as, w)"
    using device.run_refines [OF s(1) f a(1)] by (auto elim: same_answerE)
  then show ?thesis using processes_independent [OF s(1) f a] by blast
qed

end
