(* ===== verification/Interleaving.thy ===== *)
theory Interleaving
  imports Prelude
begin

text \<open>
  Calls that run at the same time on shared state: each call is at a point of its own, one step of one call
  is one access to the shared state, and a run is any interleaving of such steps. How to reason about all runs is
  stated as two locales: an invariant that every step keeps, and a measure that makes the calls end.
\<close>

section \<open>Runs\<close>

inductive par_step ::
  "(nat \<Rightarrow> 'p \<Rightarrow> 's \<Rightarrow> ('p \<times> 's) res) \<Rightarrow> ('p \<Rightarrow> bool) \<Rightarrow> 'p list \<times> 's \<Rightarrow> 'p list \<times> 's \<Rightarrow> bool" for st fin where
  par_one: "i < length pcs \<Longrightarrow> \<not> fin (pcs ! i) \<Longrightarrow> st i (pcs ! i) s = Ok (pc, s') \<Longrightarrow>
    par_step st fin (pcs, s) (pcs[i := pc], s')"

inductive_cases par_stepE: "par_step st fin (pcs, s) c"

inductive par_run ::
  "(nat \<Rightarrow> 'p \<Rightarrow> 's \<Rightarrow> ('p \<times> 's) res) \<Rightarrow> ('p \<Rightarrow> bool) \<Rightarrow> 'p list \<times> 's \<Rightarrow> 'p list \<times> 's \<Rightarrow> bool" for st fin where
  par_refl: "par_run st fin c c"
| par_more: "par_run st fin c d \<Longrightarrow> par_step st fin d e \<Longrightarrow> par_run st fin c e"

lemma par_run_trans: "par_run st fin d e \<Longrightarrow> par_run st fin c d \<Longrightarrow> par_run st fin c e"
  by (induction rule: par_run.induct) (auto intro: par_more)

lemma par_run_length: "par_run st fin c d \<Longrightarrow> length (fst d) = length (fst c)"
  by (induction rule: par_run.induct) (auto elim: par_step.cases)

lemma par_run_first:
  assumes "i < length pcs" "\<not> fin (pcs ! i)" "st i (pcs ! i) s = Ok (pc, s')" "par_run st fin (pcs[i := pc], s') c"
  shows "par_run st fin (pcs, s) c"
proof -
  have "par_step st fin (pcs, s) (pcs[i := pc], s')" using assms(1-3) by (rule par_one)
  from par_run_trans [OF assms(4) par_more [OF par_refl this]] show ?thesis .
qed

text \<open>A run by the call that takes each step; a call that has ended takes none.\<close>

fun par_schedule ::
  "(nat \<Rightarrow> 'p \<Rightarrow> 's \<Rightarrow> ('p \<times> 's) res) \<Rightarrow> ('p \<Rightarrow> bool) \<Rightarrow> nat list \<Rightarrow> 'p list \<times> 's \<Rightarrow> ('p list \<times> 's) res" where
  "par_schedule st fin [] c = Ok c"
| "par_schedule st fin (i # is) (pcs, s) =
     (if fin (pcs ! i) then par_schedule st fin is (pcs, s)
      else rbind (st i (pcs ! i) s) (\<lambda>(pc, s). par_schedule st fin is (pcs[i := pc], s)))"

lemma par_schedule_run:
  "par_schedule st fin is c = Ok d \<Longrightarrow> set is \<subseteq> {..<length (fst c)} \<Longrightarrow> par_run st fin c d"
proof (induction "is" arbitrary: c)
  case (Cons i "is")
  obtain pcs s where c: "c = (pcs, s)" by (cases c)
  show ?case
  proof (cases "fin (pcs ! i)")
    case False
    then obtain pc s' where st: "st i (pcs ! i) s = Ok (pc, s')" "par_schedule st fin is (pcs[i := pc], s') = Ok d"
      using Cons.prems(1) by (auto simp: c rbind_eq_Ok)
    then show ?thesis
      using Cons.IH [OF st(2)] Cons.prems(2) False unfolding c by (intro par_run_first [of i pcs fin st s]) simp_all
  qed (use Cons c in simp)
qed (auto intro: par_refl)

section \<open>Invariants\<close>

locale par_invariant =
  fixes st :: "nat \<Rightarrow> 'p \<Rightarrow> 's \<Rightarrow> ('p \<times> 's) res"
    and fin :: "'p \<Rightarrow> bool"
    and inv :: "'p list \<times> 's \<Rightarrow> bool"
  assumes keep: "inv (pcs, s) \<Longrightarrow> i < length pcs \<Longrightarrow> \<not> fin (pcs ! i) \<Longrightarrow> st i (pcs ! i) s = Ok (pc, s') \<Longrightarrow>
    inv (pcs[i := pc], s')"
begin

lemma inv_run: "par_run st fin c d \<Longrightarrow> inv c \<Longrightarrow> inv d"
proof (induction rule: par_run.induct)
  case (par_more c d e)
  then show ?case by (cases d) (auto elim!: par_stepE intro: keep)
qed

end

text \<open>Where every call that has not ended can take a step, and gets nearer to its end with it, all calls can be completed.\<close>

locale par_progress = par_invariant st fin inv
  for st :: "nat \<Rightarrow> 'p \<Rightarrow> 's \<Rightarrow> ('p \<times> 's) res" and fin inv +
  fixes left :: "'p \<Rightarrow> nat"
  assumes moves: "inv (pcs, s) \<Longrightarrow> i < length pcs \<Longrightarrow> \<not> fin (pcs ! i) \<Longrightarrow>
    \<exists>pc s'. st i (pcs ! i) s = Ok (pc, s') \<and> left pc < left (pcs ! i)"
begin

lemma completes: "inv (pcs, s) \<Longrightarrow> \<exists>pcs' s'. par_run st fin (pcs, s) (pcs', s') \<and> (\<forall>pc \<in> set pcs'. fin pc)"
proof (induction "sum_list (map left pcs)" arbitrary: pcs s rule: less_induct)
  case less
  show ?case
  proof (cases "\<forall>pc \<in> set pcs. fin pc")
    case False
    then obtain i where i: "i < length pcs" "\<not> fin (pcs ! i)" by (metis in_set_conv_nth)
    obtain pc s' where st: "st i (pcs ! i) s = Ok (pc, s')" "left pc < left (pcs ! i)"
      using moves [OF less.prems i] by blast
    have "sum_list (map left (pcs[i := pc])) < sum_list (map left pcs)"
      using st(2) i(1) elem_le_sum_list [of i "map left pcs"] by (simp add: map_update sum_list_update)
    from less.hyps [OF this keep [OF less.prems i st(1)]] show ?thesis
      using par_run_first [of i pcs fin st s, OF i st(1)] by blast
  qed (auto intro: par_refl)
qed

end

end
