(* ===== verification/Registration_Race.thy ===== *)
theory Registration_Race
  imports Kunwind_Debug Interleaving
begin

text \<open>
  Several tasks that open \<^verbatim>\<open>/proc/kunwind_debug\<close> at the same time. Nothing in
  \<open>kunwind_debug_open\<close> and \<open>kunwind_process_register\<close> of \<^verbatim>\<open>src/kunwind-debug.c\<close> keeps the calls
  apart, so the calls are cut here at each access to shared state, and a run is any interleaving of
  the pieces. \<open>hash_add_rcu\<close> is two accesses: it reads the head of the chain, which becomes the
  successor of the new entry, and then makes the entry the head.
\<close>

section \<open>One call in steps\<close>

text \<open>What a call is given: the task, what \<open>kmalloc\<close> and \<open>kzalloc\<close> return to it, and its file.\<close>

record open_call =
  oc_pid :: pid
  oc_mods :: addr
  oc_node :: bool
  oc_compat :: bool
  oc_file :: nat

datatype open_pc =
  AtFind | AtAlloc | AtRegister | AtNode | AtHead | AtPublish "kunw_map_val list" | AtFile
| Returned int

definition oc_entry :: "open_call \<Rightarrow> kunw_map_val" where
  "oc_entry c = \<lparr>mv_tgid = oc_pid c, mv_mods = oc_mods c\<rparr>"

definition oc_bucket :: "map_hash \<Rightarrow> open_call \<Rightarrow> nat" where
  "oc_bucket h c = unat (h (oc_pid c))"

text \<open>The next step of a call; a call that has returned takes none.\<close>

fun open_step :: "map_hash \<Rightarrow> open_call \<Rightarrow> open_pc \<Rightarrow> world \<Rightarrow> (open_pc \<times> world) res" where
  "open_step h c AtFind w =
     (case kunwind_process_find h (kunw_map w) (oc_pid c) of
        Some _ \<Rightarrow> Ok (Returned (- EBUSY), w)
      | None \<Rightarrow> Ok (AtAlloc, w))"
| "open_step h c AtAlloc w =
     (if oc_mods c = 0 then Ok (Returned (- ENOMEM), w)
      else (case init_proc_unwind_info (oc_mods c = 0) (oc_compat c) of
          (ret, None) \<Rightarrow> Ok (Returned ret, w)
        | (ret, Some mods) \<Rightarrow>
            Ok (AtRegister, w\<lparr>objs := (objs w)(oc_mods c \<mapsto> mods), wres := kalloc (wres w)\<rparr>)))"
| "open_step h c AtRegister w =
     (case kunwind_process_find h (kunw_map w) (oc_pid c) of
        Some _ \<Rightarrow> Ok (AtFile, w)
      | None \<Rightarrow> Ok (AtNode, w))"
| "open_step h c AtNode w =
     (if \<not> oc_node c then Fault (BadRead 0) else Ok (AtHead, w\<lparr>wres := kalloc (wres w)\<rparr>))"
| "open_step h c AtHead w = Ok (AtPublish (kunw_map w ! oc_bucket h c), w)"
| "open_step h c (AtPublish next) w =
     Ok (AtFile, w\<lparr>kunw_map := (kunw_map w)[oc_bucket h c := oc_entry c # next]\<rparr>)"
| "open_step h c AtFile w = Ok (Returned 0, w\<lparr>private_data := (private_data w)(oc_file c := oc_mods c)\<rparr>)"
| "open_step h c (Returned r) w = Ok (Returned r, w)"

fun returned :: "open_pc \<Rightarrow> bool" where
  "returned (Returned r) = True"
| "returned _ = False"

text \<open>How many steps a call has left.\<close>

fun steps_left :: "open_pc \<Rightarrow> nat" where
  "steps_left AtFind = 7"
| "steps_left AtAlloc = 6"
| "steps_left AtRegister = 5"
| "steps_left AtNode = 4"
| "steps_left AtHead = 3"
| "steps_left (AtPublish next) = 2"
| "steps_left AtFile = 1"
| "steps_left (Returned r) = 0"

section \<open>Interleavings\<close>

abbreviation race :: "map_hash \<Rightarrow> open_call list \<Rightarrow> open_pc list \<times> world \<Rightarrow> open_pc list \<times> world \<Rightarrow> bool" where
  "race h cs \<equiv> par_run (\<lambda>i. open_step h (cs ! i)) returned"

text \<open>The calls one after the other, in the order of the list.\<close>

fun open_all :: "map_hash \<Rightarrow> open_call list \<Rightarrow> world \<Rightarrow> (int list \<times> world) res" where
  "open_all h [] w = Ok ([], w)"
| "open_all h (c # cs) w =
     rbind (kunwind_debug_open h (oc_mods c) (oc_node c) (oc_compat c) (oc_pid c) (oc_file c) w) (\<lambda>(r, w).
       rbind (open_all h cs w) (\<lambda>(rs, w). Ok (r # rs, w)))"

section \<open>What a call has done\<close>

definition done_objs :: "open_call \<Rightarrow> world \<Rightarrow> world" where
  "done_objs c w =
     w\<lparr>objs := (objs w)(oc_mods c \<mapsto> \<lparr>stp_modules = [], unw_cache = unw_cache_init, mods_compat = oc_compat c\<rparr>),
       wres := kalloc (wres w)\<rparr>"

definition done_node :: "open_call \<Rightarrow> world \<Rightarrow> world" where
  "done_node c w = (done_objs c w)\<lparr>wres := kalloc (kalloc (wres w))\<rparr>"

definition done_link :: "map_hash \<Rightarrow> open_call \<Rightarrow> world \<Rightarrow> world" where
  "done_link h c w = (done_node c w)\<lparr>kunw_map := ht_add h mv_tgid (oc_entry c) (kunw_map w)\<rparr>"

text \<open>The effect on the shared state of a call that has come to a given point.\<close>

fun done_at :: "map_hash \<Rightarrow> open_call \<Rightarrow> open_pc \<Rightarrow> world \<Rightarrow> world" where
  "done_at h c AtRegister w = done_objs c w"
| "done_at h c AtNode w = done_objs c w"
| "done_at h c AtHead w = done_node c w"
| "done_at h c (AtPublish next) w = done_node c w"
| "done_at h c AtFile w = done_link h c w"
| "done_at h c (Returned r) w =
     (if r = 0 then (done_link h c w)\<lparr>private_data := (private_data w)(oc_file c := oc_mods c)\<rparr> else w)"
| "done_at h c _ w = w"

text \<open>What a call returns that finds its chain as it is in the table \<open>t\<close>.\<close>

definition open_result :: "map_hash \<Rightarrow> kunw_map_val chains \<Rightarrow> open_call \<Rightarrow> int" where
  "open_result h t c =
     (if kunwind_process_find h t (oc_pid c) \<noteq> None then - EBUSY else if oc_mods c = 0 then - ENOMEM else 0)"

text \<open>A call at a given point, beside other calls that leave its chain as it is in \<open>t\<close>.\<close>

fun pc_ok :: "map_hash \<Rightarrow> kunw_map_val chains \<Rightarrow> open_call \<Rightarrow> open_pc \<Rightarrow> bool" where
  "pc_ok h t c AtFind = True"
| "pc_ok h t c AtAlloc = (kunwind_process_find h t (oc_pid c) = None)"
| "pc_ok h t c (AtPublish next) = (next = t ! oc_bucket h c \<and> open_result h t c = 0)"
| "pc_ok h t c (Returned r) = (r = open_result h t c)"
| "pc_ok h t c _ = (open_result h t c = 0)"

lemma open_result_0:
  "open_result h t c = 0 \<longleftrightarrow> kunwind_process_find h t (oc_pid c) = None \<and> oc_mods c \<noteq> 0"
  by (simp add: open_result_def EBUSY_def ENOMEM_def)

lemma find_same_chain:
  "kunw_map w ! oc_bucket h c = t ! oc_bucket h c \<Longrightarrow>
   kunwind_process_find h (kunw_map w) (oc_pid c) = kunwind_process_find h t (oc_pid c)"
  by (simp add: kunwind_process_find_def oc_bucket_def)

lemma done_at_map [simp]:
  "kunw_map (done_objs c w) = kunw_map w" "kunw_map (done_node c w) = kunw_map w"
  by (simp_all add: done_objs_def done_node_def)

lemma open_step_effect:
  assumes "pc_ok h t c pc" "oc_node c" "kunw_map w ! oc_bucket h c = t ! oc_bucket h c" "\<not> returned pc"
  shows "\<exists>pc'. open_step h c pc (done_at h c pc w) = Ok (pc', done_at h c pc' w) \<and> pc_ok h t c pc' \<and>
    steps_left pc' < steps_left pc"
  using assms find_same_chain [OF assms(3)]
  by (cases pc)
    (auto simp: open_result_0 init_proc_unwind_info_def done_objs_def done_node_def done_link_def ht_add_def
      Let_def oc_bucket_def oc_entry_def open_result_def EBUSY_def ENOMEM_def split: option.splits if_splits)

lemma open_done:
  assumes "oc_node c" "kunw_map w ! oc_bucket h c = t ! oc_bucket h c"
  shows "kunwind_debug_open h (oc_mods c) (oc_node c) (oc_compat c) (oc_pid c) (oc_file c) w =
    Ok (open_result h t c, done_at h c (Returned (open_result h t c)) w)"
  using assms(1) find_same_chain [OF assms(2)]
  by (auto simp: open_eq open_result_def EBUSY_def ENOMEM_def opened_def done_link_def done_node_def
      done_objs_def kunwind_process_link_def oc_entry_def)

section \<open>Calls that do not meet\<close>

text \<open>
  Calls of tasks whose entries go to different chains, with memory and files of their own. A failed
  \<open>kmalloc\<close> gives several calls the null pointer.
\<close>

definition apart :: "map_hash \<Rightarrow> open_call \<Rightarrow> open_call \<Rightarrow> bool" where
  "apart h c d \<longleftrightarrow> h (oc_pid c) \<noteq> h (oc_pid d) \<and> (oc_mods c \<noteq> oc_mods d \<or> oc_mods c = 0) \<and> oc_file c \<noteq> oc_file d"

definition apart_calls :: "map_hash \<Rightarrow> open_call list \<Rightarrow> bool" where
  "apart_calls h cs \<longleftrightarrow> (\<forall>i < length cs. \<forall>j < length cs. i \<noteq> j \<longrightarrow> apart h (cs ! i) (cs ! j))"

text \<open>The effect of a call that has allocated its object, field by field; before that there is none.\<close>

fun done_parts :: "open_pc \<Rightarrow> bool \<times> bool \<times> bool \<times> bool" where
  "done_parts AtRegister = (True, False, False, False)"
| "done_parts AtNode = (True, False, False, False)"
| "done_parts AtHead = (True, True, False, False)"
| "done_parts (AtPublish next) = (True, True, False, False)"
| "done_parts AtFile = (True, True, True, False)"
| "done_parts (Returned r) = (r = 0, r = 0, r = 0, r = 0)"
| "done_parts _ = (False, False, False, False)"

lemma done_at_fields:
  assumes "done_parts pc = (a, b, l, f)"
  shows "kunw_map (done_at h c pc w) = (if l then ht_add h mv_tgid (oc_entry c) (kunw_map w) else kunw_map w)"
    "objs (done_at h c pc w) = (if a then (objs w)(oc_mods c \<mapsto>
       \<lparr>stp_modules = [], unw_cache = unw_cache_init, mods_compat = oc_compat c\<rparr>) else objs w)"
    "private_data (done_at h c pc w) = (if f then (private_data w)(oc_file c := oc_mods c) else private_data w)"
    "wres (done_at h c pc w) = (if b then kalloc (kalloc (wres w)) else if a then kalloc (wres w) else wres w)"
  using assms by (cases pc; auto simp: done_link_def done_node_def done_objs_def)+

lemma ht_add_commute:
  assumes "h (mv_tgid u) \<noteq> h (mv_tgid v)"
  shows "ht_add h mv_tgid u (ht_add h mv_tgid v t) = ht_add h mv_tgid v (ht_add h mv_tgid u t)"
proof -
  have "unat (h (mv_tgid u)) \<noteq> unat (h (mv_tgid v))" using assms by (simp add: word_unat_eq_iff)
  then show ?thesis by (simp add: ht_add_def Let_def list_update_swap)
qed

lemma world_eqI:
  "kunw_map w = kunw_map v \<Longrightarrow> objs w = objs v \<Longrightarrow> private_data w = private_data v \<Longrightarrow> wres w = wres v \<Longrightarrow>
   w = (v :: world)"
  by (cases w; cases v) simp

lemma done_parts_ok:
  "pc_ok h t c pc \<Longrightarrow> done_parts pc = (a, b, l, f) \<Longrightarrow> a \<or> b \<or> l \<or> f \<Longrightarrow> oc_mods c \<noteq> 0"
  by (cases pc) (auto simp: open_result_0)

lemma done_at_commute:
  assumes "apart h c d" "pc_ok h t c pc" "pc_ok h t d qc"
  shows "done_at h c pc (done_at h d qc w) = done_at h d qc (done_at h c pc w)"
proof -
  obtain a b l f where p: "done_parts pc = (a, b, l, f)" by (cases "done_parts pc") auto
  obtain a' b' l' f' where q: "done_parts qc = (a', b', l', f')" by (cases "done_parts qc") auto
  have m: "oc_mods c \<noteq> oc_mods d" if "a" "a'"
    using assms(1) done_parts_ok [OF assms(2) p] that by (auto simp: apart_def)
  have hn: "h (mv_tgid (oc_entry c)) \<noteq> h (mv_tgid (oc_entry d))" "oc_file c \<noteq> oc_file d"
    using assms(1) by (simp_all add: apart_def oc_entry_def)
  show ?thesis
    using m hn ht_add_commute [OF hn(1)]
    by (intro world_eqI) (auto simp: done_at_fields [OF p] done_at_fields [OF q] fun_upd_twist)
qed

lemma done_at_other_chain:
  assumes "apart h c d"
  shows "kunw_map (done_at h d qc w) ! oc_bucket h c = kunw_map w ! oc_bucket h c"
proof -
  obtain a b l f where q: "done_parts qc = (a, b, l, f)" by (cases "done_parts qc") auto
  have "unat (h (oc_pid d)) \<noteq> oc_bucket h c" using assms by (auto simp: apart_def oc_bucket_def word_unat_eq_iff)
  then show ?thesis by (simp add: done_at_fields [OF q] ht_add_def Let_def oc_entry_def)
qed

section \<open>Every interleaving\<close>

definition done_all :: "map_hash \<Rightarrow> (open_call \<times> open_pc) list \<Rightarrow> world \<Rightarrow> world" where
  "done_all h = fold (\<lambda>(c, pc). done_at h c pc)"

text \<open>The call \<open>i\<close> may be taken to be the last one that has run.\<close>

lemma fold_move_last:
  assumes "\<And>y w. y \<in> set ys \<Longrightarrow> f y (f x w) = f x (f y w)"
  shows "fold f ys (f x w) = f x (fold f ys w)"
  using assms by (induction ys arbitrary: w) simp_all

lemma fold_nth_last:
  assumes "i < length xs" "\<And>j w. j < length xs \<Longrightarrow> j \<noteq> i \<Longrightarrow> f (xs ! j) (f (xs ! i) w) = f (xs ! i) (f (xs ! j) w)"
  shows "fold f xs w = f (xs ! i) (fold f (take i xs @ drop (Suc i) xs) w)"
proof -
  have "f y (f (xs ! i) w) = f (xs ! i) (f y w)" if "y \<in> set (drop (Suc i) xs)" for y w
    using that assms(2) by (fastforce simp: in_set_conv_nth)
  moreover have "fold f xs w = fold f (take i xs @ xs ! i # drop (Suc i) xs) w"
    using id_take_nth_drop [OF assms(1)] by simp
  ultimately show ?thesis
    by (simp add: fold_move_last)
qed

text \<open>
  The invariant of a race from \<open>w0\<close>: every call is at a point it could be at alone, and the state is
  \<open>w0\<close> with what each has done.
\<close>

definition race_inv :: "map_hash \<Rightarrow> open_call list \<Rightarrow> world \<Rightarrow> open_pc list \<times> world \<Rightarrow> bool" where
  "race_inv h cs w0 s \<longleftrightarrow>
     (case s of (pcs, w) \<Rightarrow>
        length pcs = length cs \<and> (\<forall>i < length cs. pc_ok h (kunw_map w0) (cs ! i) (pcs ! i)) \<and>
        w = done_all h (zip cs pcs) w0)"

lemma race_inv_start: "race_inv h cs w0 (replicate (length cs) AtFind, w0)"
proof -
  have "done_all h (zip cs (replicate (length cs) AtFind)) w0 = w0"
    unfolding done_all_def by (induction cs arbitrary: w0) simp_all
  then show ?thesis by (simp add: race_inv_def)
qed

text \<open>The other calls, and the state without what the call \<open>i\<close> has done.\<close>

definition others :: "nat \<Rightarrow> 'a list \<Rightarrow> 'a list" where
  "others i xs = take i xs @ drop (Suc i) xs"

lemma others_update [simp]: "others i (zip cs (pcs[i := pc])) = others i (zip cs pcs)"
  by (simp add: others_def take_zip drop_zip)

lemma set_others:
  assumes "x \<in> set (others i xs)"
  shows "\<exists>j < length xs. j \<noteq> i \<and> x = xs ! j"
proof -
  obtain j where "j < length (others i xs)" "x = others i xs ! j"
    using assms by (auto simp: in_set_conv_nth)
  then show ?thesis
    by (cases "j < i") (auto simp: others_def nth_append min_def split: if_splits intro: exI [of _ j] exI [of _ "Suc j"])
qed

lemma done_all_chain:
  "(\<And>d qc. (d, qc) \<in> set xs \<Longrightarrow> apart h c d) \<Longrightarrow>
   kunw_map (done_all h xs w) ! oc_bucket h c = kunw_map w ! oc_bucket h c"
proof (induction xs arbitrary: w)
  case (Cons x xs)
  obtain d qc where x: "x = (d, qc)" by (cases x)
  have "kunw_map (done_all h xs (done_at h d qc w)) ! oc_bucket h c = kunw_map (done_at h d qc w) ! oc_bucket h c"
    by (rule Cons.IH) (meson Cons.prems list.set_intros(2))
  moreover have "apart h c d" by (rule Cons.prems [of d qc]) (simp add: x)
  ultimately show ?case by (simp add: done_all_def x done_at_other_chain)
qed (simp add: done_all_def)

lemma done_all_nth:
  assumes "apart_calls h cs" "length pcs = length cs" "i < length cs"
    "\<And>j. j < length cs \<Longrightarrow> pc_ok h t (cs ! j) (pcs ! j)"
  shows "done_all h (zip cs pcs) w = done_at h (cs ! i) (pcs ! i) (done_all h (others i (zip cs pcs)) w)"
    "kunw_map (done_all h (others i (zip cs pcs)) w) ! oc_bucket h (cs ! i) = kunw_map w ! oc_bucket h (cs ! i)"
proof -
  have "fold (\<lambda>(c, pc). done_at h c pc) (zip cs pcs) w =
      (case zip cs pcs ! i of (c, pc) \<Rightarrow> done_at h c pc) (fold (\<lambda>(c, pc). done_at h c pc) (take i (zip cs pcs) @ drop (Suc i) (zip cs pcs)) w)"
    using assms by (intro fold_nth_last) (auto simp: apart_calls_def intro!: done_at_commute)
  then show "done_all h (zip cs pcs) w = done_at h (cs ! i) (pcs ! i) (done_all h (others i (zip cs pcs)) w)"
    using assms(2,3) by (simp add: done_all_def others_def)
  show "kunw_map (done_all h (others i (zip cs pcs)) w) ! oc_bucket h (cs ! i) = kunw_map w ! oc_bucket h (cs ! i)"
    using assms(1-3) by (intro done_all_chain) (auto dest!: set_others simp: apart_calls_def)
qed

lemma race_inv_step:
  assumes "apart_calls h cs" "\<forall>c \<in> set cs. oc_node c" "race_inv h cs w0 (pcs, w)"
    "i < length cs" "\<not> returned (pcs ! i)"
  shows "\<exists>pc w'. open_step h (cs ! i) (pcs ! i) w = Ok (pc, w') \<and> race_inv h cs w0 (pcs[i := pc], w') \<and>
    steps_left pc < steps_left (pcs ! i)"
proof -
  have len: "length pcs = length cs" and ok: "\<And>j. j < length cs \<Longrightarrow> pc_ok h (kunw_map w0) (cs ! j) (pcs ! j)"
    and w: "w = done_all h (zip cs pcs) w0"
    using assms(3) by (auto simp: race_inv_def)
  note d = done_all_nth [OF assms(1) len assms(4) ok]
  obtain pc where pc: "open_step h (cs ! i) (pcs ! i) w =
      Ok (pc, done_at h (cs ! i) pc (done_all h (others i (zip cs pcs)) w0))"
    "pc_ok h (kunw_map w0) (cs ! i) pc" "steps_left pc < steps_left (pcs ! i)"
    using open_step_effect [OF ok [OF assms(4)] _ d(2) assms(5)] assms(2,4) d(1) [of w0] by (auto simp: w)
  have ok': "pc_ok h (kunw_map w0) (cs ! j) (pcs[i := pc] ! j)" if "j < length cs" for j
    using ok [OF that] pc(2) len assms(4) by (cases "j = i") simp_all
  have "done_at h (cs ! i) pc (done_all h (others i (zip cs pcs)) w0) = done_all h (zip cs (pcs[i := pc])) w0"
    using done_all_nth(1) [OF assms(1) _ assms(4) ok', of w0] len assms(4) by simp
  then show ?thesis using pc ok' len by (auto simp: race_inv_def)
qed

text \<open>While a call has not returned it can go on, and each step leaves it fewer: the calls can be completed.\<close>

definition race_ok :: "map_hash \<Rightarrow> open_call list \<Rightarrow> world \<Rightarrow> open_pc list \<times> world \<Rightarrow> bool" where
  "race_ok h cs w0 s \<longleftrightarrow> apart_calls h cs \<and> (\<forall>c \<in> set cs. oc_node c) \<and> race_inv h cs w0 s"

interpretation opens: par_progress "\<lambda>i. open_step h (cs ! i)" returned "race_ok h cs w0" steps_left
  for h cs w0
proof
  fix pcs w i
  assume a: "race_ok h cs w0 (pcs, w)" "i < length pcs" "\<not> returned (pcs ! i)"
  then obtain pc' w'' where st: "open_step h (cs ! i) (pcs ! i) w = Ok (pc', w'')" "race_inv h cs w0 (pcs[i := pc'], w'')"
    "steps_left pc' < steps_left (pcs ! i)"
    using race_inv_step [of h cs w0 pcs w i] by (auto simp: race_ok_def race_inv_def)
  then show "\<exists>pc w'. open_step h (cs ! i) (pcs ! i) w = Ok (pc, w') \<and> steps_left pc < steps_left (pcs ! i)" by blast
  show "race_ok h cs w0 (pcs[i := pc], w')" if "open_step h (cs ! i) (pcs ! i) w = Ok (pc, w')" for pc w'
    using a(1) st(1,2) that by (simp add: race_ok_def)
qed

lemma returned_eq: "returned pc \<longleftrightarrow> (\<exists>r. pc = Returned r)"
  by (cases pc) simp_all

lemma race_inv_returned:
  assumes "race_inv h cs w0 (pcs, w)" "\<forall>pc \<in> set pcs. returned pc"
  shows "pcs = map Returned (map (open_result h (kunw_map w0)) cs)"
proof (rule nth_equalityI)
  show "length pcs = length (map Returned (map (open_result h (kunw_map w0)) cs))"
    using assms(1) by (simp add: race_inv_def)
  fix i assume i: "i < length pcs"
  then obtain r where "pcs ! i = Returned r" using assms(2) nth_mem returned_eq by blast
  moreover have "pc_ok h (kunw_map w0) (cs ! i) (pcs ! i)" "i < length cs"
    using assms(1) i by (auto simp: race_inv_def)
  ultimately show "pcs ! i = map Returned (map (open_result h (kunw_map w0)) cs) ! i" by simp
qed

lemma apart_calls_Cons:
  "apart_calls h (c # cs) \<Longrightarrow> apart_calls h cs \<and> (\<forall>d \<in> set cs. apart h c d \<and> apart h d c)"
  unfolding apart_calls_def by (fastforce simp: in_set_conv_nth)

lemma open_all_done:
  assumes "apart_calls h cs" "\<forall>c \<in> set cs. oc_node c"
    "\<And>c. c \<in> set cs \<Longrightarrow> kunw_map w ! oc_bucket h c = t ! oc_bucket h c"
  shows "open_all h cs w =
    Ok (map (open_result h t) cs, done_all h (zip cs (map Returned (map (open_result h t) cs))) w)"
  using assms
proof (induction cs arbitrary: w)
  case (Cons c cs)
  note ap = apart_calls_Cons [OF Cons.prems(1)]
  let ?w = "done_at h c (Returned (open_result h t c)) w"
  have "kunw_map ?w ! oc_bucket h d = t ! oc_bucket h d" if "d \<in> set cs" for d
    using done_at_other_chain [of h d c "Returned (open_result h t c)" w] ap that Cons.prems(3) [of d] by simp
  from Cons.IH [OF _ _ this] show ?case
    using ap Cons.prems open_done [of c w h t] by (simp add: done_all_def)
qed (simp add: done_all_def)

section \<open>A lost entry\<close>

text \<open>
  Two calls that read the head of their chain before either has made its entry the head; the entry
  of the first is then cut off by the second.
\<close>

definition lost_schedule :: "nat list" where
  "lost_schedule = [0, 0, 0, 0, 0, 1, 1, 1, 1, 1, 0, 1, 0, 1]"

definition lost_world :: "map_hash \<Rightarrow> open_call \<Rightarrow> open_call \<Rightarrow> world \<Rightarrow> world" where
  "lost_world h c d w =
     (done_link h d (done_objs c (w\<lparr>wres := kalloc (wres w)\<rparr>)))\<lparr>
       private_data := (private_data w)(oc_file c := oc_mods c, oc_file d := oc_mods d)\<rparr>"

lemma run_lost:
  assumes "h (oc_pid c) = h (oc_pid d)" "kunwind_process_find h (kunw_map w) (oc_pid c) = None"
    "kunwind_process_find h (kunw_map w) (oc_pid d) = None" "oc_mods c \<noteq> 0" "oc_mods d \<noteq> 0" "oc_node c" "oc_node d"
  shows "par_schedule (\<lambda>i. open_step h ([c, d] ! i)) returned lost_schedule ([AtFind, AtFind], w) = Ok ([Returned 0, Returned 0], lost_world h c d w)"
  using assms
  by (simp add: lost_schedule_def lost_world_def init_proc_unwind_info_def done_link_def done_node_def done_objs_def
      ht_add_def Let_def oc_bucket_def oc_entry_def)

lemma find_lost_world:
  assumes "ht_wf h mv_tgid (kunw_map w)" "kunwind_process_find h (kunw_map w) (oc_pid d) = None"
  shows "kunwind_process_find h (kunw_map (lost_world h c d w)) q =
    (if q = oc_pid d then Some (oc_entry d) else kunwind_process_find h (kunw_map w) q)"
  using ht_find_add [OF assms(1), of "oc_entry d"] by (simp add: lost_world_def done_link_def process_find_ht oc_entry_def)

section \<open>Two tasks\<close>

definition race_world :: world where
  "race_world = initial_world \<lparr>pinned = {#}, vmaps = {#}, allocs = 0\<rparr>"

definition race_call :: "pid \<Rightarrow> addr \<Rightarrow> nat \<Rightarrow> open_call" where
  "race_call p a f = \<lparr>oc_pid = p, oc_mods = a, oc_node = True, oc_compat = False, oc_file = f\<rparr>"

definition race_calls :: "open_call list" where
  "race_calls = [race_call 1 0x1000 1, race_call 2 0x2000 2]"

lemma race_world_find: "kunwind_process_find h (kunw_map race_world) q = None"
  by (simp add: race_world_def initial_world_def pr.lookup_emp)

section \<open>Properties\<close>

text \<open>
  C17. Tasks that open the device at the same time, where their entries go to different chains of
  the registry: from every point of every interleaving of the calls, the calls can be completed, and
  whenever they all have returned, their results and the state are those of the calls made one after
  the other. The interleaving cannot be observed.
\<close>

theorem concurrent_opens_serializable:
  assumes "apart_calls h cs" "\<forall>c \<in> set cs. oc_node c" "race h cs (replicate (length cs) AtFind, w0) (pcs, w)"
  shows "\<exists>rs w1. open_all h cs w0 = Ok (rs, w1) \<and> race h cs (pcs, w) (map Returned rs, w1) \<and>
    ((\<forall>pc \<in> set pcs. returned pc) \<longrightarrow> pcs = map Returned rs \<and> w = w1)"
proof -
  let ?rs = "map (open_result h (kunw_map w0)) cs"
  let ?w1 = "done_all h (zip cs (map Returned ?rs)) w0"
  have inv: "race_ok h cs w0 (pcs, w)"
    by (rule opens.inv_run [OF assms(3)]) (use assms(1,2) race_inv_start in \<open>simp add: race_ok_def\<close>)
  have fin: "qcs = map Returned ?rs \<and> v = ?w1"
    if "race_ok h cs w0 (qcs, v)" "\<forall>pc \<in> set qcs. returned pc" for qcs v
    using race_inv_returned [OF _ that(2)] that(1) by (auto simp: race_ok_def race_inv_def)
  obtain pcs' w' where last: "race h cs (pcs, w) (pcs', w')" "\<forall>pc \<in> set pcs'. returned pc"
    using opens.completes [OF inv] by blast
  then have "race h cs (pcs, w) (map Returned ?rs, ?w1)"
    using fin [OF opens.inv_run [OF last(1) inv]] by simp
  then show ?thesis
    using open_all_done [OF assms(1,2), of w0 "kunw_map w0"] fin [OF inv] by blast
qed

theorem concurrent_opens_serializable_witness:
  "\<exists>rs w1. open_all word_of_int race_calls race_world = Ok (rs, w1) \<and>
     race word_of_int race_calls ([AtAlloc, AtAlloc], race_world) (map Returned rs, w1)"
proof -
  have "par_schedule (\<lambda>i. open_step word_of_int (race_calls ! i)) returned [1, 0] ([AtFind, AtFind], race_world) = Ok ([AtAlloc, AtAlloc], race_world)"
    by (simp add: race_calls_def race_world_find)
  then have "race word_of_int race_calls (replicate (length race_calls) AtFind, race_world) ([AtAlloc, AtAlloc], race_world)"
    by (intro par_schedule_run [of _ _ "[1, 0]"]) (simp_all add: race_calls_def)
  moreover have "apart_calls word_of_int race_calls"
    by (auto simp: apart_calls_def apart_def race_calls_def race_call_def less_Suc_eq)
  moreover have "\<forall>c \<in> set race_calls. oc_node c" by (simp add: race_calls_def race_call_def)
  ultimately show ?thesis
    using concurrent_opens_serializable [of word_of_int race_calls race_world "[AtAlloc, AtAlloc]" race_world] by blast
qed

text \<open>
  C26. Two tasks whose entries go to the same chain of the registry: there is an interleaving in
  which both calls return 0 and the first task is not registered, so its release returns 0 and leaves
  its object allocated.
\<close>

theorem registration_lost:
  assumes "ht_wf h mv_tgid (kunw_map w)" "oc_pid c \<noteq> oc_pid d" "h (oc_pid c) = h (oc_pid d)"
    "kunwind_process_find h (kunw_map w) (oc_pid c) = None" "kunwind_process_find h (kunw_map w) (oc_pid d) = None"
    "oc_mods c \<noteq> 0" "oc_mods d \<noteq> 0" "oc_mods c \<noteq> oc_mods d" "oc_node c" "oc_node d"
  shows "\<exists>w'. race h [c, d] ([AtFind, AtFind], w) ([Returned 0, Returned 0], w') \<and>
    kunwind_process_find h (kunw_map w') (oc_pid d) = Some (oc_entry d) \<and>
    kunwind_process_find h (kunw_map w') (oc_pid c) = None \<and>
    kunwind_debug_release h (oc_pid c) (oc_file c) w' =
      Ok (0, w'\<lparr>private_data := (private_data w')(oc_file c := 0)\<rparr>) \<and>
    objs w' (oc_mods c) \<noteq> None"
proof (intro exI conjI)
  let ?w = "lost_world h c d w"
  show "race h [c, d] ([AtFind, AtFind], w) ([Returned 0, Returned 0], ?w)"
    by (rule par_schedule_run [OF run_lost]) (use assms in \<open>simp_all add: lost_schedule_def\<close>)
  note f = find_lost_world [OF assms(1,5), of c]
  show "kunwind_process_find h (kunw_map ?w) (oc_pid d) = Some (oc_entry d)" by (simp add: f)
  show none: "kunwind_process_find h (kunw_map ?w) (oc_pid c) = None" using assms(2,4) by (simp add: f)
  show "kunwind_debug_release h (oc_pid c) (oc_file c) ?w =
      Ok (0, ?w\<lparr>private_data := (private_data ?w)(oc_file c := 0)\<rparr>)"
    by (simp add: kunwind_debug_release_def kunwind_process_unregister_def none)
  show "objs ?w (oc_mods c) \<noteq> None"
    using assms(8) by (simp add: lost_world_def done_link_def done_node_def done_objs_def)
qed

theorem registration_lost_witness:
  "\<exists>w'. race (\<lambda>_. 0) race_calls ([AtFind, AtFind], race_world) ([Returned 0, Returned 0], w') \<and>
     kunwind_process_find (\<lambda>_. 0) (kunw_map w') 1 = None"
  using registration_lost [of "\<lambda>_. 0" race_world "race_call 1 0x1000 1" "race_call 2 0x2000 2"]
  by (auto simp: race_calls_def race_call_def race_world_def initial_world_def pr.inv_emp pr.lookup_emp)

end
