(* ===== verification/Debug_Output.thy ===== *)
theory Debug_Output
  imports Cie_Enc Unwind_Frame
begin

text \<open>
  What a debug build of \<^verbatim>\<open>src/unwind.c\<close> prints (\<^verbatim>\<open>DEBUG_UNWIND\<close> and \<^verbatim>\<open>UNWIND_DEBUG\<close>): the names of registers,
  rules and pointer encodings, the dump of a context, and what the cache of \<^verbatim>\<open>src/modules.c\<close> and its self test print. A call of \<open>printk\<close> is its format and its
  arguments; the output is the list of calls.
\<close>

datatype printk_arg = ArgStr "string option" | ArgInt int | ArgLong u64

type_synonym printk = "string \<times> printk_arg list"

section \<open>Names\<close>

definition regs_name :: "string list" where
  "regs_name = [''ax'', ''dx'', ''cx'', ''bx'', ''si'', ''di'', ''bp'', ''sp'', ''r8'', ''r9'', ''r10'', ''r11'',
     ''r12'', ''r13'', ''r14'', ''r15'', ''ip'']"

definition where_name :: "string list" where
  "where_name = [''Same'', ''Nowhere'', ''Memory'', ''Register'', ''Value'', ''Expr'', ''ValExpr'']"

text \<open>\<open>ud\<close>: \<^verbatim>\<open>UNWIND_DEBUG\<close> is defined. Otherwise both return \<open>NULL\<close>.\<close>

definition table_name :: "bool \<Rightarrow> string list \<Rightarrow> nat \<Rightarrow> string option res" where
  "table_name ud tab n =
     (if \<not> ud then Ok None else if n < length tab then Ok (Some (tab ! n)) else Fault BadIndex)"

definition get_reg_name :: "bool \<Rightarrow> nat \<Rightarrow> string option res" where
  "get_reg_name ud n = table_name ud regs_name n"

definition get_where_name :: "bool \<Rightarrow> nat \<Rightarrow> string option res" where
  "get_where_name ud n = table_name ud where_name n"

text \<open>The number of an enumerator of \<open>item_location\<close>.\<close>

primrec where_number :: "item_location \<Rightarrow> nat" where
  "where_number Same = 0"
| "where_number Nowhere = 1"
| "where_number Memory = 2"
| "where_number Register = 3"
| "where_number Value = 4"
| "where_number Expr = 5"
| "where_number ValExpr = 6"

definition stp_enc_hi_name :: "string list" where
  "stp_enc_hi_name = [''DW_EH_PE'', ''DW_EH_PE_pcrel'', ''DW_EH_PE_textrel'', ''DW_EH_PE_datarel'',
     ''DW_EH_PE_funcrel'', ''DW_EH_PE_aligned'']"

definition stp_enc_lo_name :: "string list" where
  "stp_enc_lo_name = [''_absptr'', ''_uleb128'', ''_udata2'', ''_udata4'', ''_udata8'', ''_sleb128'', ''_sdata2'',
     ''_sdata4'', ''_sdata8'']"

text \<open>The kernel's string functions on a buffer of \<open>n\<close> bytes, and the digits of \<^verbatim>\<open>%x\<close>.\<close>

definition strlcpy :: "string \<Rightarrow> nat \<Rightarrow> string" where
  "strlcpy s n = take (n - 1) s"

definition strlcat :: "string \<Rightarrow> string \<Rightarrow> nat \<Rightarrow> string" where
  "strlcat buf s n = buf @ take (n - 1 - length buf) s"

fun hex_digits :: "nat \<Rightarrow> string" where
  "hex_digits n =
     (if n < 16 then [''0123456789abcdef'' ! n] else hex_digits (n div 16) @ [''0123456789abcdef'' ! (n mod 16)])"

declare hex_digits.simps [simp del]

definition enc_table :: "string list \<Rightarrow> nat \<Rightarrow> string res" where
  "enc_table tab n = (if n < length tab then Ok (tab ! n) else Fault BadIndex)"

definition stp_eh_enc_name :: "u32 \<Rightarrow> string res" where
  "stp_eh_enc_name ty =
     (if ty = DW_EH_PE_omit then Ok ''DW_EH_PE_omit''
      else let hi = unat (drop_bit 4 (ty AND DW_EH_PE_ADJUST)); low = unat (ty AND DW_EH_PE_FORM);
               sg = (ty AND DW_EH_PE_signed \<noteq> 0)
           in if hi > 5 \<or> low > 4 \<or> (low = 0 \<and> sg) then Ok (strlcpy (''ERROR:encoding=0x'' @ hex_digits (unat ty)) 64)
              else let buf = (if ty AND DW_EH_PE_indirect \<noteq> 0 then strlcpy ''DW_EH_PE_indirect|'' 64 else [])
                   in rbind (enc_table stp_enc_hi_name hi) (\<lambda>h.
                      rbind (enc_table stp_enc_lo_name (if sg then low + 4 else low)) (\<lambda>l.
                        Ok (strlcat (strlcat buf h 64) l 64))))"

section \<open>Dumps\<close>

function dump_expr_ops :: "kmem \<Rightarrow> addr \<Rightarrow> addr \<Rightarrow> printk list res" where
  "dump_expr_ops m lim p =
     (if p < lim
      then rbind (load8 m p) (\<lambda>b. rbind (dump_expr_ops m lim (p + 1)) (\<lambda>out.
        Ok (('' %x'', [ArgInt (uint b)]) # out)))
      else Ok [])"
  by pat_completeness auto
termination
proof (relation "measure (\<lambda>(m, lim, p). unat lim - unat p)")
  fix m :: kmem and lim p :: addr and b :: u8
  assume "p < lim"
  moreover have "unat (p + 1) = unat p + 1" using \<open>p < lim\<close> unat_add_nowrap [of p 1] unat_u64_less [of lim]
    by (simp add: word_less_nat_alt)
  ultimately show "((m, lim, p + 1), m, lim, p) \<in> measure (\<lambda>(m, lim, p). unat lim - unat p)"
    by (simp add: word_less_nat_alt)
qed simp

declare dump_expr_ops.simps [simp del]

definition dump_expr :: "kmem \<Rightarrow> addr \<Rightarrow> printk list res" where
  "dump_expr m expr =
     rbind (get_uleb128 m expr (- 1)) (\<lambda>(len, p).
     rbind (dump_expr_ops m (p + len) p) (\<lambda>out. Ok ((''cfa_expr ops (%ld):'', [ArgLong len]) # out)))"

definition dump_unwind_item :: "bool \<Rightarrow> kmem \<Rightarrow> nat \<Rightarrow> unwind_item \<Rightarrow> printk list res" where
  "dump_unwind_item ud m i it =
     rbind (get_where_name ud (where_number (iwhere it))) (\<lambda>nm.
     rbind (case iwhere it of
              Same \<Rightarrow> Ok [(''no state'', [])]
            | Nowhere \<Rightarrow> Ok [(''no state'', [])]
            | Memory \<Rightarrow> Ok [(''state.off=%ld'', [ArgLong (istate it)])]
            | Register \<Rightarrow> Ok [(''state.reg=%ld'', [ArgLong (istate it)])]
            | Value \<Rightarrow> Ok [(''cfa + state.off=%ld'', [ArgLong (istate it)])]
            | Expr \<Rightarrow> dump_expr m (istate it)
            | ValExpr \<Rightarrow> dump_expr m (istate it)) (\<lambda>out.
       Ok ((''unwind_regs %d where=%s '', [ArgInt (int i), ArgStr nm]) # out @ [(''\<newline>'', [])])))"

fun dump_unwind_regs :: "bool \<Rightarrow> kmem \<Rightarrow> nat \<Rightarrow> unwind_item list \<Rightarrow> printk list res" where
  "dump_unwind_regs ud m i [] = Ok []"
| "dump_unwind_regs ud m i (it # its) =
     rbind (dump_unwind_item ud m i it) (\<lambda>a. rbind (dump_unwind_regs ud m (i + 1) its) (\<lambda>b. Ok (a @ b)))"

text \<open>\<open>show_regs\<close> is what \<open>kallsyms_lookup_name\<close> finds, \<open>None\<close> for \<open>NULL\<close>, by what it prints.\<close>

definition dump_unwind_frame :: "(u64 list \<Rightarrow> printk list) option \<Rightarrow> unwind_frame_info \<Rightarrow> printk list" where
  "dump_unwind_frame show_regs f = (case show_regs of None \<Rightarrow> [] | Some g \<Rightarrow> g (regs f))"

definition dump_reg_state :: "bool \<Rightarrow> kmem \<Rightarrow> nat \<Rightarrow> unwind_reg_state \<Rightarrow> printk list res" where
  "dump_reg_state ud m i rs =
     rbind (if cfa_is_expr rs then rbind (dump_expr m (cfa_expr rs)) (\<lambda>out. Ok (out @ [(''\<newline>'', [])]))
            else Ok [(''cfa reg=%ld, off=%lx\<newline>'', [ArgLong (cfa_reg rs), ArgLong (cfa_off rs)])]) (\<lambda>c.
     rbind (dump_unwind_regs ud m 0 (take NREGS (rs_regs rs))) (\<lambda>out.
       Ok ((''reg_state %d: cfa_is_expr=%d\<newline>'', [ArgInt (int i), ArgInt (of_bool (cfa_is_expr rs))]) # c @ out)))"

fun dump_reg_states :: "bool \<Rightarrow> kmem \<Rightarrow> nat \<Rightarrow> unwind_reg_state list \<Rightarrow> printk list res" where
  "dump_reg_states ud m i [] = Ok []"
| "dump_reg_states ud m i (rs # rss) =
     rbind (dump_reg_state ud m i rs) (\<lambda>a. rbind (dump_reg_states ud m (i + 1) rss) (\<lambda>b. Ok (a @ b)))"

definition dump_context :: "(u64 list \<Rightarrow> printk list) option \<Rightarrow> bool \<Rightarrow> kmem \<Rightarrow> unwind_context \<Rightarrow> printk list res" where
  "dump_context show_regs ud m ctx =
     (let s = ustate ctx
      in rbind (dump_reg_states ud m 0 (take (unat (stackDepth s) + 1) (reg_stack s))) (\<lambda>out.
           Ok (dump_unwind_frame show_regs (info ctx) @
               (''unwind_state loc=%lx codeAlign=%lx dataAlign=%lx stackDepth=%x\<newline>'',
                [ArgLong (loc s), ArgLong (codeAlign s), ArgLong (dataAlign s), ArgInt (uint (stackDepth s))]) # out)))"

section \<open>Messages\<close>

text \<open>The macros of \<^verbatim>\<open>src/debug.h\<close>; \<open>lvl\<close> is the value of \<^verbatim>\<open>DEBUG_UNWIND\<close>, \<open>None\<close> where it is not defined.\<close>

definition stp_warn :: "printk \<Rightarrow> printk list" where
  "stp_warn msg = [(fst msg @ ''\<newline>'', snd msg)]"

definition stp_dbug :: "string \<Rightarrow> int \<Rightarrow> printk \<Rightarrow> printk list" where
  "stp_dbug func line msg = [(''stp_dbug in [%s] at line %d : '', [ArgStr (Some func), ArgInt line]), msg]"

definition dbug_unwind :: "int option \<Rightarrow> int \<Rightarrow> string \<Rightarrow> int \<Rightarrow> printk \<Rightarrow> printk list" where
  "dbug_unwind lvl level func line msg =
     (case lvl of None \<Rightarrow> [] | Some d \<Rightarrow> if level \<le> d then stp_dbug func line msg else [])"

definition tdep_args :: "tdep_item \<Rightarrow> printk_arg list" where
  "tdep_args it = [ArgInt (int (where_number (tdep_where it))), ArgInt (sint (tdep_reg it)), ArgLong (tdep_off it)]"

definition dump_tdep_frame :: "int option \<Rightarrow> tdep_frame \<Rightarrow> printk list" where
  "dump_tdep_frame lvl f =
     dbug_unwind lvl 3 ''dump_tdep_frame'' 1523
       (''pc=0x%lx cfa.where=%d cfa.reg=%x cfa.off=%ld rbp.where=%d rbp.reg=%x rbp.off=%ld rsp.where=%d rsp.reg=%x rsp.off=%ld\<newline>'',
        ArgLong (tpc f) # tdep_args (tcfa f) @ tdep_args (trbp f) @ tdep_args (trsp f))"

section \<open>Facts\<close>

text \<open>Every rule has its name in the table; a register number outside the table is not caught.\<close>

lemma where_name_total: "\<exists>nm. get_where_name True (where_number wh) = Ok (Some nm)"
  by (cases wh) (simp_all add: get_where_name_def table_name_def where_name_def)

lemma get_where_name_ok: "\<exists>nm. get_where_name ud (where_number wh) = Ok nm"
  using where_name_total [of wh] by (cases ud) (auto simp: get_where_name_def table_name_def split: if_splits)

lemma reg_name_bad_index: "get_reg_name True n = Fault BadIndex \<longleftrightarrow> NREGS \<le> n"
  by (simp add: get_reg_name_def table_name_def regs_name_def not_less)

text \<open>The name of an encoding as it is meant: not cut off, and made of entries of the two tables.\<close>

definition enc_name :: "u32 \<Rightarrow> string" where
  "enc_name ty =
     (let hi = unat (drop_bit 4 (ty AND DW_EH_PE_ADJUST)); low = unat (ty AND DW_EH_PE_FORM);
          sg = (ty AND DW_EH_PE_signed \<noteq> 0)
      in if ty = DW_EH_PE_omit then ''DW_EH_PE_omit''
         else if hi > 5 \<or> low > 4 \<or> (low = 0 \<and> sg) then ''ERROR:encoding=0x'' @ hex_digits (unat ty)
         else (if ty AND DW_EH_PE_indirect \<noteq> 0 then ''DW_EH_PE_indirect|'' else []) @
              stp_enc_hi_name ! hi @ stp_enc_lo_name ! (if sg then low + 4 else low))"

lemma hex_digits_length: "n < 16 ^ Suc k \<Longrightarrow> length (hex_digits n) \<le> Suc k"
proof (induction k arbitrary: n)
  case 0
  then show ?case by (simp add: hex_digits.simps)
next
  case (Suc k)
  show ?case
  proof (cases "n < 16")
    case True
    then show ?thesis by (simp add: hex_digits.simps)
  next
    case False
    have "n div 16 < 16 ^ Suc k" using Suc.prems by (simp add: less_mult_imp_div_less mult.commute)
    then show ?thesis using Suc.IH [of "n div 16"] False by (subst hex_digits.simps) simp
  qed
qed

lemma enc_tables:
  "n < 6 \<Longrightarrow> enc_table stp_enc_hi_name n = Ok (stp_enc_hi_name ! n) \<and> length (stp_enc_hi_name ! n) \<le> 16"
  "n < 9 \<Longrightarrow> enc_table stp_enc_lo_name n = Ok (stp_enc_lo_name ! n) \<and> length (stp_enc_lo_name ! n) \<le> 8"
  by (simp_all add: enc_table_def stp_enc_hi_name_def stp_enc_lo_name_def less_Suc_eq numeral_eq_Suc) auto

lemma enc_name_fits: "stp_eh_enc_name ty = Ok (enc_name ty) \<and> length (enc_name ty) < 64"
proof -
  define hi low where "hi = unat (drop_bit 4 (ty AND DW_EH_PE_ADJUST))" and "low = unat (ty AND DW_EH_PE_FORM)"
  define sg where "sg \<longleftrightarrow> ty AND DW_EH_PE_signed \<noteq> 0"
  note d = hi_def [symmetric] low_def [symmetric] sg_def [symmetric]
  have x: "length (hex_digits (unat ty)) \<le> 8"
    using hex_digits_length [of "unat ty" 7] unsigned_less [of ty, where 'a = nat] by simp
  show ?thesis
  proof (cases "hi > 5 \<or> low > 4 \<or> low = 0 \<and> sg")
    case True
    then show ?thesis unfolding stp_eh_enc_name_def enc_name_def Let_def d using x by (auto simp: strlcpy_def)
  next
    case False
    then have "hi < 6" "(if sg then low + 4 else low) < 9" by auto
    with enc_tables(1) [OF this(1)] enc_tables(2) [OF this(2)] False show ?thesis
      unfolding stp_eh_enc_name_def enc_name_def Let_def d by (auto simp: strlcpy_def strlcat_def)
  qed
qed

text \<open>The dump of an expression prints its length and its bytes.\<close>

lemma dump_ops_bytes:
  assumes "bytes_at m p ops" "unat p + length ops < 2 ^ 64"
  shows "dump_expr_ops m (p + of_nat (length ops)) p = Ok (map (\<lambda>b. ('' %x'', [ArgInt (uint b)])) ops)"
  using assms
proof (induction ops arbitrary: p)
  case Nil
  then show ?case by (simp add: dump_expr_ops.simps)
next
  case (Cons b ops)
  have u: "unat (p + of_nat (length (b # ops))) = unat p + length (b # ops)" "unat (p + 1) = unat p + 1"
    using unat_add_nowrap [of p "length (b # ops)"] unat_add_nowrap [of p 1] Cons.prems(2) by simp_all
  then have "p < p + of_nat (length (b # ops))" unfolding word_less_nat_alt by simp
  moreover have "p + of_nat (length (b # ops)) = p + 1 + of_nat (length ops)" by simp
  ultimately show ?case
    using Cons.IH [of "p + 1"] Cons.prems u(2) by (subst dump_expr_ops.simps) (simp add: algebra_simps)
qed

lemma dump_expr_block:
  assumes "bytes_at m p (uleb_enc (length ops) @ ops)" "unat p + length (uleb_enc (length ops)) + length ops < 2 ^ 64 - 1"
    "ok_num (length ops)"
  shows "dump_expr m p = Ok ((''cfa_expr ops (%ld):'', [ArgLong (of_nat (length ops))]) #
    map (\<lambda>b. ('' %x'', [ArgInt (uint b)])) ops)"
proof -
  let ?q = "p + of_nat (length (uleb_enc (length ops)))"
  have b: "bytes_at m p (uleb_enc (length ops))" "bytes_at m ?q ops" using assms(1) by (simp_all add: bytes_at_append)
  have "unat ?q = unat p + length (uleb_enc (length ops))" using assms(2) by (intro unat_add_nowrap) simp
  then have "dump_expr_ops m (?q + of_nat (length ops)) ?q = Ok (map (\<lambda>b. ('' %x'', [ArgInt (uint b)])) ops)"
    using assms(2) by (intro dump_ops_bytes b(2)) simp
  moreover have "get_uleb128 m p (- 1) = Ok (of_nat (length ops), ?q)"
    using assms(2) by (intro get_uleb_enc b(1) assms(3)) (simp add: unsigned_minus_1_eq_mask mask_eq_exp_minus_1)
  ultimately show ?thesis by (simp add: dump_expr_def)
qed

text \<open>
  The one dump of a context in \<open>__unwind_frame\<close> is made after all rules have been reset: it prints without a load
  from memory, whatever the context was before.
\<close>

definition no_expr :: "unwind_item \<Rightarrow> bool" where
  "no_expr it \<longleftrightarrow> iwhere it \<noteq> Expr \<and> iwhere it \<noteq> ValExpr"

lemma dump_item_no_expr: "no_expr it \<Longrightarrow> \<exists>out. \<forall>m. dump_unwind_item ud m i it = Ok out"
  using get_where_name_ok [of ud "iwhere it"] by (cases "iwhere it") (auto simp: dump_unwind_item_def no_expr_def)

lemma dump_regs_no_expr: "list_all no_expr its \<Longrightarrow> \<exists>out. \<forall>m. dump_unwind_regs ud m i its = Ok out"
proof (induction its arbitrary: i)
  case (Cons it its)
  obtain a b where "\<forall>m. dump_unwind_item ud m i it = Ok a" "\<forall>m. dump_unwind_regs ud m (i + 1) its = Ok b"
    using Cons dump_item_no_expr [of it ud i] by fastforce
  then show ?case by simp
qed simp

lemma initial_rules_reg:
  "stackDepth initial_rules = 0"
  "REG_STATE initial_rules = zero_reg_state\<lparr>rs_regs := (replicate NREGS zero_item)[16 := zero_item\<lparr>iwhere := Nowhere\<rparr>]\<rparr>"
  "take 1 (reg_stack initial_rules) = [REG_STATE initial_rules]"
  by (simp_all add: initial_rules_def set_no_state_rule_def upd_item_def upd_reg_state_def zero_state_def REG_STATE_def
      zero_reg_state_def UNW_NR_REAL_REGS_def STP_MAX_STACK_DEPTH_def upt_rec) (simp add: numeral_eq_Suc)

lemma initial_rules_plain:
  "\<not> cfa_is_expr (REG_STATE initial_rules)" "list_all no_expr (rs_regs (REG_STATE initial_rules))"
  using set_update_subset_insert [of "replicate NREGS zero_item" 16 "zero_item\<lparr>iwhere := Nowhere\<rparr>"]
  by (auto simp: initial_rules_reg list_all_iff no_expr_def zero_item_def zero_reg_state_def)

lemma dump_context_initial: "\<exists>out. \<forall>m. dump_context show_regs ud m (ctx\<lparr>ustate := initial_rules\<rparr>) = Ok out"
proof -
  obtain out where "\<forall>m. dump_unwind_regs ud m 0 (take NREGS (rs_regs (REG_STATE initial_rules))) = Ok out"
    using dump_regs_no_expr [of "take NREGS (rs_regs (REG_STATE initial_rules))" ud 0] initial_rules_plain(2)
    by (auto simp: list_all_iff dest: in_set_takeD)
  then show ?thesis
    using initial_rules_plain(1) initial_rules_reg(1,3) by (simp add: dump_context_def dump_reg_state_def Let_def)
qed

section \<open>The cache\<close>

text \<open>
  What the functions of the cache print. \<open>adr\<close> is the address of the entry of each description. The message of
  \<open>unw_cache_entry_rcu_free\<close> comes when the kernel runs it, some time after the entry has been deleted.
\<close>

definition unw_cache_entry_rcu_free :: "int option \<Rightarrow> (tdep_frame \<Rightarrow> addr) \<Rightarrow> tdep_frame \<Rightarrow> printk list" where
  "unw_cache_entry_rcu_free lvl adr e =
     dbug_unwind lvl 3 ''unw_cache_entry_rcu_free'' 24 (''del cache_entry %p\<newline> '', [ArgLong (adr e)])"

definition unw_cache_add_msg :: "int option \<Rightarrow> (tdep_frame \<Rightarrow> addr) \<Rightarrow> unw_hash \<Rightarrow> bool \<Rightarrow> tdep_frame \<Rightarrow> unw_cache \<Rightarrow> printk list" where
  "unw_cache_add_msg lvl adr h alloc_ok frame c =
     (case unw_cache_find_entry h c (tpc frame) of
        Some _ \<Rightarrow> dbug_unwind lvl 1 ''unw_cache_add_entry'' 52 (''entry already in cache (pc=0x%lx)\<newline>'', [ArgLong (tpc frame)])
      | None \<Rightarrow>
          if alloc_ok then dbug_unwind lvl 3 ''unw_cache_add_entry'' 61 (''add cache_entry %p\<newline> '', [ArgLong (adr frame)])
          else [])"

definition unw_cache_dump :: "int option \<Rightarrow> (tdep_frame \<Rightarrow> addr) \<Rightarrow> unw_cache \<Rightarrow> printk list" where
  "unw_cache_dump lvl adr c =
     concat (map (\<lambda>e. dbug_unwind lvl 3 ''unw_cache_dump'' 101 (''dump cache_entry %p\<newline> '', [ArgLong (adr e)])) (concat c))"

definition find_addr :: "(tdep_frame \<Rightarrow> addr) \<Rightarrow> tdep_frame option \<Rightarrow> addr" where
  "find_addr adr e = (case e of None \<Rightarrow> 0 | Some f \<Rightarrow> adr f)"

text \<open>
  The self test, with the addresses \<open>adr\<close> of the first entry that it adds and \<open>adr'\<close> of the second, and without the
  messages that come later.
\<close>

definition unw_cache_test_msgs ::
  "int option \<Rightarrow> (tdep_frame \<Rightarrow> addr) \<Rightarrow> (tdep_frame \<Rightarrow> addr) \<Rightarrow> unw_hash \<Rightarrow> (nat \<Rightarrow> bool) \<Rightarrow> unw_cache \<Rightarrow> printk list" where
  "unw_cache_test_msgs lvl adr adr' h ok c0 =
     (let f = unw_cache_test_frame;
          say = (\<lambda>line. dbug_unwind lvl 3 ''unw_cache_test'' line);
          c1 = unw_cache_add_entry h (ok 0) f c0;
          c2 = unw_cache_clear c1;
          c3 = unw_cache_add_entry h (ok 1) f c2;
          c4 = unw_cache_add_entry h (ok 2) f c3;
          c5 = unw_cache_del_entry h (tpc f) c4
      in say 117 (''init\<newline>'', []) @ unw_cache_dump lvl adr c0 @
         unw_cache_add_msg lvl adr h (ok 0) f c0 @ say 121 (''after add\<newline>'', []) @ unw_cache_dump lvl adr c1 @
         say 126 (''find_entry %p\<newline>'', [ArgLong (find_addr adr (unw_cache_find_entry h c1 (tpc f)))]) @
         say 130 (''after clear\<newline>'', []) @ unw_cache_dump lvl adr' c2 @
         say 135 (''find_entry %p\<newline>'', [ArgLong (find_addr adr' (unw_cache_find_entry h c2 (tpc f)))]) @
         say 138 (''add and del\<newline>'', []) @ unw_cache_add_msg lvl adr' h (ok 1) f c2 @
         unw_cache_add_msg lvl adr' h (ok 2) f c3 @ unw_cache_dump lvl adr' c4 @ unw_cache_dump lvl adr' c5)"

text \<open>A dump prints two lines for each entry, so that its length tells how many there are.\<close>

lemma dump_length: "3 \<le> d \<Longrightarrow> length (unw_cache_dump (Some d) adr c) = 2 * length (concat c)"
proof -
  assume d: "3 \<le> d"
  have "length (concat (map (\<lambda>e. dbug_unwind (Some d) 3 ''unw_cache_dump'' 101 (''dump cache_entry %p\<newline> '', [ArgLong (adr e)])) xs)) =
      2 * length xs" for xs
    using d by (induction xs) (simp_all add: dbug_unwind_def stp_dbug_def)
  then show ?thesis by (simp add: unw_cache_dump_def)
qed

lemma dump_init: "unw_cache_dump lvl adr unw_cache_init = []"
  by (simp add: unw_cache_dump_def unw_cache_init_def ht_empty_def)

text \<open>The self test of a new cache prints two dumps with the one entry, and three that are empty.\<close>

definition test_add :: "tdep_frame \<Rightarrow> unw_hash \<Rightarrow> unw_cache" where
  "test_add f h = unw_cache_init[unat (h (tpc f)) := [f]]"

lemma cache_test_states:
  fixes h :: unw_hash
  defines "f \<equiv> unw_cache_test_frame"
  shows "unw_cache_add_entry h True f unw_cache_init = test_add f h"
    "unw_cache_clear (test_add f h) = unw_cache_init" "unw_cache_find_entry h (test_add f h) (tpc f) = Some f"
    "unw_cache_del_entry h (tpc f) (test_add f h) = unw_cache_init"
    "concat (test_add f h) = [f]"
proof -
  have b: "unat (h (tpc f)) < 1024" using unat_bucket [of "h (tpc f)"] by simp
  show "unw_cache_add_entry h True f unw_cache_init = test_add f h"
    unfolding unw_cache_add_entry_def uc.lookup_emp
    using b by (simp add: test_add_def ht_add_def unw_cache_init_def ht_empty_def Let_def)
  show "unw_cache_clear (test_add f h) = unw_cache_init"
    using b by (simp add: unw_cache_clear_def test_add_def unw_cache_init_def ht_empty_def map_update list_update_same_conv)
  show f: "unw_cache_find_entry h (test_add f h) (tpc f) = Some f"
    using b by (simp add: unw_cache_find_entry_def test_add_def unw_cache_init_def ht_empty_def)
  show "unw_cache_del_entry h (tpc f) (test_add f h) = unw_cache_init"
    unfolding unw_cache_del_entry_def f
    using b by (simp add: ht_del_def test_add_def unw_cache_init_def ht_empty_def Let_def list_update_same_conv)
  show "concat (test_add f h) = [f]"
    using b by (simp add: test_add_def unw_cache_init_def ht_empty_def upd_conv_take_nth_drop)
qed

lemma cache_test_output:
  assumes "3 \<le> d"
  shows "map fst (unw_cache_test_msgs (Some d) adr adr' h (\<lambda>_. True) unw_cache_init) =
    concat (map (\<lambda>s. [''stp_dbug in [%s] at line %d : '', s])
      [''init\<newline>'', ''add cache_entry %p\<newline> '', ''after add\<newline>'', ''dump cache_entry %p\<newline> '', ''find_entry %p\<newline>'', ''after clear\<newline>'',
       ''find_entry %p\<newline>'', ''add and del\<newline>'', ''add cache_entry %p\<newline> '', ''entry already in cache (pc=0x%lx)\<newline>'', ''dump cache_entry %p\<newline> ''])"
proof -
  let ?f = unw_cache_test_frame
  have "unw_cache_add_entry h True ?f (test_add ?f h) = test_add ?f h"
    by (simp add: unw_cache_add_entry_def cache_test_states(3))
  moreover have "map fst (unw_cache_dump (Some d) a (test_add ?f h)) =
      [''stp_dbug in [%s] at line %d : '', ''dump cache_entry %p\<newline> '']" for a
    using assms by (simp add: unw_cache_dump_def cache_test_states(5) dbug_unwind_def stp_dbug_def)
  ultimately show ?thesis
    using assms
    by (simp add: unw_cache_test_msgs_def Let_def cache_test_states dump_init unw_cache_add_msg_def uc.lookup_emp
        dbug_unwind_def stp_dbug_def)
qed

end
