(* ===== verification/Module_Init.thy ===== *)
theory Module_Init
  imports Device_Spec Debug_Output
begin

text \<open>
  Loading and unloading the kernel modules: \<^verbatim>\<open>src/kunwind.c\<close>, the ends of \<^verbatim>\<open>src/kunwind-debug.c\<close>,
  and two small helpers, the test for a 32-bit task of \<^verbatim>\<open>src/unwind/unwind.h\<close> and the file name
  of a mapping of \<^verbatim>\<open>src/vma_file_path.h\<close>. The state is the log, the entry of \<^verbatim>\<open>/proc\<close> and the state of the
  device.
\<close>

section \<open>State and operations\<close>

record kmodule =
  klog :: "printk list"
  proc_entry :: bool
  kdev :: world

definition KERN_INFO :: string where
  "KERN_INFO = [CHR 0x01, CHR ''6'']"

definition log_info :: "string \<Rightarrow> kmodule \<Rightarrow> kmodule" where
  "log_info msg s = s\<lparr>klog := klog s @ [(KERN_INFO @ msg, [])]\<rparr>"

definition kunwind_init :: "kmodule \<Rightarrow> int \<times> kmodule" where
  "kunwind_init s = (0, log_info ''kunwind init\<newline>'' s)"

definition kunwind_exit :: "kmodule \<Rightarrow> kmodule" where
  "kunwind_exit s = log_info ''kunwind exit\<newline>'' s"

text \<open>
  \<open>created\<close>: \<open>proc_create\<close> has not returned \<open>NULL\<close>. A module that is loaded has its static data anew,
  the registry among them.
\<close>

definition kunwind_debug_init :: "bool \<Rightarrow> kmodule \<Rightarrow> int \<times> kmodule" where
  "kunwind_debug_init created s = (0, (log_info ''kunwind_debug init\<newline>'' s)\<lparr>proc_entry := created\<rparr>)"

definition fresh_registry :: "kmodule \<Rightarrow> kmodule" where
  "fresh_registry s = s\<lparr>kdev := (kdev s)\<lparr>kunw_map := ht_empty TYPE(3)\<rparr>\<rparr>"

text \<open>
  \<open>proc_remove\<close> is the kernel's. Of files that are open it runs the release, in the task that removes the
  entry; which files these are is the parameter \<open>closing\<close>, and \<open>pid\<close> is that task.
\<close>

fun release_files :: "map_hash \<Rightarrow> pid \<Rightarrow> nat list \<Rightarrow> world \<Rightarrow> world res" where
  "release_files h pid [] w = Ok w"
| "release_files h pid (f # fs) w = rbind (kunwind_debug_release h pid f w) (\<lambda>(r, w'). release_files h pid fs w')"

definition kunwind_debug_exit :: "map_hash \<Rightarrow> pid \<Rightarrow> nat list \<Rightarrow> kmodule \<Rightarrow> kmodule res" where
  "kunwind_debug_exit h pid closing s =
     rbind (release_files h pid closing (kdev s)) (\<lambda>w.
       Ok ((log_info ''kunwind_debug exit\<newline>'' s)\<lparr>proc_entry := False, kdev := w\<rparr>))"

section \<open>Helpers\<close>

text \<open>\<open>config_compat\<close>: the kernel has \<^verbatim>\<open>CONFIG_COMPAT\<close>; \<open>tif_32bit\<close>: the flag of the current thread.\<close>

definition stp_is_compat_task :: "bool \<Rightarrow> bool \<Rightarrow> int" where
  "stp_is_compat_task config_compat tif_32bit = (if config_compat then of_bool tif_32bit else 0)"

text \<open>\<open>dentry_path_raw\<close> is the kernel's: an error, or the path in a buffer of the given length.\<close>

definition vma_file_path :: "('d \<Rightarrow> nat \<Rightarrow> int + string) \<Rightarrow> 'd option \<Rightarrow> nat \<Rightarrow> string option" where
  "vma_file_path dentry_path_raw vm_file buflen =
     (case vm_file of
        None \<Rightarrow> None
      | Some dentry \<Rightarrow> (case dentry_path_raw dentry buflen of Inl _ \<Rightarrow> None | Inr path \<Rightarrow> Some path))"

section \<open>Unloading\<close>

lemma release_unregistered:
  assumes "kunwind_process_find h (kunw_map w) pid = None"
  shows "release_files h pid fs w = Ok (w\<lparr>private_data := (\<lambda>f. if f \<in> set fs then 0 else private_data w f)\<rparr>)"
  using assms
proof (induction fs arbitrary: w)
  case (Cons f fs)
  let ?w = "w\<lparr>private_data := (private_data w)(f := 0)\<rparr>"
  have "kunwind_debug_release h pid f w = Ok (0, ?w)"
    using Cons.prems by (simp add: kunwind_debug_release_def kunwind_process_unregister_def)
  moreover have "release_files h pid fs ?w = Ok (?w\<lparr>private_data := (\<lambda>g. if g \<in> set fs then 0 else private_data ?w g)\<rparr>)"
    using Cons.prems by (intro Cons.IH) simp
  ultimately show ?case by (auto simp: fun_eq_iff)
qed simp

section \<open>Properties\<close>

text \<open>
  C40. Unloading the module while processes are registered: \<open>kunwind_debug_exit\<close> ends, whichever files the kernel
  closes for it, and when the task that unloads is not registered itself it releases nothing. Every process keeps its pages, mappings and
  allocations, and no file that was closed and no module loaded later leads to them.
\<close>

theorem unload_releases_nothing:
  assumes "kunwind_process_find h (kunw_map (kdev s)) pid = None"
  shows "\<exists>s'. kunwind_debug_exit h pid closing s = Ok s' \<and> \<not> proc_entry s' \<and>
    objs (kdev s') = objs (kdev s) \<and> wres (kdev s') = wres (kdev s) \<and>
    (\<forall>f \<in> set closing. private_data (kdev s') f = 0) \<and>
    (\<forall>created p. kunwind_process_find h (kunw_map (kdev (snd (kunwind_debug_init created (fresh_registry s'))))) p = None)"
  using release_unregistered [OF assms, of closing]
  by (auto simp: kunwind_debug_exit_def kunwind_debug_init_def fresh_registry_def log_info_def pr.lookup_emp)

theorem unload_releases_nothing_witness:
  "\<exists>s'. kunwind_debug_exit (\<lambda>_. 0) 7 [1]
      \<lparr>klog = [], proc_entry = True, kdev = opened (\<lambda>_. 0) 0x1000 False 1 1 dev0\<rparr> = Ok s' \<and>
     objs (kdev s') 0x1000 \<noteq> None"
proof -
  let ?s = "\<lparr>klog = [], proc_entry = True, kdev = opened (\<lambda>_. 0) 0x1000 False 1 1 dev0\<rparr>"
  have "kunwind_process_find (\<lambda>_. 0) (kunw_map (kdev ?s)) 7 = None"
    using find_opened [of "\<lambda>_. 0" dev0 1 "0x1000" False 1 7]
    by (simp add: dev0_def initial_world_def pr.inv_emp pr.lookup_emp)
  from unload_releases_nothing [OF this, of "[1]"] show ?thesis by (auto simp: opened_def)
qed

end
