(* ===== verification/Slow_Path.thy ===== *)
theory Slow_Path
  imports Frame_Facts
begin

text \<open>
  What the slow path of \<open>__unwind_frame\<close> (\<^verbatim>\<open>src/unwind.c\<close>) restores from rules that are not expressions: the two
  loops over the registers act as one simultaneous assignment from the frame as it was.
\<close>

section \<open>The meaning of the rules\<close>

text \<open>
  The value a rule gives register \<open>i\<close>, from the callee's frame. A saved word that cannot be read leaves the
  register as it is.
\<close>

definition rule_value :: "unw_env \<Rightarrow> unwind_frame_info \<Rightarrow> u64 \<Rightarrow> nat \<Rightarrow> unwind_item \<Rightarrow> u64" where
  "rule_value e f cfa i it =
     (let old = regs f ! slot (of_nat i)
      in if i = unat UNW_SP_IDX then cfa
         else case iwhere it of
             Nowhere \<Rightarrow> 0
           | Memory \<Rightarrow> (case read_word (e_ua e) (e_compat e) (cfa + istate it) of None \<Rightarrow> old | Some v \<Rightarrow> v)
           | Register \<Rightarrow> regs f ! slot (istate it)
           | Value \<Rightarrow> cfa + istate it
           | _ \<Rightarrow> old)"

definition plain_item :: "unwind_item \<Rightarrow> bool" where
  "plain_item it \<longleftrightarrow> iwhere it \<noteq> Expr \<and> iwhere it \<noteq> ValExpr \<and> (iwhere it = Register \<longrightarrow> unat (istate it) < NREGS)"

definition plain_rules :: "unwind_state \<Rightarrow> bool" where
  "plain_rules s \<longleftrightarrow> (\<forall>i < NREGS. plain_item (rs_regs (REG_STATE s) ! i))"

section \<open>The first loop\<close>

text \<open>The rule with the register's value in place of its number.\<close>

definition resolved :: "unwind_frame_info \<Rightarrow> unwind_item \<Rightarrow> unwind_item" where
  "resolved f it = (if iwhere it = Register then it\<lparr>istate := regs f ! slot (istate it)\<rparr> else it)"

lemma resolve_item_plain:
  assumes "plain_item (rs_regs (REG_STATE s) ! i)" "i < 17" "wf_state s"
  shows "\<exists>s'. resolve_item f i s = Ok (Some s') \<and> wf_state s' \<and>
    rs_regs (REG_STATE s') = (rs_regs (REG_STATE s))[i := resolved f (rs_regs (REG_STATE s) ! i)]"
proof (cases "iwhere (rs_regs (REG_STATE s) ! i) = Register")
  case True
  let ?r = "istate (rs_regs (REG_STATE s) ! i)"
  have "unat ?r < 17" using True assms(1) by (simp add: plain_item_def)
  then have "resolve_item f i s = Ok (Some (upd_item i (\<lambda>it. it\<lparr>istate := regs f ! slot ?r\<rparr>) s))"
    using True assms(2) by (simp add: resolve_item_def Let_def REG_INVALID_False reg_width_8 frame_get_8)
  then show ?thesis using True wf_upd_item [OF assms(3)] by (simp add: resolved_def upd_item_def assms(3))
next
  case False
  then show ?thesis using assms by (simp add: resolve_item_def Let_def REG_INVALID_False resolved_def)
qed

lemma resolve_items_plain:
  assumes "\<forall>i \<in> set is. i < 17 \<and> plain_item (rs_regs (REG_STATE s) ! i)" "distinct is" "wf_state s"
  shows "\<exists>s'. resolve_items f is s = Ok (Some s') \<and>
    (\<forall>i < 17. rs_regs (REG_STATE s') ! i =
       (if i \<in> set is then resolved f (rs_regs (REG_STATE s) ! i) else rs_regs (REG_STATE s) ! i))"
  using assms
proof (induction "is" arbitrary: s)
  case (Cons i "is")
  obtain s1 where 1: "resolve_item f i s = Ok (Some s1)" "wf_state s1"
    "rs_regs (REG_STATE s1) = (rs_regs (REG_STATE s))[i := resolved f (rs_regs (REG_STATE s) ! i)]"
    using resolve_item_plain [of s i f] Cons.prems by auto
  have l: "length (rs_regs (REG_STATE s)) = 17" using Cons.prems(3) REG_STATE_wf by (auto simp: wf_reg_state_def)
  have "\<forall>k \<in> set is. k < 17 \<and> plain_item (rs_regs (REG_STATE s1) ! k)"
    using Cons.prems(1,2) l by (auto simp: 1(3) nth_list_update)
  from Cons.IH [OF this _ 1(2)] obtain s' where s': "resolve_items f is s1 = Ok (Some s')"
    "\<forall>k < 17. rs_regs (REG_STATE s') ! k =
       (if k \<in> set is then resolved f (rs_regs (REG_STATE s1) ! k) else rs_regs (REG_STATE s1) ! k)"
    using Cons.prems(2) by auto
  then show ?case using 1(1) Cons.prems(1,2) l by (auto simp: 1(3) nth_list_update)
qed simp

section \<open>The second loop\<close>

text \<open>A register's turn on a rule that was resolved.\<close>

lemma restore_item_plain:
  assumes "rs_regs (REG_STATE s) ! i = resolved g it" "plain_item it" "i < 17" "wf_frame f"
    "regs f ! slot (of_nat i) = regs g ! slot (of_nat i)"
  shows "\<exists>f' val'. restore_item e s cfa i (f, val) = Ok (True, f', val') \<and>
    regs f' ! slot (of_nat i) = rule_value e g cfa i it \<and> call_frame f' = call_frame f"
proof -
  have u: "unat (of_nat i :: u64) < 17" using assms(3) by (simp add: unat_of_nat take_bit_nat_eq_self)
  have len: "slot (of_nat i) < length (regs f)"
    using slot_less [OF u] assms(4) by (simp add: wf_frame_def PT_REGS_WORDS_def)
  have sp: "slot (of_nat i) = PT_sp" if "i = unat UNW_SP_IDX"
    using that by (simp add: unw_idx_defs slot_def reg_info_def)
  show ?thesis
    using assms(1,2,5) len sp u REG_INVALID_False [OF assms(3)] reg_width_8 [OF assms(3)]
    by (cases "iwhere it")
      (auto simp: restore_item_def rule_value_def resolved_def plain_item_def Let_def store_sized_def store_value_def frame_set_8
        restore_reg_read set_reg_def split: option.splits)
qed

lemma restore_items_plain:
  assumes "\<forall>i \<in> set is. i < 17 \<and> plain_item (it i) \<and> rs_regs (REG_STATE s) ! i = resolved g (it i) \<and>
      regs f ! slot (of_nat i) = regs g ! slot (of_nat i)" "distinct is" "wf_frame f"
  shows "\<exists>f'. restore_items e s cfa is (f, val) = Ok (True, f') \<and> call_frame f' = call_frame f \<and>
    (\<forall>i \<in> set is. regs f' ! slot (of_nat i) = rule_value e g cfa i (it i))"
  using assms
proof (induction "is" arbitrary: f val)
  case (Cons i "is")
  have i: "i < 17" using Cons.prems(1) by simp
  obtain f1 v1 where 1: "restore_item e s cfa i (f, val) = Ok (True, f1, v1)"
    "regs f1 ! slot (of_nat i) = rule_value e g cfa i (it i)" "call_frame f1 = call_frame f"
    using restore_item_plain [of s i g "it i" f e cfa val] Cons.prems by auto
  note k = restore_item_frame [OF 1(1) Cons.prems(3) i]
  have "\<forall>j \<in> set is. j < 17 \<and> plain_item (it j) \<and> rs_regs (REG_STATE s) ! j = resolved g (it j) \<and>
      regs f1 ! slot (of_nat j) = regs g ! slot (of_nat j)"
    using Cons.prems(1,2) k(2) by (metis distinct.simps(2) list.set_intros(2))
  from Cons.IH [OF this _ k(1)] obtain f' where f': "restore_items e s cfa is (f1, v1) = Ok (True, f')"
    "call_frame f' = call_frame f1" "\<forall>j \<in> set is. regs f' ! slot (of_nat j) = rule_value e g cfa j (it j)"
    using Cons.prems(2) by auto
  have "regs f' ! slot (of_nat i) = regs f1 ! slot (of_nat i)"
    using restore_items_frame(2) [OF f'(1) k(1)] Cons.prems(1,2) i by auto
  then show ?case using 1 f' by simp
qed simp

section \<open>Two registers exchanged\<close>

text \<open>For the witness: the rules of a standard frame, with two registers that have each other's value.\<close>

definition swap_state :: unwind_state where
  "swap_state = set_register_rule 0 3 (set_register_rule 3 0 std_state)"

definition swap_frame :: unwind_frame_info where
  "swap_frame = std_frame\<lparr>regs := (regs std_frame)[slot 0 := 7, slot 3 := 9]\<rparr>"

lemma swap_wf: "wf_state swap_state" "wf_frame swap_frame"
  using std_state_wf unfolding swap_state_def
  by (auto intro!: wf_setters) (simp add: swap_frame_def wf_frame_def std_frame_def PT_REGS_WORDS_def)

lemma swap_items:
  "rs_regs (REG_STATE swap_state) = (rs_regs (REG_STATE std_state))[3 := \<lparr>iwhere = Register, istate = 0\<rparr>,
     0 := \<lparr>iwhere = Register, istate = 3\<rparr>]"
  "cfa_is_expr (REG_STATE swap_state) = False" "cfa_reg (REG_STATE swap_state) = 6" "cfa_off (REG_STATE swap_state) = 16"
  using wf_upd_item [OF std_state_wf, of 3 "\<lambda>it. it\<lparr>iwhere := Register, istate := 0\<rparr>"]
  by (simp_all add: swap_state_def set_register_rule_def upd_item_def std_state_wf std_reg_state zero_item_def)

lemma swap_plain: "plain_rules swap_state" "iwhere (rule_of swap_state 16) = Memory"
  "compute_cfa std_env swap_frame swap_state = Ok (Some 0x90)"
  by (simp_all add: plain_rules_def plain_item_def swap_items rule_of_def std_reg_state nth_list_update zero_item_def
      compute_cfa_def reg_width_8 frame_get_8 swap_frame_def std_frame_def slot_def reg_info_def)

section \<open>Properties\<close>

text \<open>
  C9. What the slow path restores: from rules without expressions that name existing registers, when the CFA is known and the
  return address has a rule, it ends without a fault and has assigned to every register the value of its rule in the
  frame as it was, the stack pointer the CFA, all at once, so that registers may be exchanged; a saved word that cannot
  be read leaves its register as it is. It then returns 0 if program counter, stack pointer and frame pointer are those
  that the backtrace started with, and \<open>-EIO\<close> otherwise.
\<close>

theorem slow_path_restores:
  assumes "wf_frame (info ctx)" "wf_state (ustate ctx)" "plain_rules (ustate ctx)"
    "iwhere (rule_of (ustate ctx) ra) \<noteq> Nowhere" "compute_cfa e (info ctx) (ustate ctx) = Ok (Some cfa)"
  shows "\<exists>ctx'. slow_path e ctx ra =
      Ok (if UNW_PC (info ctx') = UNW_PC (stub ctx) \<and> UNW_SP (info ctx') = UNW_SP (stub ctx) \<and>
             UNW_BP (info ctx') = UNW_BP (stub ctx) then 0 else - EIO, ctx') \<and>
    stub ctx' = stub ctx \<and> call_frame (info ctx') = call_frame (info ctx) \<and>
    (\<forall>i < NREGS. regs (info ctx') ! slot (of_nat i) =
       rule_value e (info ctx) cfa i (rs_regs (REG_STATE (ustate ctx)) ! i))"
proof -
  let ?it = "\<lambda>i. rs_regs (REG_STATE (ustate ctx)) ! i"
  have "\<forall>i \<in> set [0..<NREGS]. i < 17 \<and> plain_item (?it i)" using assms(3) by (simp add: plain_rules_def)
  from resolve_items_plain [OF this _ assms(2)] obtain s' where
    s': "resolve_items (info ctx) [0..<NREGS] (ustate ctx) = Ok (Some s')"
    "\<forall>i < 17. rs_regs (REG_STATE s') ! i = resolved (info ctx) (?it i)" by auto
  have "\<forall>i \<in> set [0..<NREGS]. i < 17 \<and> plain_item (?it i) \<and> rs_regs (REG_STATE s') ! i = resolved (info ctx) (?it i) \<and>
      regs (info ctx) ! slot (of_nat i) = regs (info ctx) ! slot (of_nat i)"
    using s'(2) assms(3) by (simp add: plain_rules_def)
  from restore_items_plain [OF this _ assms(1)] obtain f' where
    f': "restore_items e s' cfa [0..<NREGS] (info ctx, None) = Ok (True, f')" "call_frame f' = call_frame (info ctx)"
    "\<forall>i \<in> set [0..<NREGS]. regs f' ! slot (of_nat i) = rule_value e (info ctx) cfa i (?it i)" by fastforce
  show ?thesis
    using assms(4,5) s'(1) f'
    by (intro exI [of _ "ctx\<lparr>info := f', ustate := s'\<rparr>"]) (simp add: slow_path_def Let_def)
qed

theorem slow_path_restores_witness:
  "\<exists>r ctx'. slow_path std_env \<lparr>info = swap_frame, stub = std_caller, ustate = swap_state\<rparr> 16 = Ok (r, ctx') \<and>
     regs swap_frame ! slot 0 = 7 \<and> regs swap_frame ! slot 3 = 9 \<and>
     regs (info ctx') ! slot 0 = 9 \<and> regs (info ctx') ! slot 3 = 7 \<and> regs (info ctx') ! slot 7 = 0x90"
proof -
  let ?ctx = "\<lparr>info = swap_frame, stub = std_caller, ustate = swap_state\<rparr>"
  have o: "regs swap_frame ! slot 0 = 7" "regs swap_frame ! slot 3 = 9"
    by (simp_all add: swap_frame_def std_frame_def slot_def reg_info_def)
  obtain r ctx' where c: "slow_path std_env ?ctx 16 = Ok (r, ctx')"
    "\<forall>i < NREGS. regs (info ctx') ! slot (of_nat i) = rule_value std_env swap_frame 0x90 i (rs_regs (REG_STATE swap_state) ! i)"
    using slow_path_restores [of ?ctx 16 std_env "0x90"] swap_wf swap_plain by auto
  have "rs_regs (REG_STATE swap_state) ! 0 = \<lparr>iwhere = Register, istate = 3\<rparr>" "rs_regs (REG_STATE swap_state) ! 3 = \<lparr>iwhere = Register, istate = 0\<rparr>"
    by (simp_all add: swap_items std_reg_state)
  then show ?thesis
    using c(1) spec [OF c(2), of 0] spec [OF c(2), of 3] spec [OF c(2), of 7] o
    by (auto simp: rule_value_def unw_idx_defs)
qed

end
