(* ===== verification/Call_Chain.thy ===== *)
theory Call_Chain
  imports Unwind_Spec
begin

text \<open>
  A whole call stack: from the bytes of the modules and the words of the stack to the list of program
  counters that a backtrace returns. A frame is seen as its program counter, stack pointer and frame
  pointer, all that the rules of ordinary functions depend on.
\<close>

section \<open>Frames and their callers\<close>

type_synonym fview = "u64 \<times> u64 \<times> u64"

definition view :: "unwind_frame_info \<Rightarrow> fview" where
  "view f = (get_pc f, UNW_SP f, UNW_BP f)"

text \<open>
  \<open>governed e p pc n ci fi startLoc w\<close>: the module of \<open>pc\<close> has the entry \<open>n\<close> for it, which is not marked as that of a
  signal frame, and the programs of the entry mean the row \<open>w\<close> there.
\<close>

definition governed ::
  "unw_env \<Rightarrow> kunwind_proc_modules \<Rightarrow> u64 \<Rightarrow> fde_entry \<Rightarrow> cfa_insn list \<Rightarrow> cfa_insn list \<Rightarrow> u64 \<Rightarrow> row_machine \<Rightarrow> bool" where
  "governed e p pc n ci fi startLoc w \<longleftrightarrow>
     pc \<noteq> 0 \<and> (\<exists>km rows. kunw_mod_lookup pc p = Some km \<and> covers e km rows pc n startLoc) \<and> AugS \<notin> set (en_aug n) \<and>
     prog_bytes (en_ci n) ci \<and> prog_bytes (en_fi n) fi \<and>
     row_for (en_parsed n) startLoc pc ci fi = Some w \<and> rm_loc w \<le> startLoc + en_rng n"

text \<open>The frame of an ordinary function and the frame of its caller, one before the return address.\<close>

inductive called_from :: "unw_env \<Rightarrow> kunwind_proc_modules \<Rightarrow> fview \<Rightarrow> fview \<Rightarrow> bool" for e p where
  called: "governed e p pc n ci fi startLoc w \<Longrightarrow> std_row (rm_row w) r off \<Longrightarrow>
    cfa = (if r = RBP then bp else sptr) + off \<Longrightarrow> read_word (e_ua e) False (cfa - 8) = Some ret \<Longrightarrow>
    row_bp (e_ua e) cfa (rm_row w) bp = Some bp' \<Longrightarrow> called_from e p (pc, sptr, bp) (ret - 1, cfa, bp')"

text \<open>The frame at the bottom of the stack: its rules say that it has no return address.\<close>

definition outermost :: "unw_env \<Rightarrow> kunwind_proc_modules \<Rightarrow> u64 \<Rightarrow> bool" where
  "outermost e p pc \<longleftrightarrow>
     (\<exists>n ci fi startLoc w. governed e p pc n ci fi startLoc w \<and> row_rules (rm_row w) ! 16 = RUndefined)"

inductive call_chain :: "unw_env \<Rightarrow> kunwind_proc_modules \<Rightarrow> fview \<Rightarrow> u64 list \<Rightarrow> bool" for e p where
  chain_last: "outermost e p pc \<Longrightarrow> call_chain e p (pc, sptr, bp) [pc]"
| chain_call: "called_from e p (pc, sptr, bp) v \<Longrightarrow> call_chain e p v pcs \<Longrightarrow> call_chain e p (pc, sptr, bp) (pc # pcs)"

section \<open>The cache\<close>

text \<open>
  \<open>cache_good e p c\<close>: every description in the cache is the one that the entry for its program counter gives.
  Every step keeps it.
\<close>

definition described :: "unw_env \<Rightarrow> kunwind_module \<Rightarrow> u64 \<Rightarrow> tdep_frame \<Rightarrow> bool" where
  "described e km pc t \<longleftrightarrow>
     (\<exists>fc sl el s. locate_rules e km pc = Ok (LFound fc sl el) \<and> run_programs e fc sl el pc = Ok (Some s) \<and>
        check_standard_frame s \<and> t = tdep_of_state pc (fc_retAddrReg fc) s)"

definition entry_good :: "unw_env \<Rightarrow> kunwind_proc_modules \<Rightarrow> tdep_frame \<Rightarrow> bool" where
  "entry_good e p t \<longleftrightarrow> (\<forall>km. kunw_mod_lookup (tpc t) p = Some km \<longrightarrow> described e km (tpc t) t)"

definition cache_good :: "unw_env \<Rightarrow> kunwind_proc_modules \<Rightarrow> unw_cache \<Rightarrow> bool" where
  "cache_good e p c \<longleftrightarrow> length c = length unw_cache_init \<and> (\<forall>t \<in> set (concat c). entry_good e p t)"

lemma length_cache_init: "length unw_cache_init = 2 ^ LENGTH(10)"
  by (simp add: unw_cache_init_def ht_empty_def)

lemma find_entry_in:
  assumes "unw_cache_find_entry h c pc = Some t" "length c = length unw_cache_init"
  shows "t \<in> set (concat c)" "tpc t = pc"
proof -
  have "unat (h pc) < length c" using unat_bucket [of "h pc"] assms(2) by (simp add: length_cache_init)
  moreover have "t \<in> set (c ! unat (h pc))"
    using assms(1) by (auto simp: unw_cache_find_entry_def find_Some_iff)
  ultimately show "t \<in> set (concat c)" by (auto intro!: bexI [OF _ nth_mem])
  show "tpc t = pc" by (rule find_entry_key [OF assms(1)])
qed

lemma cache_goodD:
  "cache_good e p c \<Longrightarrow> unw_cache_find_entry h c pc = Some t \<Longrightarrow> kunw_mod_lookup pc p = Some km \<Longrightarrow> described e km pc t"
  using find_entry_in [of h c pc t] by (fastforce simp: cache_good_def entry_good_def)

lemma cache_good_init: "cache_good e p unw_cache_init"
  by (simp add: cache_good_def unw_cache_init_def ht_empty_def)

text \<open>A chain that is replaced leaves the entries of the others.\<close>

lemma set_concat_update: "set (concat (c[b := vs])) \<subseteq> set (concat c) \<union> set vs"
  using set_update_subset_insert [of c b vs] by fastforce

lemma cache_good_add:
  assumes "cache_good e p c" "\<And>km. kunw_mod_lookup (tpc t) p = Some km \<Longrightarrow> described e km (tpc t) t"
  shows "cache_good e p (unw_cache_add_entry h ok t c)"
proof -
  let ?b = "unat (h (tpc t))"
  have "?b < length c" using unat_bucket [of "h (tpc t)"] assms(1) by (simp add: cache_good_def length_cache_init)
  then have "set (t # c ! ?b) \<subseteq> insert t (set (concat c))" by (auto intro!: bexI [OF _ nth_mem])
  then have "set (concat (ht_add h tpc t c)) \<subseteq> insert t (set (concat c))"
    using set_concat_update [of c ?b "t # c ! ?b"] by (auto simp: ht_add_def Let_def)
  moreover have "length (ht_add h tpc t c) = length c" by (simp add: ht_add_def Let_def)
  moreover have "entry_good e p t" using assms(2) by (simp add: entry_good_def)
  ultimately have "cache_good e p (ht_add h tpc t c)" using assms(1) by (auto simp: cache_good_def)
  then show ?thesis using assms(1) by (simp add: unw_cache_add_entry_def split: option.split)
qed

lemma cache_good_step:
  assumes "cache_good e p c" "kunw_mod_lookup (get_pc (info ctx)) p = Some km"
    "unwind_frame_step e km ctx c = Ok (r, ctx', c')"
  shows "cache_good e p c'"
proof (cases "unw_cache_find_entry (e_hash e) c (get_pc (info ctx))")
  case None
  let ?pc = "get_pc (info ctx)"
  show ?thesis
  proof (cases "c' = c")
    case False
    then obtain fc sl el s where l: "locate_rules e km ?pc = Ok (LFound fc sl el)" "run_programs e fc sl el ?pc = Ok (Some s)"
      "apply_rules e c ?pc (fc_retAddrReg fc) (ctx\<lparr>info := (info ctx)\<lparr>call_frame := fc_call_frame fc\<rparr>, ustate := s\<rparr>) =
        Ok (r, ctx', c')"
      using step_miss_cases [OF assms(3) None] by blast
    let ?t = "tdep_of_state ?pc (fc_retAddrReg fc) s"
    have a: "check_standard_frame s" "c' = unw_cache_add_entry (e_hash e) (e_alloc e) ?t c"
      using l(3) False by (auto simp: apply_rules_def Let_def rbind_eq_Ok split: if_splits)
    have "described e km ?pc ?t" unfolding described_def using l(1,2) a(1) by blast
    moreover have "tpc ?t = ?pc" by (simp add: tdep_of_state_def)
    ultimately show ?thesis unfolding a(2) using assms(2) by (intro cache_good_add [OF assms(1)]) auto
  qed (use assms(1) in simp)
next
  case (Some t)
  then show ?thesis
    using assms(1,3) by (auto simp: unwind_frame_step_def Let_def rbind_eq_Ok split: if_splits)
qed

lemma lookup_modules: "stp_modules q = stp_modules p \<Longrightarrow> kunw_mod_lookup pc q = kunw_mod_lookup pc p"
  by (simp add: kunw_mod_lookup_def)

lemma cache_good_frame:
  assumes "cache_good e p (unw_cache q)" "stp_modules q = stp_modules p" "unwind_frame e ctx user q = Ok (r, ctx', q')"
  shows "cache_good e p (unw_cache q') \<and> stp_modules q' = stp_modules p"
  using assms lookup_modules [OF assms(2)] cache_good_step [OF assms(1)]
  by (fastforce simp: unwind_frame_def Let_def rbind_eq_Ok split: if_splits option.splits)

lemma cache_good_modules: "stp_modules q = stp_modules p \<Longrightarrow> cache_good e q c = cache_good e p c"
  by (simp add: cache_good_def entry_good_def lookup_modules [of q p])

lemma cache_good_full_loop:
  assumes "full_loop fuel e c q bt ret = Ok (ret', c', q', bt')" "cache_good e p (unw_cache q)" "stp_modules q = stp_modules p"
  shows "cache_good e p (unw_cache q')"
  using assms
proof (induction fuel arbitrary: c q bt ret)
  case 0
  then show ?case by (auto simp: full_loop.simps [of 0] Let_def split: if_splits)
next
  case (Suc n)
  show ?case
  proof (cases "nr_entries bt < max_entries bt \<and> get_pc (info c) \<noteq> 0")
    case True
    then obtain r c1 q1 where u: "unwind_frame e c True q = Ok (r, c1, q1)"
      "if r \<noteq> 0 then q' = q1 else full_loop n e c1 q1 (bt_push (get_pc (info c)) bt) (Some r) = Ok (ret', c', q', bt')"
      using Suc.prems(1) by (auto simp: full_loop_step rbind_eq_Ok split: if_splits)
    note g = cache_good_frame [OF Suc.prems(2,3) u(1)]
    then show ?thesis using u(2) Suc.IH by (cases "r = 0") auto
  qed (use Suc.prems in \<open>auto simp: full_loop_done\<close>)
qed

lemma cache_good_unwind_full:
  assumes "unwind_full e c p bt = Ok (r, c', p', bt')" "cache_good e p (unw_cache p)"
  shows "cache_good e p (unw_cache p')"
  using assms cache_good_full_loop [where q = p and p = p]
  by (auto simp: unwind_full_def rbind_eq_Ok split: if_splits option.splits)

section \<open>One frame\<close>

lemma slot_views: "wf_frame f \<Longrightarrow> regs f ! slot RBP = UNW_BP f" "wf_frame f \<Longrightarrow> regs f ! slot RSP = UNW_SP f"
  by (simp_all add: slot_consts UNW_BP_def UNW_SP_def)

text \<open>The state that the programs of an entry end in, which a description in the cache comes from too.\<close>

lemma governed_state:
  assumes "governed e p pc n ci fi startLoc w" "kunw_mod_lookup pc p = Some km"
  obtains rows s where "covers e km rows pc n startLoc" "wf_state s" "abs_state s = w" "\<not> e_compat e"
    "run_programs e (en_parsed n) startLoc (startLoc + en_rng n) pc = Ok (Some s)"
    "\<And>t. described e km pc t \<Longrightarrow> t = tdep_of_state pc UNW_PC_IDX s \<and> check_standard_frame s"
proof -
  obtain rows where c: "covers e km rows pc n startLoc" using assms by (auto simp: governed_def)
  then have en: "entry_at (e_mem e) (ehf km) n" and co: "\<not> e_compat e" by (simp_all add: covers_def)
  have pb: "prog_bytes (en_ci n) ci" "prog_bytes (en_fi n) fi"
    and rw: "row_for (en_parsed n) startLoc pc ci fi = Some w" "rm_loc w \<le> startLoc + en_rng n"
    using assms(1) by (simp_all add: governed_def)
  obtain s where s: "run_programs e (en_parsed n) startLoc (startLoc + en_rng n) pc = Ok (Some s)"
    "wf_state s" "abs_state s = w"
    using run_programs_enc [OF co entry_progs [OF en pb] rw] by blast
  have "t = tdep_of_state pc UNW_PC_IDX s \<and> check_standard_frame s" if "described e km pc t" for t
    using that s(1) locate_covers(1,3) [OF c] by (auto simp: described_def)
  then show thesis using that c s co by blast
qed

lemma frame_called:
  assumes "called_from e p (view (info c)) v" "wf_frame (info c)" "stp_modules q = stp_modules p"
    "cache_good e p (unw_cache q)"
    "call_frame (info c) \<or> unw_cache_find_entry (e_hash e) (unw_cache q) (get_pc (info c)) = None"
  shows "\<exists>c' cache. unwind_frame e c True q = Ok (0, c', q\<lparr>unw_cache := cache\<rparr>) \<and> view (info c') = v \<and>
    wf_frame (info c') \<and> call_frame (info c')"
  using assms(1)
proof cases
  case (called pc n ci fi startLoc w r off cfa bp sptr ret bp')
  let ?pc = "get_pc (info c)"
  have g: "governed e p ?pc n ci fi startLoc w" and v: "sptr = UNW_SP (info c)" "bp = UNW_BP (info c)"
    using called by (auto simp: view_def)
  obtain km where k: "kunw_mod_lookup ?pc p = Some km" "kunw_mod_lookup ?pc q = Some km" "?pc \<noteq> 0"
    using g lookup_modules [OF assms(3)] by (auto simp: governed_def)
  obtain rows s where s: "covers e km rows ?pc n startLoc" "wf_state s" "abs_state s = w" "\<not> e_compat e"
    "\<And>t. described e km ?pc t \<Longrightarrow> t = tdep_of_state ?pc UNW_PC_IDX s \<and> check_standard_frame s"
    using governed_state [OF g k(1)] by metis
  have cfa: "cfa = regs (info c) ! slot r + off"
    using called(4,5) v slot_views [OF assms(2)] by (auto simp: std_row_def unw_idx_defs)
  show ?thesis
  proof (cases "unw_cache_find_entry (e_hash e) (unw_cache q) ?pc")
    case None
    then obtain c' t where "unwind_frame_step e km c (unw_cache q) =
        Ok (0, c', unw_cache_add_entry (e_hash e) (e_alloc e) t (unw_cache q))"
      "UNW_PC (info c') = ret" "UNW_SP (info c') = cfa" "UNW_BP (info c') = bp'" "call_frame (info c')" "wf_frame (info c')"
      using unwind_covered [OF s(1) assms(2) None _ _ _ _ called(4) cfa called(6), of ci fi bp'] g called(7) v
      by (auto simp: governed_def)
    then show ?thesis
      using k called(2)
      by (intro exI [of _ c'] exI [of _ "unw_cache_add_entry (e_hash e) (e_alloc e) t (unw_cache q)"])
        (auto simp: unwind_frame_def view_def get_pc_def)
  next
    case (Some t)
    then have t: "t = tdep_of_state ?pc UNW_PC_IDX s" "call_frame (info c)"
      using assms(5) s(5) [OF cache_goodD [OF assms(4) Some k(1)]] by auto
    let ?f = "set_reg UNW_PC_IDX ret (set_reg RSP cfa (set_reg RBP bp' (info c)))"
    have "apply_tdep_state (e_ua e) (info c) t (e_compat e) True = Ok (True, ?f)" "\<not> tlast t"
      using tdep_standard [OF s(4,2,3) called(4) assms(2) cfa called(6)] called(7) v(2) t(1) by simp_all
    moreover have "sec_size (ehf km) \<noteq> 0" "sec_size (ehf km) AND 3 = 0"
      using s(1) locate_covers(2) [OF s(1)] by (simp_all add: covers_def)
    ultimately have "unwind_frame_step e km c (unw_cache q) = Ok (0, c\<lparr>info := ?f\<rparr>, unw_cache q)"
      using Some by (simp add: unwind_frame_step_def Let_def)
    then show ?thesis
      using k called(2) t(2) assms(2)
      by (intro exI [of _ "c\<lparr>info := ?f\<rparr>"] exI [of _ "unw_cache q"]) (auto simp: unwind_frame_def view_def get_pc_def)
  qed
qed

lemma frame_outermost:
  assumes "outermost e p (get_pc (info c))" "stp_modules q = stp_modules p" "cache_good e p (unw_cache q)"
  shows "\<exists>c'. unwind_frame e c True q = Ok (UNW_BOTTOM, c', q)"
proof -
  let ?pc = "get_pc (info c)"
  obtain n ci fi startLoc w where g: "governed e p ?pc n ci fi startLoc w" "row_rules (rm_row w) ! 16 = RUndefined"
    using assms(1) by (auto simp: outermost_def)
  obtain km where k: "kunw_mod_lookup ?pc p = Some km" "kunw_mod_lookup ?pc q = Some km" "?pc \<noteq> 0"
    using g lookup_modules [OF assms(2)] by (auto simp: governed_def)
  obtain rows s where s: "covers e km rows ?pc n startLoc" "wf_state s" "abs_state s = w"
    "run_programs e (en_parsed n) startLoc (startLoc + en_rng n) ?pc = Ok (Some s)"
    "\<And>t. described e km ?pc t \<Longrightarrow> t = tdep_of_state ?pc UNW_PC_IDX s \<and> check_standard_frame s"
    using governed_state [OF g(1) k(1)] by metis
  have "rule_of s UNW_PC_IDX = rs_regs (REG_STATE s) ! 16" by (simp add: rule_of_def UNW_PC_IDX_def)
  moreover have "length (rs_regs (REG_STATE s)) = 17"
    using REG_STATE_wf [OF s(2)] by (simp add: wf_reg_state_def)
  ultimately have w: "iwhere (rule_of s UNW_PC_IDX) = Nowhere"
    using g(2) s(3) by (auto simp: abs_row_def abs_item_cases)
  then have n: "\<not> check_standard_frame s" by (simp add: check_standard_frame_def)
  then have "unw_cache_find_entry (e_hash e) (unw_cache q) ?pc = None"
    using s(5) cache_goodD [OF assms(3) _ k(1)] by (cases "unw_cache_find_entry (e_hash e) (unw_cache q) ?pc") auto
  moreover have "sec_size (ehf km) AND 3 = 0" using s(1) by (simp add: covers_def)
  ultimately show ?thesis
    using k w n s(4) locate_covers [OF s(1)]
    by (auto simp: unwind_frame_def unwind_frame_step_def apply_rules_def slow_path_def Let_def)
qed

section \<open>The whole stack\<close>

lemma entries_left:
  assumes "nr_entries bt < max_entries bt" "unat (max_entries bt) - unat (nr_entries bt) \<le> fuel"
  obtains k n where "unat (max_entries bt) - unat (nr_entries bt) = Suc k" "fuel = Suc n" "k \<le> n"
  using assms by (cases "unat (max_entries bt) - unat (nr_entries bt)"; cases fuel) (auto simp: word_less_nat_alt)

lemma full_loop_chain:
  assumes "call_chain e p v pcs" "view (info c) = v" "wf_frame (info c)" "stp_modules q = stp_modules p"
    "cache_good e p (unw_cache q)"
    "call_frame (info c) \<or> unw_cache_find_entry (e_hash e) (unw_cache q) (get_pc (info c)) = None"
    "bt_wf bt" "unat (max_entries bt) - unat (nr_entries bt) \<le> fuel" "nr_entries bt < max_entries bt \<or> ret = Some 0"
  shows "\<exists>r c' q' bt'. full_loop fuel e c q bt ret = Ok (Some r, c', q', bt') \<and> r \<in> {0, UNW_BOTTOM} \<and>
    cache_good e p (unw_cache q') \<and>
    bt_entries bt' = bt_entries bt @ take (unat (max_entries bt) - unat (nr_entries bt)) pcs"
proof (cases "nr_entries bt < max_entries bt")
  case False
  then show ?thesis using assms by (simp add: full_loop_done word_less_nat_alt)
next
  case True
  with assms show ?thesis
  proof (induction arbitrary: c q bt fuel ret rule: call_chain.induct)
    case (chain_last pc sptr bp)
    then obtain k n where "unat (max_entries bt) - unat (nr_entries bt) = Suc k" "fuel = Suc n"
      using entries_left by metis
    moreover have "get_pc (info c) = pc" "pc \<noteq> 0"
      using chain_last by (auto simp: view_def outermost_def governed_def)
    ultimately show ?case
      using frame_outermost [of e p c q] chain_last by (auto simp: full_loop_step UNW_BOTTOM_def)
  next
    case (chain_call pc sptr bp v pcs)
    then obtain k n where k: "unat (max_entries bt) - unat (nr_entries bt) = Suc k" "fuel = Suc n" "k \<le> n"
      using entries_left by metis
    have pc: "get_pc (info c) = pc" "pc \<noteq> 0"
      using chain_call by (auto simp: view_def governed_def elim: called_from.cases)
    obtain c' cache where u: "unwind_frame e c True q = Ok (0, c', q\<lparr>unw_cache := cache\<rparr>)" "view (info c') = v"
      "wf_frame (info c')" "call_frame (info c')"
      using frame_called [of e p c v q] chain_call by auto
    have good: "cache_good e p cache"
      using cache_good_frame [OF chain_call.prems(4,3) u(1)] by simp
    let ?bt = "bt_push pc bt"
    note w = bt_wf_push [OF chain_call.prems(6,9)]
    have m: "unat (max_entries ?bt) - unat (nr_entries ?bt) = k" using k w(2) by simp
    have "\<exists>r c2 q2 bt2. full_loop n e c' (q\<lparr>unw_cache := cache\<rparr>) ?bt (Some 0) = Ok (Some r, c2, q2, bt2) \<and>
        r \<in> {0, UNW_BOTTOM} \<and> cache_good e p (unw_cache q2) \<and> bt_entries bt2 = bt_entries ?bt @ take k pcs"
    proof (cases "nr_entries ?bt < max_entries ?bt")
      case True
      then show ?thesis
        using chain_call.IH [of c' "q\<lparr>unw_cache := cache\<rparr>" ?bt n "Some 0"] u w(1) m k(3) good chain_call.prems by simp
    next
      case False
      then show ?thesis using m good by (simp add: full_loop_done word_less_nat_alt)
    qed
    then show ?case using u(1) pc k chain_call.prems(9) by (auto simp: full_loop_step)
  qed
qed

lemma unwind_full_chain:
  assumes "call_chain e p (view (info c)) pcs" "wf_frame (info c)" "cache_good e p (unw_cache p)"
    "unw_cache_find_entry (e_hash e) (unw_cache p) (get_pc (info c)) = None" "\<not> bt_null bt" "max_entries bt \<noteq> 0"
  shows "\<exists>c' p' bt'. unwind_full e c p bt = Ok (0, c', p', bt') \<and> cache_good e p (unw_cache p') \<and>
    bt_entries bt' = take (unat (max_entries bt)) pcs"
proof -
  let ?bt = "bt\<lparr>nr_entries := 0, bt_entries := []\<rparr>"
  have "bt_wf ?bt" "nr_entries ?bt < max_entries ?bt" using assms(6) by (simp_all add: bt_wf_def word_greater_zero_iff)
  then obtain r c' q' bt' where "full_loop (unat (max_entries bt)) e c p ?bt None = Ok (Some r, c', q', bt')" "r \<in> {0, UNW_BOTTOM}"
    "cache_good e p (unw_cache q')" "bt_entries bt' = take (unat (max_entries bt)) pcs"
    using full_loop_chain [OF assms(1) refl assms(2) refl assms(3), of ?bt "unat (max_entries bt)" None] assms(4) by auto
  then show ?thesis using assms(5,6) by (auto simp: unwind_full_def UNW_BOTTOM_def)
qed

end
