(* ===== verification/Example_Module.thy ===== *)
theory Example_Module
  imports Call_Chain
begin

text \<open>
  A small module as a linker lays it out, for the witnesses of the properties: a table with three
  rows, one common entry and two frame descriptions: that of the function at \<open>0x400040\<close>, whose prologue
  pushes the frame pointer and sets it, and that of the entry point at \<open>0x4000c0\<close>, which has no caller; and a
  task that is stopped in the function. The module is mapped from \<open>0x400000\<close> and seen by the kernel at
  \<open>0x10000\<close>.
\<close>

section \<open>The module\<close>

definition ex_ci :: "cfa_insn list" where
  "ex_ci = [IDefCfa 7 8, IOffset 16 1, INop, INop]"

definition ex_fi :: "cfa_insn list" where
  "ex_fi = [IAdvance 1, IDefCfaOffset 16, IOffset 6 2, IAdvance 3, IDefCfaRegister 6, INop, INop, INop]"

definition ex_entry :: fde_entry where
  "ex_entry = \<lparr>en_cie = 0x10200, en_fde = 0x10218, en_ver = 1, en_aug = [AugR 0x1b], en_code = 1, en_data = - 8, en_ra = 16,
     en_ci = enc_insns ex_ci, en_ptr = 0x1c, en_start = - 0x1e0, en_rng = 0x20, en_lsda = [], en_fi = enc_insns ex_fi\<rparr>"

definition ex_fi2 :: "cfa_insn list" where
  "ex_fi2 = [IUndefined 16, INop]"

definition ex_entry2 :: fde_entry where
  "ex_entry2 = \<lparr>en_cie = 0x10200, en_fde = 0x10234, en_ver = 1, en_aug = [AugR 0x1b], en_code = 1, en_data = - 8, en_ra = 16,
     en_ci = enc_insns ex_ci, en_ptr = 0x38, en_start = - 0x17c, en_rng = 0x20, en_lsda = [], en_fi = enc_insns ex_fi2\<rparr>"

definition ex_rows :: "(u32 \<times> u32) list" where
  "ex_rows = [(- 0xe0, 0x50), (- 0xc0, 0x118), (- 0x40, 0x134)]"

definition ex_mem :: kmem where
  "ex_mem = mem_of 0x10100 (gnu_hdr 0xfc ex_rows) ++
     mem_of 0x10200 (cie_image 1 [AugR 0x1b] 1 (- 8) 16 (enc_insns ex_ci) @
                     fde_image 0x1b 0x1c (- 0x1e0) 0x20 [] (enc_insns ex_fi) @
                     fde_image 0x1b 0x38 (- 0x17c) 0x20 [] (enc_insns ex_fi2))"

definition ex_mod :: kunwind_module where
  "ex_mod = \<lparr>elf_vma = \<lparr>vm_start = 0x400000, vm_end = 0x401000, vm_pgoff = 0\<rparr>, elf_vmap = 0x10000,
     mod_pages = [0], npages = 1,
     ehf_hdr = \<lparr>sec_offset = 0x100, sec_ubuf = 0x400100, sec_kbuf = 0x10100, sec_size = 36\<rparr>,
     ehf = \<lparr>sec_offset = 0x200, sec_ubuf = 0x400200, sec_kbuf = 0x10200, sec_size = 72\<rparr>,
     is_dynamic = True\<rparr>"

definition ex_ua :: uaccess where
  "ex_ua = \<lparr>access_ok = (\<lambda>_ _ _. True),
     get_user = (\<lambda>_ a. if a = 0x7ffe0008 then Some 0x500123 else if a = 0x7ffe0000 then Some 0x7ffe0100 else None)\<rparr>"

definition ex_env :: unw_env where
  "ex_env = \<lparr>e_mem = ex_mem, e_ua = ex_ua, e_hash = (\<lambda>_. 0), e_alloc = True, e_compat = False\<rparr>"

definition ex_frame :: unwind_frame_info where
  "ex_frame = \<lparr>regs = (replicate 21 0)[PT_ip := 0x400050, PT_bp := 0x7ffe0000, PT_sp := 0x7ffdff00],
     call_frame = False\<rparr>"

definition ex_ctx :: unwind_context where
  "ex_ctx = \<lparr>info = ex_frame, stub = ex_frame, ustate = zero_state\<rparr>"

section \<open>What holds of it\<close>

text \<open>Its code pointers have 32 bits and are relative to their place.\<close>

lemma ptr_1b: "code_type [AugR 0x1b] = 0x1b" "ptr_bytes False 0x1b x = le_bytes 4 x" "ptr_base 0x1b p ta da = p"
  "fde_ptrs_ok 0x1b start rng \<longleftrightarrow> signed_take_bit 31 start = start \<and> signed_take_bit 31 rng = rng"
  by (simp_all add: code_type_def ptr_bytes_def ptr_base_def fde_ptrs_ok_def ptr_direct_def ptr_fits_def fixed_fits_def
      DW_EH_PE_defs)

lemma ex_enc: "enc_insns ex_ci = [12, 7, 8, 0x90, 1, 0, 0]"
  "enc_insns ex_fi = [0x41, 14, 16, 0x86, 2, 0x43, 13, 6, 0, 0, 0]"
  "enc_insns ex_fi2 = [7, 16, 0]"
  by (simp_all add: ex_ci_def ex_fi_def ex_fi2_def uleb_enc.simps DW_CFA_defs)

lemma ex_images:
  "gnu_hdr 0xfc ex_rows =
     [1, 27, 3, 59, 252, 0, 0, 0, 3, 0, 0, 0, 32, 255, 255, 255, 80, 0, 0, 0,
      64, 255, 255, 255, 24, 1, 0, 0, 192, 255, 255, 255, 52, 1, 0, 0]"
  "cie_image 1 [AugR 0x1b] 1 (- 8) 16 (enc_insns ex_ci) =
     [20, 0, 0, 0, 0, 0, 0, 0, 1, 122, 82, 0, 1, 120, 16, 1, 27, 12, 7, 8, 144, 1, 0, 0]"
  "fde_image 0x1b 0x1c (- 0x1e0) 0x20 [] (enc_insns ex_fi) =
     [24, 0, 0, 0, 28, 0, 0, 0, 32, 254, 255, 255, 32, 0, 0, 0, 0,
      65, 14, 16, 134, 2, 67, 13, 6, 0, 0, 0]"
  "fde_image 0x1b 0x38 (- 0x17c) 0x20 [] (enc_insns ex_fi2) =
     [16, 0, 0, 0, 56, 0, 0, 0, 132, 254, 255, 255, 32, 0, 0, 0, 0, 7, 16, 0]"
  by (simp_all add: gnu_hdr_def cie_image_def cie_body_def ra_enc_def fde_image_def fde_body_def ptr_1b aug_data_def w32_def le_bytes_def upt_rec
      ex_rows_def ex_enc uleb_enc.simps sleb_enc.simps)

lemma ex_bytes:
  "bytes_at ex_mem 0x10100 (gnu_hdr 0xfc ex_rows)"
  "bytes_at ex_mem 0x10200 (cie_image 1 [AugR 0x1b] 1 (- 8) 16 (enc_insns ex_ci))"
  "bytes_at ex_mem 0x10218 (fde_image 0x1b 0x1c (- 0x1e0) 0x20 [] (enc_insns ex_fi))"
  "bytes_at ex_mem 0x10234 (fde_image 0x1b 0x38 (- 0x17c) 0x20 [] (enc_insns ex_fi2))"
  unfolding ex_mem_def ex_images by (simp_all add: mem_of_def map_add_def)

lemma ex_gnu_table: "gnu_table (e_mem ex_env) ex_mod ex_rows"
  using ex_bytes(1)
  by (simp add: gnu_table_def ex_env_def ex_mod_def Let_def) (simp add: ex_rows_def row_loc_def)

lemma ex_governs: "governs ex_mod ex_rows 0x400050 1" "row_fde ex_mod (ex_rows ! 1) = en_fde ex_entry"
proof -
  have "k = 2" if "Suc 0 < k" "k < 3" for k :: nat using that by linarith
  then show "governs ex_mod ex_rows 0x400050 1"
    by (auto simp: governs_def ex_mod_def ex_rows_def row_loc_def numeral_3_eq_3 [symmetric])
  show "row_fde ex_mod (ex_rows ! 1) = en_fde ex_entry"
    by (simp add: ex_mod_def ex_rows_def row_fde_def ex_entry_def)
qed

lemma ex_aug [simp]: "en_aug ex_entry = [AugR 0x1b]" "en_aug ex_entry2 = [AugR 0x1b]"
  by (simp_all add: ex_entry_def ex_entry2_def)

lemma ex_type [simp]: "en_type ex_entry = 0x1b" "en_type ex_entry2 = 0x1b"
  by (simp_all add: en_type_def ptr_1b)

lemma ex_lens: "en_cie_len ex_entry = 20" "en_fde_len ex_entry = 24"
  by (simp_all add: en_cie_len_def en_fde_len_def en_type_def ex_entry_def cie_body_def ra_enc_def fde_body_def ptr_1b aug_data_def uleb_enc.simps ex_enc
      uleb_enc.simps sleb_enc.simps)

lemma ex_entry_at: "entry_at (e_mem ex_env) (ehf ex_mod) ex_entry"
  using ex_bytes(2,3) ex_lens
  by (simp add: entry_at_def) (simp add: ex_entry_def ex_env_def ex_mod_def ptr_1b aug_data_def ok_num_def ok_int_def)

lemma ex_progs: "prog_bytes (en_ci ex_entry) ex_ci" "prog_bytes (en_fi ex_entry) ex_fi"
  by (simp_all add: prog_bytes_def ex_entry_def ex_enc MAX_CFI_def)
    (simp_all add: ex_ci_def ex_fi_def ok_num_def ok_reg_def)

text \<open>At the stop the CFA is 16 above the frame pointer, and the caller's one is saved at the CFA minus 16.\<close>

lemma ex_row:
  "\<exists>w. row_for (en_parsed ex_entry) 0x400040 0x400050 ex_ci ex_fi = Some w \<and> rm_loc w = 0x400044 \<and>
     std_row (rm_row w) RBP 16 \<and> row_rules (rm_row w) ! 6 = ROffset (- 16)"
  by (simp add: row_for_def start_row_def en_parsed_def image_parsed_def ex_entry_def Let_def ex_enc
      cie_body_def ra_enc_def fde_body_def ptr_1b aug_data_def uleb_enc.simps)
    (simp add: ex_ci_def ex_fi_def set_rule_def std_row_def set_cfa_def move_loc_def unw_idx_defs
      UNW_NR_REAL_REGS_def nth_append)

lemma ex_covers: "covers ex_env ex_mod ex_rows 0x400050 ex_entry 0x400040"
  unfolding covers_def
proof (intro conjI exI [of _ 1])
  show "gnu_table (e_mem ex_env) ex_mod ex_rows" "entry_at (e_mem ex_env) (ehf ex_mod) ex_entry"
    by (rule ex_gnu_table, rule ex_entry_at)
  show "governs ex_mod ex_rows 0x400050 1" "row_fde ex_mod (ex_rows ! 1) = en_fde ex_entry"
    by (rule ex_governs)+
  then show "1 < length ex_rows" by (simp add: governs_def)
qed (simp_all add: ex_env_def ex_mod_def ex_entry_def en_parsed_def image_parsed_def Let_def ptr_1b en_type_def
    adjust_start_loc_def DW_EH_PE_defs)

lemma ex_start: "get_pc (info ex_ctx) = 0x400050" "wf_frame (info ex_ctx)"
  "regs (info ex_ctx) ! slot RBP + 16 = 0x7ffe0010"
  by code_simp+

lemma ex_miss: "unw_cache_find_entry (e_hash ex_env) unw_cache_init pc = None"
  by (rule uc.lookup_emp)

lemma ex_words: "read_word (e_ua ex_env) False (0x7ffe0010 - 8) = Some 0x500123"
  "read_word (e_ua ex_env) False (0x7ffe0010 - 16) = Some 0x7ffe0100"
  by (simp_all add: read_word_def ex_env_def ex_ua_def stp_read_address_def)

definition ex_proc :: kunwind_proc_modules where
  "ex_proc = \<lparr>stp_modules = [ex_mod], unw_cache = unw_cache_init, mods_compat = False\<rparr>"

definition ex_bt :: kunwind_backtrace where
  "ex_bt = \<lparr>max_entries = 128, nr_entries = 0, bt_entries = [], bt_null = False\<rparr>"

text \<open>The step from the stop, with what it puts in the cache, and the one after it.\<close>

lemma ex_step:
  "\<exists>ctx' t. unwind_frame_step ex_env ex_mod ex_ctx unw_cache_init =
      Ok (0, ctx', unw_cache_add_entry (e_hash ex_env) True t unw_cache_init) \<and> tpc t = 0x400050 \<and>
    apply_tdep_state (e_ua ex_env) ((info ex_ctx)\<lparr>call_frame := True\<rparr>) t False True = Ok (True, info ctx') \<and>
    get_pc (info ctx') = 0x500122"
proof -
  obtain w where w: "row_for (en_parsed ex_entry) 0x400040 0x400050 ex_ci ex_fi = Some w" "rm_loc w = 0x400044"
    "std_row (rm_row w) RBP 16" "row_rules (rm_row w) ! 6 = ROffset (- 16)" using ex_row by blast
  have bp: "row_bp (e_ua ex_env) 0x7ffe0010 (rm_row w) (UNW_BP (info ex_ctx)) = Some 0x7ffe0100"
    using ex_words(2) by (simp add: row_bp_def w(4))
  have "rm_loc w \<le> 0x400040 + en_rng ex_entry" by (simp add: w(2) ex_entry_def)
  then show ?thesis
    using unwind_covered [of ex_env ex_mod ex_rows ex_ctx ex_entry "0x400040" unw_cache_init ex_ci ex_fi w RBP 16
        "0x7ffe0010" "0x500123" "0x7ffe0100"]
      ex_covers ex_progs ex_start ex_miss ex_words(1) w(1,3) bp
    by (auto simp: get_pc_def ex_env_def)
qed

lemma ex_lookup: "kunw_mod_lookup 0x400050 (ex_proc\<lparr>unw_cache := c\<rparr>) = Some ex_mod"
  "kunw_mod_lookup 0x500122 (ex_proc\<lparr>unw_cache := c\<rparr>) = None"
  by (simp_all add: kunw_mod_lookup_def ex_proc_def ex_mod_def)

lemma ex_frames:
  "\<exists>ctx' c. unwind_frame ex_env ex_ctx True ex_proc = Ok (0, ctx', ex_proc\<lparr>unw_cache := c\<rparr>) \<and>
     get_pc (info ctx') = 0x500122"
  "get_pc (info ctx) = 0x500122 \<Longrightarrow>
   unwind_frame ex_env ctx True (ex_proc\<lparr>unw_cache := c\<rparr>) = Ok (- EINVAL, ctx, ex_proc\<lparr>unw_cache := c\<rparr>)"
proof -
  have "kunw_mod_lookup 0x400050 ex_proc = Some ex_mod" "unw_cache ex_proc = unw_cache_init"
    using ex_lookup(1) [of unw_cache_init] by (simp_all add: ex_proc_def)
  then show "\<exists>ctx' c. unwind_frame ex_env ex_ctx True ex_proc = Ok (0, ctx', ex_proc\<lparr>unw_cache := c\<rparr>) \<and>
     get_pc (info ctx') = 0x500122"
    using ex_step ex_start(1) by (auto simp: unwind_frame_def)
qed (simp add: unwind_frame_def ex_lookup)

section \<open>A call stack\<close>

text \<open>The same task with a return address into the entry point, and its two frames.\<close>

definition ex_stack :: unw_env where
  "ex_stack = ex_env\<lparr>e_ua := \<lparr>access_ok = (\<lambda>_ _ _. True),
     get_user = (\<lambda>_ a. if a = 0x7ffe0008 then Some 0x4000d1 else if a = 0x7ffe0000 then Some 0 else None)\<rparr>\<rparr>"

lemma ex_stack_env [simp]: "e_mem ex_stack = e_mem ex_env" "e_compat ex_stack = e_compat ex_env"
  "e_hash ex_stack = e_hash ex_env"
  by (simp_all add: ex_stack_def)

lemma ex_entry2_at: "entry_at (e_mem ex_env) (ehf ex_mod) ex_entry2"
  "prog_bytes (en_ci ex_entry2) ex_ci" "prog_bytes (en_fi ex_entry2) ex_fi2"
proof -
  have "en_cie_len ex_entry2 = 20" "en_fde_len ex_entry2 = 16"
    by (simp_all add: en_cie_len_def en_fde_len_def en_type_def ex_entry2_def cie_body_def ra_enc_def fde_body_def ptr_1b aug_data_def uleb_enc.simps ex_enc
      uleb_enc.simps sleb_enc.simps)
  then show "entry_at (e_mem ex_env) (ehf ex_mod) ex_entry2"
    using ex_bytes(2,4)
    by (simp add: entry_at_def) (simp add: ex_entry2_def ex_env_def ex_mod_def ptr_1b aug_data_def ok_num_def ok_int_def)
  show "prog_bytes (en_ci ex_entry2) ex_ci" "prog_bytes (en_fi ex_entry2) ex_fi2"
    by (simp_all add: prog_bytes_def ex_entry2_def ex_enc MAX_CFI_def)
      (simp_all add: ex_ci_def ex_fi2_def ok_num_def ok_reg_def)
qed

lemma ex_covers2:
  assumes "pc = 0x4000d0 \<or> pc = 0x4000d4"
  shows "covers ex_stack ex_mod ex_rows pc ex_entry2 0x4000c0"
  unfolding covers_def
proof (intro conjI exI [of _ 2])
  show "gnu_table (e_mem ex_stack) ex_mod ex_rows" "entry_at (e_mem ex_stack) (ehf ex_mod) ex_entry2"
    using ex_gnu_table ex_entry2_at(1) by simp_all
  show "governs ex_mod ex_rows pc 2" "2 < length ex_rows"
    using assms by (auto simp: governs_def ex_mod_def ex_rows_def row_loc_def)
  show "row_fde ex_mod (ex_rows ! 2) = en_fde ex_entry2"
    by (simp add: ex_mod_def ex_rows_def row_fde_def ex_entry2_def)
qed (use assms in \<open>auto simp: ex_env_def ex_mod_def ex_entry2_def en_parsed_def image_parsed_def Let_def ptr_1b en_type_def
    adjust_start_loc_def DW_EH_PE_defs\<close>)

lemma ex_row2:
  assumes "pc = 0x4000d0 \<or> pc = 0x4000d4"
  shows "\<exists>w. row_for (en_parsed ex_entry2) 0x4000c0 pc ex_ci ex_fi2 = Some w \<and> rm_loc w = 0x4000c0 \<and>
     row_rules (rm_row w) ! 16 = RUndefined"
  using assms
  by (simp add: row_for_def start_row_def en_parsed_def image_parsed_def ex_entry2_def Let_def ex_enc
      cie_body_def ra_enc_def fde_body_def ptr_1b aug_data_def uleb_enc.simps)
    (auto simp: ex_ci_def ex_fi2_def set_rule_def set_cfa_def move_loc_def unw_idx_defs
      UNW_NR_REAL_REGS_def nth_append)

lemma ex_outermost:
  assumes "pc = 0x4000d0 \<or> pc = 0x4000d4"
  shows "outermost ex_stack ex_proc pc"
proof -
  have l: "kunw_mod_lookup pc ex_proc = Some ex_mod"
    using assms by (auto simp: kunw_mod_lookup_def ex_proc_def ex_mod_def)
  obtain w where "row_for (en_parsed ex_entry2) 0x4000c0 pc ex_ci ex_fi2 = Some w" "rm_loc w = 0x4000c0"
     "row_rules (rm_row w) ! 16 = RUndefined" using ex_row2 [OF assms] by blast
  then show ?thesis
    unfolding outermost_def using l ex_covers2 [OF assms] ex_entry2_at assms
    by (intro exI [of _ ex_entry2] exI [of _ ex_ci] exI [of _ ex_fi2] exI [of _ "0x4000c0"] exI [of _ w])
      (auto simp: governed_def ex_entry2_def)
qed

lemma ex_chain: "call_chain ex_stack ex_proc (0x400050, 0x7ffdff00, 0x7ffe0000) [0x400050, 0x4000d0]"
proof (rule chain_call)
  have l: "kunw_mod_lookup 0x400050 ex_proc = Some ex_mod"
    by (simp add: kunw_mod_lookup_def ex_proc_def ex_mod_def)
  obtain w where w: "row_for (en_parsed ex_entry) 0x400040 0x400050 ex_ci ex_fi = Some w" "rm_loc w = 0x400044"
    "std_row (rm_row w) RBP 16" "row_rules (rm_row w) ! 6 = ROffset (- 16)" using ex_row by blast
  have c: "covers ex_stack ex_mod ex_rows 0x400050 ex_entry 0x400040" using ex_covers by (simp add: covers_def)
  then have "governed ex_stack ex_proc 0x400050 ex_entry ex_ci ex_fi 0x400040 w"
    using l ex_progs w(1,2) by (auto simp: governed_def ex_entry_def)
  moreover have "read_word (e_ua ex_stack) False (0x7ffe0010 - 8) = Some 0x4000d1"
    "row_bp (e_ua ex_stack) 0x7ffe0010 (rm_row w) 0x7ffe0000 = Some 0"
    by (simp_all add: row_bp_def w(4) read_word_def ex_stack_def stp_read_address_def)
  ultimately show "called_from ex_stack ex_proc (0x400050, 0x7ffdff00, 0x7ffe0000) (0x4000d0, 0x7ffe0010, 0)"
    using called [of ex_stack ex_proc "0x400050" ex_entry ex_ci ex_fi "0x400040" w RBP 16 "0x7ffe0010" "0x7ffe0000" "0x7ffdff00" "0x4000d1" 0]
      w(3) by simp
  show "call_chain ex_stack ex_proc (0x4000d0, 0x7ffe0010, 0) [0x4000d0]"
    by (rule chain_last [OF ex_outermost]) simp
qed

end
