(* ===== verification/Shared_Backtrace.thy ===== *)
theory Shared_Backtrace
  imports Example_Module Interleaving
begin

text \<open>
  Several threads that unwind their stacks at the same time through one open file, and so share its modules and its
  cache. The loop of \<open>unwind_full\<close> is cut at its accesses to the cache: the lookup of a frame, which decides how the frame is
  unwound, and in \<open>unw_cache_add_entry\<close> the second lookup, the allocation, the load of the head of the chain and the store that makes the new
  entry the head. Nothing locks the chains, so that an entry may be lost or be there twice.
\<close>

section \<open>Steps\<close>

text \<open>The description that a frame passes to \<open>unw_cache_add_entry\<close>, \<open>None\<close> where it does not call it.\<close>

definition step_entry :: "unw_env \<Rightarrow> kunwind_module \<Rightarrow> unwind_context \<Rightarrow> unw_cache \<Rightarrow> tdep_frame option res" where
  "step_entry e km ctx cache =
     (let pc = get_pc (info ctx); sz = sec_size (ehf km)
      in if sz = 0 \<or> sz AND 3 \<noteq> 0 \<or> unw_cache_find_entry (e_hash e) cache pc \<noteq> None then Ok None
         else rbind (locate_rules e km pc) (\<lambda>l.
           case l of
             LFound fc startLoc endLoc \<Rightarrow>
               rbind (run_programs e fc startLoc endLoc pc) (\<lambda>r.
                 Ok (case r of
                       None \<Rightarrow> None
                     | Some s \<Rightarrow> if check_standard_frame s then Some (tdep_of_state pc (fc_retAddrReg fc) s) else None))
           | _ \<Rightarrow> Ok None))"

definition frame_entry :: "unw_env \<Rightarrow> unwind_context \<Rightarrow> kunwind_proc_modules \<Rightarrow> tdep_frame option res" where
  "frame_entry e ctx proc =
     (let pc = get_pc (info ctx)
      in if pc = 0 then Ok None
         else case kunw_mod_lookup pc proc of None \<Rightarrow> Ok None | Some km \<Rightarrow> step_entry e km ctx (unw_cache proc))"

text \<open>\<open>unw_cache_add_entry\<close> in steps.\<close>

datatype add_pc = AddFind | AddAlloc | AddHead | AddPublish "tdep_frame list" | AddDone

fun add_step :: "unw_env \<Rightarrow> tdep_frame \<Rightarrow> add_pc \<Rightarrow> unw_cache \<Rightarrow> add_pc \<times> unw_cache" where
  "add_step e t AddFind c =
     (case unw_cache_find_entry (e_hash e) c (tpc t) of Some _ \<Rightarrow> (AddDone, c) | None \<Rightarrow> (AddAlloc, c))"
| "add_step e t AddAlloc c = (if e_alloc e then (AddHead, c) else (AddDone, c))"
| "add_step e t AddHead c = (AddPublish (c ! unat (e_hash e (tpc t))), c)"
| "add_step e t (AddPublish next) c = (AddDone, c[unat (e_hash e (tpc t)) := t # next])"
| "add_step e t AddDone c = (AddDone, c)"

text \<open>
  A backtrace: at the head of its loop, adding the description of a frame (with what the frame has returned), or
  returned.
\<close>

datatype bt_pc =
  BtLoop unwind_context kunwind_backtrace "int option"
| BtAdd add_pc tdep_frame int unwind_context kunwind_backtrace
| BtReturned int kunwind_backtrace

fun bt_returned :: "bt_pc \<Rightarrow> bool" where
  "bt_returned (BtReturned r bt) = True"
| "bt_returned _ = False"

definition bt_start :: "unwind_context \<Rightarrow> kunwind_backtrace \<Rightarrow> bt_pc" where
  "bt_start ctx bt =
     (if bt_null bt \<or> max_entries bt = 0 then BtReturned (- EINVAL) bt
      else BtLoop ctx (bt\<lparr>nr_entries := 0, bt_entries := []\<rparr>) None)"

definition bt_result :: "int option \<Rightarrow> kunwind_backtrace \<Rightarrow> bt_pc res" where
  "bt_result ret bt =
     (case ret of None \<Rightarrow> Fault Uninit | Some r \<Rightarrow> Ok (BtReturned (if r = UNW_BOTTOM then 0 else r) bt))"

definition bt_after :: "int \<Rightarrow> unwind_context \<Rightarrow> kunwind_backtrace \<Rightarrow> bt_pc res" where
  "bt_after r ctx bt = (if r \<noteq> 0 then bt_result (Some r) bt else Ok (BtLoop ctx bt (Some r)))"

fun bt_step :: "unw_env \<Rightarrow> kunwind_proc_modules \<Rightarrow> bt_pc \<Rightarrow> unw_cache \<Rightarrow> (bt_pc \<times> unw_cache) res" where
  "bt_step e p (BtLoop ctx bt ret) c =
     (if nr_entries bt < max_entries bt \<and> get_pc (info ctx) \<noteq> 0
      then let bt = bt_push (get_pc (info ctx)) bt; q = p\<lparr>unw_cache := c\<rparr>
           in rbind (unwind_frame e ctx True q) (\<lambda>(r, ctx', _).
              rbind (frame_entry e ctx q) (\<lambda>t.
                case t of
                  None \<Rightarrow> rbind (bt_after r ctx' bt) (\<lambda>b. Ok (b, c))
                | Some t \<Rightarrow> Ok (BtAdd AddFind t r ctx' bt, c)))
      else rbind (bt_result ret bt) (\<lambda>b. Ok (b, c)))"
| "bt_step e p (BtAdd pc t r ctx bt) c =
     (case add_step e t pc c of
        (AddDone, c') \<Rightarrow> rbind (bt_after r ctx bt) (\<lambda>b. Ok (b, c'))
      | (pc', c') \<Rightarrow> Ok (BtAdd pc' t r ctx bt, c'))"
| "bt_step e p (BtReturned r bt) c = Ok (BtReturned r bt, c)"

text \<open>What is cut is \<open>unwind_frame\<close>: it returns the cache with the description added.\<close>

lemma step_entry_cases:
  assumes "step_entry e km ctx c = Ok t"
  shows "t = None \<or> (\<exists>fc sl el s. locate_rules e km (get_pc (info ctx)) = Ok (LFound fc sl el) \<and>
    run_programs e fc sl el (get_pc (info ctx)) = Ok (Some s) \<and> check_standard_frame s \<and>
    t = Some (tdep_of_state (get_pc (info ctx)) (fc_retAddrReg fc) s))"
proof (cases "locate_rules e km (get_pc (info ctx))")
  case (Ok l)
  show ?thesis
  proof (cases l)
    case (LFound fc sl el)
    then show ?thesis
      using assms Ok by (cases "run_programs e fc sl el (get_pc (info ctx))")
        (auto simp: step_entry_def Let_def split: if_splits option.splits)
  qed (use assms Ok in \<open>auto simp: step_entry_def Let_def split: if_splits\<close>)
qed (use assms in \<open>auto simp: step_entry_def Let_def split: if_splits\<close>)

lemma step_entry_adds:
  assumes "unwind_frame_step e km ctx c = Ok (r, ctx', c')"
  shows "\<exists>t. step_entry e km ctx c = Ok t \<and>
    c' = (case t of None \<Rightarrow> c | Some t \<Rightarrow> unw_cache_add_entry (e_hash e) (e_alloc e) t c)"
proof (cases "sec_size (ehf km) = 0 \<or> sec_size (ehf km) AND 3 \<noteq> 0 \<or>
    unw_cache_find_entry (e_hash e) c (get_pc (info ctx)) \<noteq> None")
  case True
  then show ?thesis
    using assms by (auto simp: unwind_frame_step_def step_entry_def Let_def rbind_eq_Ok split: if_splits)
next
  case f: False
  let ?pc = "get_pc (info ctx)"
  show ?thesis
  proof (cases "locate_rules e km ?pc")
    case (Ok l)
    show ?thesis
    proof (cases l)
      case (LFound fc sl el)
      then show ?thesis
        using assms Ok f
        by (cases "run_programs e fc sl el ?pc")
          (auto simp: unwind_frame_step_def step_entry_def apply_rules_def Let_def rbind_eq_Ok
            split: if_splits option.splits)
    qed (use assms Ok f in \<open>simp_all add: unwind_frame_step_def step_entry_def Let_def\<close>)
  qed (use assms f in \<open>simp add: unwind_frame_step_def Let_def\<close>)
qed

lemma step_entry_good:
  "step_entry e km ctx c = Ok (Some t) \<Longrightarrow> tpc t = get_pc (info ctx) \<and> described e km (get_pc (info ctx)) t"
  using step_entry_cases [of e km ctx c "Some t"] by (auto simp: described_def tdep_of_state_def)

lemma frame_entry_good:
  assumes "unwind_frame e ctx True q = Ok (r, ctx', q')"
  shows "\<exists>t. frame_entry e ctx q = Ok t \<and> (\<forall>x. t = Some x \<longrightarrow> tpc x = get_pc (info ctx) \<and> entry_good e q x)"
proof (cases "get_pc (info ctx) = 0 \<or> kunw_mod_lookup (get_pc (info ctx)) q = None")
  case False
  then obtain km where km: "kunw_mod_lookup (get_pc (info ctx)) q = Some km" "get_pc (info ctx) \<noteq> 0" by blast
  then obtain c' where "unwind_frame_step e km ctx (unw_cache q) = Ok (r, ctx', c')"
    using assms by (auto simp: unwind_frame_def Let_def rbind_eq_Ok)
  then obtain t where "step_entry e km ctx (unw_cache q) = Ok t" using step_entry_adds by blast
  then show ?thesis using km step_entry_good [of e km ctx "unw_cache q"] by (auto simp: frame_entry_def Let_def entry_good_def)
qed (auto simp: frame_entry_def Let_def)

section \<open>One thread among others\<close>

record bt_task =
  tk_ctx :: unwind_context
  tk_bt :: kunwind_backtrace
  tk_pcs :: "u64 list"

abbreviation tk_pc :: "bt_task \<Rightarrow> u64" where
  "tk_pc k \<equiv> get_pc (info (tk_ctx k))"

definition tk_result :: "bt_task \<Rightarrow> u64 list" where
  "tk_result k = take (unat (max_entries (tk_bt k))) (tk_pcs k)"

text \<open>A backtrace on its way: what it has and what it will still find make up the result.\<close>

definition unwinding :: "unw_env \<Rightarrow> kunwind_proc_modules \<Rightarrow> bt_task \<Rightarrow> unwind_context \<Rightarrow> kunwind_backtrace \<Rightarrow> bool" where
  "unwinding e p k ctx bt \<longleftrightarrow>
     (\<exists>rest. call_chain e p (view (info ctx)) rest \<and> wf_frame (info ctx) \<and> bt_wf bt \<and>
        max_entries bt = max_entries (tk_bt k) \<and> set rest \<subseteq> set (tk_pcs k) \<and>
        bt_entries bt @ take (unat (max_entries bt) - unat (nr_entries bt)) rest = tk_result k)"

fun bt_ok :: "unw_env \<Rightarrow> kunwind_proc_modules \<Rightarrow> bt_task \<Rightarrow> bt_pc \<Rightarrow> bool" where
  "bt_ok e p k (BtLoop ctx bt ret) \<longleftrightarrow>
     unwinding e p k ctx bt \<and> (nr_entries bt < max_entries bt \<or> ret = Some 0) \<and>
     (call_frame (info ctx) \<or> get_pc (info ctx) = tk_pc k)"
| "bt_ok e p k (BtAdd pc t r ctx bt) \<longleftrightarrow>
     pc \<noteq> AddDone \<and>
     (r = 0 \<and> unwinding e p k ctx bt \<and> call_frame (info ctx) \<or> r = UNW_BOTTOM \<and> bt_entries bt = tk_result k)"
| "bt_ok e p k (BtReturned r bt) \<longleftrightarrow> r = 0 \<and> bt_entries bt = tk_result k"

text \<open>The entries that a thread has in hand; whether it has still to look up its first frame.\<close>

fun held :: "bt_pc \<Rightarrow> tdep_frame set" where
  "held (BtAdd pc t r ctx bt) = insert t (case pc of AddPublish next \<Rightarrow> set next | _ \<Rightarrow> {})"
| "held _ = {}"

fun first_frame :: "bt_pc \<Rightarrow> bool" where
  "first_frame (BtLoop ctx bt ret) \<longleftrightarrow> \<not> call_frame (info ctx)"
| "first_frame _ \<longleftrightarrow> False"

fun add_left :: "add_pc \<Rightarrow> nat" where
  "add_left AddFind = 4"
| "add_left AddAlloc = 3"
| "add_left AddHead = 2"
| "add_left (AddPublish next) = 1"
| "add_left AddDone = 0"

definition bt_left :: "kunwind_backtrace \<Rightarrow> nat" where
  "bt_left bt = 6 * (unat (max_entries bt) - unat (nr_entries bt)) + 1"

fun thread_left :: "bt_pc \<Rightarrow> nat" where
  "thread_left (BtLoop ctx bt ret) = bt_left bt"
| "thread_left (BtAdd pc t r ctx bt) = bt_left bt + add_left pc"
| "thread_left (BtReturned r bt) = 0"

lemma bt_after_ok:
  assumes "r = 0 \<and> unwinding e p k ctx bt \<and> call_frame (info ctx) \<or> r = UNW_BOTTOM \<and> bt_entries bt = tk_result k"
  shows "\<exists>b. bt_after r ctx bt = Ok b \<and> bt_ok e p k b \<and> \<not> first_frame b \<and> held b = {} \<and> thread_left b \<le> bt_left bt"
  using assms by (auto simp: bt_after_def bt_result_def UNW_BOTTOM_def)

text \<open>
  One frame of a thread: the lookup goes well whatever entries the cache has, as long as they are good, and
  the first frame, which is not a call frame, is not among them.
\<close>

lemma loop_frame:
  assumes "unwinding e p k ctx bt" "nr_entries bt < max_entries bt" "cache_good e p c"
    "call_frame (info ctx) \<or> unw_cache_find_entry (e_hash e) c (get_pc (info ctx)) = None"
  shows "\<exists>r ctx' q'. unwind_frame e ctx True (p\<lparr>unw_cache := c\<rparr>) = Ok (r, ctx', q') \<and>
    get_pc (info ctx) \<noteq> 0 \<and> get_pc (info ctx) \<in> set (tk_pcs k) \<and>
    (r = 0 \<and> unwinding e p k ctx' (bt_push (get_pc (info ctx)) bt) \<and> call_frame (info ctx') \<or>
     r = UNW_BOTTOM \<and> bt_entries (bt_push (get_pc (info ctx)) bt) = tk_result k)"
proof -
  let ?q = "p\<lparr>unw_cache := c\<rparr>" and ?bt = "bt_push (get_pc (info ctx)) bt"
  obtain rest where r: "call_chain e p (view (info ctx)) rest" "wf_frame (info ctx)" "bt_wf bt"
    "max_entries bt = max_entries (tk_bt k)" "set rest \<subseteq> set (tk_pcs k)"
    "bt_entries bt @ take (unat (max_entries bt) - unat (nr_entries bt)) rest = tk_result k"
    using assms(1) by (auto simp: unwinding_def)
  obtain n where n: "unat (max_entries bt) - unat (nr_entries bt) = Suc n"
    using assms(2) by (cases "unat (max_entries bt) - unat (nr_entries bt)") (auto simp: word_less_nat_alt)
  note w = bt_wf_push [OF r(3) assms(2)]
  have n': "unat (max_entries ?bt) - unat (nr_entries ?bt) = n" using n w(2) by simp
  from r(1) show ?thesis
  proof cases
    case (chain_last pc sptr bp)
    then have "get_pc (info ctx) = pc" "pc \<noteq> 0" by (auto simp: view_def outermost_def governed_def)
    moreover obtain c' where "unwind_frame e ctx True ?q = Ok (UNW_BOTTOM, c', ?q)"
      using frame_outermost [of e p ctx ?q] chain_last assms(3) calculation(1) by auto
    ultimately show ?thesis using r(5,6) n chain_last by auto
  next
    case (chain_call pc sptr bp v pcs)
    have pc: "get_pc (info ctx) = pc" "pc \<noteq> 0"
      using chain_call by (auto simp: view_def governed_def elim: called_from.cases)
    obtain c' cache where u: "unwind_frame e ctx True ?q = Ok (0, c', ?q\<lparr>unw_cache := cache\<rparr>)" "view (info c') = v"
      "wf_frame (info c')" "call_frame (info c')"
      using frame_called [of e p ctx v ?q] chain_call r(2) assms(3,4) by auto
    have "unwinding e p k c' ?bt"
      unfolding unwinding_def
      using chain_call u r(4,5,6) w(1) n n' pc(1) by (intro exI [of _ pcs]) simp
    then show ?thesis using u pc r(5) chain_call by auto
  qed
qed

text \<open>A step of a thread: it goes on as it would alone, and what it puts into the cache or takes in hand is good and of its stack.\<close>

definition own_entries :: "unw_env \<Rightarrow> kunwind_proc_modules \<Rightarrow> bt_task \<Rightarrow> tdep_frame set" where
  "own_entries e p k = {t. entry_good e p t \<and> tpc t \<in> set (tk_pcs k)}"

definition goes_on ::
  "unw_env \<Rightarrow> kunwind_proc_modules \<Rightarrow> bt_task \<Rightarrow> bt_pc \<Rightarrow> unw_cache \<Rightarrow> bt_pc \<Rightarrow> unw_cache \<Rightarrow> bool" where
  "goes_on e p k b c b' c' \<longleftrightarrow>
     bt_ok e p k b' \<and> \<not> first_frame b' \<and> length c' = length c \<and> thread_left b' < thread_left b \<and>
     set (concat c') \<union> held b' \<subseteq> set (concat c) \<union> held b \<union> own_entries e p k"

lemma after_goes_on:
  assumes "r = 0 \<and> unwinding e p k ctx bt \<and> call_frame (info ctx) \<or> r = UNW_BOTTOM \<and> bt_entries bt = tk_result k"
    "bt_left bt < thread_left b" "length c' = length c" "set (concat c') \<subseteq> set (concat c) \<union> held b"
  shows "\<exists>b'. bt_after r ctx bt = Ok b' \<and> goes_on e p k b c b' c'"
  using bt_after_ok [OF assms(1)] assms(2-4) by (fastforce simp: goes_on_def)

lemma loop_goes_on:
  assumes "bt_ok e p k (BtLoop ctx bt ret)" "cache_good e p c" "\<not> call_frame (info ctx) \<longrightarrow> tk_pc k \<notin> tpc ` set (concat c)"
  shows "\<exists>b' c'. bt_step e p (BtLoop ctx bt ret) c = Ok (b', c') \<and> goes_on e p k (BtLoop ctx bt ret) c b' c'"
proof (cases "nr_entries bt < max_entries bt")
  case False
  then have "ret = Some 0" "bt_entries bt = tk_result k" "\<not> (nr_entries bt < max_entries bt \<and> get_pc (info ctx) \<noteq> 0)"
    using assms(1) by (auto simp: unwinding_def word_less_nat_alt)
  then show ?thesis by (auto simp: bt_result_def goes_on_def UNW_BOTTOM_def bt_left_def)
next
  case True
  let ?q = "p\<lparr>unw_cache := c\<rparr>" and ?bt = "bt_push (get_pc (info ctx)) bt"
  have "unw_cache_find_entry (e_hash e) c (get_pc (info ctx)) = None" if "\<not> call_frame (info ctx)"
  proof (rule ccontr)
    assume "unw_cache_find_entry (e_hash e) c (get_pc (info ctx)) \<noteq> None"
    then obtain t where "unw_cache_find_entry (e_hash e) c (get_pc (info ctx)) = Some t" by blast
    then have "t \<in> set (concat c)" "tpc t = tk_pc k"
      using find_entry_in [of "e_hash e" c _ t] assms(1,2) that by (auto simp: cache_good_def)
    then show False using assms(3) that by (metis image_eqI)
  qed
  then obtain r ctx' q' where u: "unwind_frame e ctx True ?q = Ok (r, ctx', q')" "get_pc (info ctx) \<noteq> 0"
    "get_pc (info ctx) \<in> set (tk_pcs k)"
    "r = 0 \<and> unwinding e p k ctx' ?bt \<and> call_frame (info ctx') \<or> r = UNW_BOTTOM \<and> bt_entries ?bt = tk_result k"
    using loop_frame [of e p k ctx bt c] assms(1,2) True by auto
  obtain t where t: "frame_entry e ctx ?q = Ok t" "\<And>x. t = Some x \<Longrightarrow> x \<in> own_entries e p k"
    using frame_entry_good [OF u(1)] u(3) lookup_modules [of ?q p] by (fastforce simp: own_entries_def entry_good_def)
  have wf: "bt_wf bt" using assms(1) by (auto simp: unwinding_def)
  have lt: "bt_left ?bt + 4 < bt_left bt"
    using True bt_wf_push(2) [OF wf True] by (simp add: bt_left_def word_less_nat_alt)
  show ?thesis
  proof (cases t)
    case None
    then show ?thesis
      using after_goes_on [OF u(4), of "BtLoop ctx bt ret" c c] u(1,2) t(1) True lt by auto
  next
    case (Some x)
    then have "bt_step e p (BtLoop ctx bt ret) c = Ok (BtAdd AddFind x r ctx' ?bt, c)" using u(1,2) t(1) True by simp
    moreover have "goes_on e p k (BtLoop ctx bt ret) c (BtAdd AddFind x r ctx' ?bt) c"
      using u(4) t(2) [OF Some] lt by (auto simp: goes_on_def)
    ultimately show ?thesis by blast
  qed
qed

lemma add_goes_on:
  assumes "bt_ok e p k (BtAdd pc t r ctx bt)" "length c = length unw_cache_init"
  shows "\<exists>b' c'. bt_step e p (BtAdd pc t r ctx bt) c = Ok (b', c') \<and> goes_on e p k (BtAdd pc t r ctx bt) c b' c'"
proof -
  let ?b = "BtAdd pc t r ctx bt" and ?h = "unat (e_hash e (tpc t))"
  have ok: "r = 0 \<and> unwinding e p k ctx bt \<and> call_frame (info ctx) \<or> r = UNW_BOTTOM \<and> bt_entries bt = tk_result k"
    and pc: "pc \<noteq> AddDone" using assms(1) by auto
  have h: "?h < length c" using unat_bucket [of "e_hash e (tpc t)"] assms(2) by (simp add: length_cache_init)
  have aft: "\<exists>b'. bt_after r ctx bt = Ok b' \<and> goes_on e p k ?b c b' c'"
    if "length c' = length c" "set (concat c') \<subseteq> set (concat c) \<union> held ?b" for c'
    using after_goes_on [OF ok, of ?b c' c] that pc by (cases pc) simp_all
  have go: "goes_on e p k ?b c (BtAdd pc' t r ctx bt) c"
    if "pc' \<noteq> AddDone" "add_left pc' < add_left pc" "held (BtAdd pc' t r ctx bt) \<subseteq> set (concat c) \<union> held ?b" for pc'
    using that ok by (auto simp: goes_on_def)
  obtain b0 where same: "bt_after r ctx bt = Ok b0" "goes_on e p k ?b c b0 c" using aft [of c] by auto
  show ?thesis
  proof (cases pc)
    case AddFind
    then show ?thesis
      using same go [of AddAlloc] by (cases "unw_cache_find_entry (e_hash e) c (tpc t)") auto
  next
    case AddAlloc
    then show ?thesis using same go [of AddHead] by auto
  next
    case AddHead
    have "set (c ! ?h) \<subseteq> set (concat c)" using h by (auto intro!: bexI [OF _ nth_mem])
    then show ?thesis using AddHead go [of "AddPublish (c ! ?h)"] by auto
  next
    case (AddPublish nxt)
    then show ?thesis using aft [of "c[?h := t # nxt]"] set_concat_update [of c ?h "t # nxt"] by auto
  qed (use pc in simp)
qed

section \<open>All threads\<close>

definition entries_of :: "bt_pc list \<Rightarrow> unw_cache \<Rightarrow> tdep_frame set" where
  "entries_of bs c = set (concat c) \<union> (\<Union>b \<in> set bs. held b)"

definition shared_ok :: "unw_env \<Rightarrow> kunwind_proc_modules \<Rightarrow> bt_task list \<Rightarrow> bt_pc list \<times> unw_cache \<Rightarrow> bool" where
  "shared_ok e p ks s \<longleftrightarrow>
     (case s of (bs, c) \<Rightarrow>
        length bs = length ks \<and> length c = length unw_cache_init \<and>
        (\<forall>i < length ks. \<forall>j < length ks. i \<noteq> j \<longrightarrow> tk_pc (ks ! i) \<notin> set (tk_pcs (ks ! j))) \<and>
        (\<forall>i < length ks. bt_ok e p (ks ! i) (bs ! i)) \<and>
        (\<forall>t \<in> entries_of bs c. entry_good e p t) \<and>
        (\<forall>i < length ks. first_frame (bs ! i) \<longrightarrow> tk_pc (ks ! i) \<notin> tpc ` entries_of bs c))"

lemma entries_of_update:
  assumes "i < length bs" "set (concat c') \<union> held b' \<subseteq> set (concat c) \<union> held (bs ! i) \<union> S"
  shows "entries_of (bs[i := b']) c' \<subseteq> entries_of bs c \<union> S"
proof -
  have "held (bs ! i) \<subseteq> (\<Union>b \<in> set bs. held b)" using assms(1) nth_mem by blast
  moreover have "(\<Union>b \<in> set (bs[i := b']). held b) \<subseteq> (\<Union>b \<in> set bs. held b) \<union> held b'"
    using set_update_subset_insert [of bs i b'] by auto
  ultimately show ?thesis using assms(2) unfolding entries_of_def by blast
qed

lemma shared_step:
  assumes "shared_ok e p ks (bs, c)" "i < length bs" "\<not> bt_returned (bs ! i)"
  shows "\<exists>b' c'. bt_step e p (bs ! i) c = Ok (b', c') \<and> shared_ok e p ks (bs[i := b'], c') \<and>
    thread_left b' < thread_left (bs ! i)"
proof -
  note a = assms(1) [unfolded shared_ok_def prod.case]
  have i: "i < length ks" using a assms(2) by simp
  have g: "cache_good e p c" using a by (auto simp: cache_good_def entries_of_def)
  have f: "tk_pc (ks ! i) \<notin> tpc ` set (concat c)" if "first_frame (bs ! i)"
    using a i that unfolding entries_of_def image_Un by blast
  have ok: "bt_ok e p (ks ! i) (bs ! i)" using a i by simp
  have "\<exists>b' c'. bt_step e p (bs ! i) c = Ok (b', c') \<and> goes_on e p (ks ! i) (bs ! i) c b' c'"
  proof (cases "bs ! i")
    case (BtLoop ctx bt ret)
    then show ?thesis using loop_goes_on [OF _ g, of "ks ! i" ctx bt ret] ok f by simp
  next
    case (BtAdd pc t r ctx bt)
    then show ?thesis using add_goes_on [of e p "ks ! i" pc t r ctx bt c] ok a by simp
  qed (use assms(3) in simp)
  then obtain b' c' where st: "bt_step e p (bs ! i) c = Ok (b', c')" "goes_on e p (ks ! i) (bs ! i) c b' c'" by blast
  note n = st(2) [unfolded goes_on_def]
  have sub: "entries_of (bs[i := b']) c' \<subseteq> entries_of bs c \<union> own_entries e p (ks ! i)"
    using n assms(2) by (intro entries_of_update) simp_all
  have good: "entry_good e p t" if "t \<in> entries_of (bs[i := b']) c'" for t
    using sub that a by (auto simp: own_entries_def)
  have first: "tk_pc (ks ! j) \<notin> tpc ` entries_of (bs[i := b']) c'" if "j < length ks" "first_frame (bs[i := b'] ! j)" for j
  proof -
    have "j \<noteq> i" using that n assms(2) by auto
    then have "tk_pc (ks ! j) \<notin> tpc ` entries_of bs c" "tk_pc (ks ! j) \<notin> set (tk_pcs (ks ! i))"
      using that a i by auto
    then show ?thesis using sub by (auto simp: own_entries_def)
  qed
  have "bt_ok e p (ks ! j) (bs[i := b'] ! j)" if "j < length ks" for j
    using n a that assms(2) by (cases "j = i") simp_all
  then have "shared_ok e p ks (bs[i := b'], c')" using a n good first by (simp add: shared_ok_def)
  then show ?thesis using st(1) n by blast
qed

interpretation shared: par_progress "\<lambda>_. bt_step e p" bt_returned "shared_ok e p ks" thread_left
  for e p ks
proof
  fix bs c i
  assume a: "shared_ok e p ks (bs, c)" "i < length bs" "\<not> bt_returned (bs ! i)"
  note s = shared_step [OF a]
  then show "\<exists>b' c'. bt_step e p (bs ! i) c = Ok (b', c') \<and> thread_left b' < thread_left (bs ! i)" by blast
  show "shared_ok e p ks (bs[i := b], c')" if "bt_step e p (bs ! i) c = Ok (b, c')" for b c'
    using s that by auto
qed

text \<open>Threads that are about to unwind: their stacks, and that the first frame of each is not in the cache and not on the stack of another.\<close>

definition shared_start :: "unw_env \<Rightarrow> kunwind_proc_modules \<Rightarrow> bt_task list \<Rightarrow> unw_cache \<Rightarrow> bool" where
  "shared_start e p ks c \<longleftrightarrow>
     cache_good e p c \<and>
     (\<forall>k \<in> set ks. call_chain e p (view (info (tk_ctx k))) (tk_pcs k) \<and> wf_frame (info (tk_ctx k)) \<and>
        \<not> bt_null (tk_bt k) \<and> max_entries (tk_bt k) \<noteq> 0 \<and> tk_pc k \<notin> tpc ` set (concat c)) \<and>
     (\<forall>i < length ks. \<forall>j < length ks. i \<noteq> j \<longrightarrow> tk_pc (ks ! i) \<notin> set (tk_pcs (ks ! j)))"

abbreviation bt_starts :: "bt_task list \<Rightarrow> bt_pc list" where
  "bt_starts ks \<equiv> map (\<lambda>k. bt_start (tk_ctx k) (tk_bt k)) ks"

lemma shared_ok_start:
  assumes "shared_start e p ks c"
  shows "shared_ok e p ks (bt_starts ks, c)"
proof -
  note a = assms [unfolded shared_start_def]
  have st: "bt_start (tk_ctx k) (tk_bt k) = BtLoop (tk_ctx k) ((tk_bt k)\<lparr>nr_entries := 0, bt_entries := []\<rparr>) None"
    if "k \<in> set ks" for k
    using a that by (simp add: bt_start_def)
  have ok: "bt_ok e p k (bt_start (tk_ctx k) (tk_bt k))" if "k \<in> set ks" for k
    unfolding st [OF that] using a that
    by (auto simp: unwinding_def bt_wf_def tk_result_def word_greater_zero_iff intro!: exI [of _ "tk_pcs k"])
  have "held b = {}" if "b \<in> set (bt_starts ks)" for b using that st by auto
  then have en: "entries_of (bt_starts ks) c = set (concat c)" by (simp add: entries_of_def)
  show ?thesis
    using a ok unfolding shared_ok_def prod.case en by (auto simp: cache_good_def)
qed

section \<open>Two threads\<close>

text \<open>A thread that is stopped in the function of the small module, and one in its entry point.\<close>

definition ex_task :: bt_task where
  "ex_task = \<lparr>tk_ctx = ex_ctx, tk_bt = ex_bt, tk_pcs = [0x400050, 0x4000d0]\<rparr>"

definition ex_ctx2 :: unwind_context where
  "ex_ctx2 = ex_ctx\<lparr>info := ex_frame\<lparr>regs := (replicate 21 0)[PT_ip := 0x4000d4]\<rparr>\<rparr>"

definition ex_task2 :: bt_task where
  "ex_task2 = \<lparr>tk_ctx = ex_ctx2, tk_bt = ex_bt, tk_pcs = [0x4000d4]\<rparr>"

lemma ex_tasks: "shared_start ex_stack ex_proc [ex_task, ex_task2] unw_cache_init"
proof -
  have v: "view (info ex_ctx) = (0x400050, 0x7ffdff00, 0x7ffe0000)" "view (info ex_ctx2) = (0x4000d4, 0, 0)"
    "get_pc (info ex_ctx2) = 0x4000d4" "wf_frame (info ex_ctx2)"
    by code_simp+
  have "call_chain ex_stack ex_proc (0x4000d4, 0, 0) [0x4000d4]" by (rule chain_last [OF ex_outermost]) simp
  moreover have "set (concat unw_cache_init) = {}" by (simp add: unw_cache_init_def ht_empty_def)
  ultimately show ?thesis
    using ex_chain ex_start cache_good_init v
    by (auto simp: shared_start_def ex_task_def ex_task2_def ex_bt_def less_Suc_eq)
qed

section \<open>Properties\<close>

text \<open>
  C12. Threads that unwind through one file at the same time: from every point of every interleaving of their
  accesses to the shared cache, all backtraces can be completed; each that has returned has returned 0 with the program
  counters of its own call stack, up to the size of its buffer; and every description in the cache is the right one. This holds
  where the innermost frame of a thread is not cached and not on the stack of another thread.
\<close>

theorem concurrent_backtraces:
  assumes "shared_start e p ks c0" "par_run (\<lambda>_. bt_step e p) bt_returned (bt_starts ks, c0) (bs, c)"
  shows "(\<exists>bs' c'. par_run (\<lambda>_. bt_step e p) bt_returned (bs, c) (bs', c') \<and> (\<forall>b \<in> set bs'. bt_returned b)) \<and>
    (\<forall>i < length ks. bt_returned (bs ! i) \<longrightarrow>
       (\<exists>bt. bs ! i = BtReturned 0 bt \<and> bt_entries bt = take (unat (max_entries (tk_bt (ks ! i)))) (tk_pcs (ks ! i)))) \<and>
    cache_good e p c"
proof -
  have ok: "shared_ok e p ks (bs, c)" by (rule shared.inv_run [OF assms(2) shared_ok_start [OF assms(1)]])
  have "\<exists>bt. bs ! i = BtReturned 0 bt \<and> bt_entries bt = tk_result (ks ! i)" if "i < length ks" "bt_returned (bs ! i)" for i
  proof -
    have "bt_ok e p (ks ! i) (bs ! i)" using ok that(1) by (simp add: shared_ok_def)
    then show ?thesis using that(2) by (cases "bs ! i") auto
  qed
  moreover have "cache_good e p c" using ok by (auto simp: shared_ok_def cache_good_def entries_of_def)
  ultimately show ?thesis using shared.completes [OF ok] by (simp add: tk_result_def)
qed

theorem concurrent_backtraces_witness:
  "\<exists>bs c bt0 bt1. par_run (\<lambda>_. bt_step ex_stack ex_proc) bt_returned (bt_starts [ex_task, ex_task2], unw_cache_init) (bs, c) \<and>
     bs ! 0 = BtReturned 0 bt0 \<and> bt_entries bt0 = [0x400050, 0x4000d0] \<and> bs ! 1 = BtReturned 0 bt1 \<and> bt_entries bt1 = [0x4000d4]"
proof -
  let ?run = "par_run (\<lambda>_. bt_step ex_stack ex_proc) bt_returned"
  let ?s = "(bt_starts [ex_task, ex_task2], unw_cache_init)"
  obtain bs c where r: "?run ?s (bs, c)" "\<forall>b \<in> set bs. bt_returned b"
    using concurrent_backtraces [OF ex_tasks par_refl] by blast
  have "length bs = 2" using par_run_length [OF r(1)] by simp
  then have "bt_returned (bs ! 0)" "bt_returned (bs ! 1)" using r(2) by simp_all
  moreover have "\<exists>bt. bs ! i = BtReturned 0 bt \<and>
      bt_entries bt = take (unat (max_entries (tk_bt ([ex_task, ex_task2] ! i)))) (tk_pcs ([ex_task, ex_task2] ! i))"
    if "i < 2" "bt_returned (bs ! i)" for i
    using concurrent_backtraces [OF ex_tasks r(1)] that by simp
  from this [of 0] this [of 1] obtain bt0 bt1 where "bs ! 0 = BtReturned 0 bt0" "bt_entries bt0 = [0x400050, 0x4000d0]"
    "bs ! 1 = BtReturned 0 bt1" "bt_entries bt1 = [0x4000d4]"
    using calculation by (auto simp: ex_task_def ex_task2_def ex_bt_def)
  then show ?thesis using r(1) by blast
qed

end
