(* ===== verification/Locate_Ends.thy ===== *)
theory Locate_Ends
  imports Unwind_Frame
begin

text \<open>
  The way from a program counter to its rules always ends: the readers, the search of the table and the
  parsing of an entry never run longer than the fuel their models have, whatever the memory holds.
\<close>

section \<open>Results that are not out of fuel\<close>

definition ends :: "'a res \<Rightarrow> bool" where
  "ends r \<longleftrightarrow> r \<noteq> Fault NoFuel"

lemma ends_Ok [simp]: "ends (Ok x)" and ends_Fault [simp]: "ends (Fault e) \<longleftrightarrow> e \<noteq> NoFuel"
  by (simp_all add: ends_def)

lemma ends_rbind [intro!]: "ends r \<Longrightarrow> (\<And>x. ends (f x)) \<Longrightarrow> ends (rbind r f)"
  by (cases r) simp_all

lemma ends_rbind_Ok: "ends r \<Longrightarrow> (\<And>x. r = Ok x \<Longrightarrow> ends (f x)) \<Longrightarrow> ends (rbind r f)"
  by (cases r) simp_all

lemma ends_safe: "safe r \<Longrightarrow> ends r"
  by (simp add: safe_def ends_def)

lemma ends_load8 [simp]: "ends (load8 m a)"
  by (simp add: load8_def split: option.splits)

lemma ends_load_bytes [simp]: "ends (load_bytes m a n)"
  by (induction n arbitrary: a) auto

lemma ends_loads [simp]: "ends (load_le m a n)" "ends (load16 m a)" "ends (load32 m a)" "ends (load64 m a)"
  by (auto simp: load_le_def load16_def load32_def load64_def)

lemma ends_leb_parts [simp]: "ends (low_overflows b s)" "ends (sign_bits b s)" "ends (shl64 x n)"
  by (simp_all add: ends_safe)

lemma ends_uleb_loop: "ends (uleb_loop m lim cur s v)"
proof (induction m lim cur s v rule: uleb_loop.induct)
  case (1 m lim cur s v)
  then show ?case by (subst uleb_loop.simps) (auto intro!: ends_rbind_Ok del: ends_rbind)
qed

lemma ends_sleb_loop: "ends (sleb_loop m lim cur s v)"
proof (induction m lim cur s v rule: sleb_loop.induct)
  case (1 m lim cur s v)
  then show ?case by (subst sleb_loop.simps) (auto intro!: ends_rbind_Ok del: ends_rbind)
qed

lemma ends_leb [simp]: "ends (get_uleb128 m cur lim)" "ends (get_sleb128 m cur lim)"
  by (simp_all add: get_uleb128_def get_sleb128_def ends_uleb_loop ends_sleb_loop)

lemma ends_read_parts [simp]: "ends (read_fixed m p lim n sx)" "ends (read_leb m p lim sx)"
  by (auto simp: read_fixed_def read_leb_def)

lemma ends_read_form [simp]: "ends (read_form m p lim ty compat_task ts)"
  by (simp add: read_form_def Let_def)

lemma ends_read_ptr [simp]: "ends (read_ptr_sect m ua p lim ty ta da user compat_task ts)"
  "ends (read_pointer m ua p lim ty user compat_task)"
  by (auto simp: read_ptr_sect_def read_pointer_def split: option.splits)

lemma ends_entry [simp]: "ends (check_fde m fde table n eh)" "ends (cie_for_fde m fde sec eh)"
  by (auto simp: check_fde_def has_cie_id_def cie_for_fde_def Let_def)

lemma ends_memchr0 [simp]: "ends (memchr0 m p n)"
  by (induction n arbitrary: p) auto

lemma memchr0_found:
  "memchr0 m p n = Ok (Some q) \<Longrightarrow> \<exists>k < n. q = p + of_nat k \<and> m q = Some 0"
proof (induction n arbitrary: p)
  case (Suc n)
  show ?case
  proof (cases "m p = Some 0")
    case True
    then show ?thesis using Suc.prems by (intro exI [of _ 0]) simp
  next
    case False
    then have "memchr0 m (p + 1) n = Ok (Some q)" using Suc.prems by (auto simp: rbind_eq_Ok load8_eq_Ok split: if_splits)
    then obtain k where "k < n" "q = p + 1 + of_nat k" "m q = Some 0" using Suc.IH by blast
    then show ?thesis by (intro exI [of _ "Suc k"]) (simp add: algebra_simps)
  qed
qed simp

lemma ends_aug_char [simp]: "ends (aug_char m ua user compat_task cs ch st)"
  by (auto simp: aug_char_def Let_def split: prod.splits)

text \<open>The loop over the augmentation string stops at its NUL.\<close>

lemma ends_aug_loop: "m (aug + of_nat n) = Some 0 \<Longrightarrow> ends (aug_loop n m ua user compat_task cs aug st)"
proof (induction n arbitrary: aug st)
  case 0
  then show ?case by (simp add: aug_loop.simps [of 0])
next
  case (Suc n)
  have "ends (aug_loop n m ua user compat_task cs (aug + 1) st')" for st'
    using Suc.IH [of "aug + 1"] Suc.prems by (simp add: algebra_simps)
  then show ?case by (auto simp: aug_loop.simps [of "Suc n"] split: option.splits)
qed

lemma ends_parse_aug:
  "m (aug + of_nat n) = Some 0 \<Longrightarrow> ends (parse_aug m ua user compat_task cie cieEnd aug p n)"
  by (auto simp: parse_aug_def aug_length_def Let_def ends_aug_loop split: option.splits)

lemma ends_parse_fde [simp]: "ends (parse_fde m ua user compat_task fde fdeEnd n ty)"
  by (auto simp: parse_fde_def aug_length_def split: option.splits)

lemma ends_parse_fde_cie [simp]: "ends (parse_fde_cie m ua fde cie user compat_task)"
proof -
  have "ends (parse_aug m ua user compat_task cie cieEnd aug p (unat (nul - aug)))"
    if found: "memchr0 m aug (unat (cieEnd - aug)) = Ok (Some nul)" for cieEnd aug p nul
  proof (rule ends_parse_aug)
    obtain k where "nul = aug + of_nat k" "m nul = Some 0" using memchr0_found [OF found] by blast
    then show "m (aug + of_nat (unat (nul - aug))) = Some 0" by simp
  qed
  then show ?thesis
    unfolding parse_fde_cie_def Let_def
    by (intro ends_rbind ends_load8 ends_loads ends_rbind_Ok [OF ends_memchr0])
      (auto split: option.splits)
qed

lemma ends_hdr [simp]: "ends (hdr_read e p lim enc)" "ends (field_read e p)" "ends (hdr_table e hdr n enc)"
  "ends (found_fde e pc p num)"
  by (auto simp: hdr_read_def field_read_def hdr_table_def found_fde_def Let_def)

lemma ends_search_loop [simp]: "ends (search_loop e pc p num)"
proof (induction e pc p num rule: search_loop.induct)
  case (1 e pc p num)
  then show ?case by (subst search_loop.simps) (auto simp: Let_def intro!: ends_rbind_Ok del: ends_rbind)
qed

lemma ends_search [simp]: "ends (stp_search_fde m ua pc eh user compat_task km)"
  unfolding stp_search_fde_def Let_def by (auto split: option.splits)

lemma ends_locate_rules: "ends (locate_rules e km pc)"
  unfolding locate_rules_def Let_def by (auto split: option.splits)

text \<open>
  Finding the rules of a program counter never uses up the fuel of the loop over the augmentation string
  of a CIE; the binary search and the LEB128 readers are recursions without fuel.
\<close>

lemma locate_rules_ends: "locate_rules e km pc \<noteq> Fault NoFuel"
  using ends_locate_rules [of e km pc] by (simp add: ends_def)

end
