(* ===== verification/Arch_Registers.thy ===== *)
theory Arch_Registers
  imports Unwind_Types
begin

text \<open>
  The register files of the architectures that \<^verbatim>\<open>src/unwind/unwind.h\<close> chooses from: for each of its headers the
  table from DWARF register numbers to the fields of \<open>pt_regs\<close>, the columns of the program counter and of
  the stack pointer, and how a frame is filled from a saved register set. \<open>register_file\<close> is what the
  unwinder relies on, as a locale that every header's tables are shown to satisfy.
\<close>

section \<open>Register tables\<close>

text \<open>A field of \<open>pt_regs\<close>: a name, with an index where the field is an array.\<close>

datatype pt_field = Fld string | Elt string nat

text \<open>
  The macros a header defines, or the defaults of \<^verbatim>\<open>unwind.h\<close> where it does not: \<open>UNW_REGISTER_INFO\<close>,
  \<open>DWARF_REG_MAP\<close>, \<open>UNW_PC\<close>, \<open>UNW_SP\<close>, their columns, \<open>UNW_NR_REAL_REGS\<close>, \<open>UNW_SP_FROM_CFA\<close> and \<open>UNW_PC_FROM_RA\<close>.
\<close>

record arch =
  ar_info :: "pt_field list"
  ar_map :: "nat \<Rightarrow> nat"
  ar_pc :: pt_field
  ar_sp :: pt_field
  ar_pc_idx :: nat
  ar_sp_idx :: nat
  ar_real :: nat
  ar_sp_from_cfa :: bool
  ar_pc_from_ra :: bool

definition x86_64_arch :: arch where
  "x86_64_arch = \<lparr>
     ar_info = map Fld [''ax'', ''dx'', ''cx'', ''bx'', ''si'', ''di'', ''bp'', ''sp'', ''r8'', ''r9'', ''r10'',
       ''r11'', ''r12'', ''r13'', ''r14'', ''r15'', ''ip''],
     ar_map = (\<lambda>r. r), ar_pc = Fld ''ip'', ar_sp = Fld ''sp'', ar_pc_idx = 16, ar_sp_idx = 7, ar_real = 16,
     ar_sp_from_cfa = True, ar_pc_from_ra = False\<rparr>"

definition i386_arch :: arch where
  "i386_arch = \<lparr>
     ar_info = map Fld [''ax'', ''cx'', ''dx'', ''bx'', ''sp'', ''bp'', ''si'', ''di'', ''ip''],
     ar_map = (\<lambda>r. r), ar_pc = Fld ''ip'', ar_sp = Fld ''sp'', ar_pc_idx = 8, ar_sp_idx = 4, ar_real = 8,
     ar_sp_from_cfa = True, ar_pc_from_ra = False\<rparr>"

definition ppc64_arch :: arch where
  "ppc64_arch = \<lparr>
     ar_info = map (Elt ''gpr'') [0..<32] @ map Fld [''softe'', ''ctr'', ''link'', ''nip''],
     ar_map = (\<lambda>r. if r \<le> 31 then r else if r = 64 \<or> r = 100 then 32 else if r = 65 \<or> r = 108 then 34
       else if r = 66 \<or> r = 109 then 33 else 9999),
     ar_pc = Fld ''nip'', ar_sp = Elt ''gpr'' 1, ar_pc_idx = 35, ar_sp_idx = 1, ar_real = 35,
     ar_sp_from_cfa = True, ar_pc_from_ra = True\<rparr>"

definition s390x_arch :: arch where
  "s390x_arch = \<lparr>
     ar_info = map (Elt ''gprs'') [0..<16] @ map Fld [''psw.addr'', ''psw.mask''],
     ar_map = (\<lambda>r. if r \<le> 15 then r else if r = 64 then 16 else if r = 65 then 17 else 9999),
     ar_pc = Fld ''psw.addr'', ar_sp = Elt ''gprs'' 15, ar_pc_idx = 16, ar_sp_idx = 15, ar_real = 18,
     ar_sp_from_cfa = False, ar_pc_from_ra = True\<rparr>"

text \<open>\<open>ARM_pc\<close> and \<open>ARM_sp\<close> are \<open>uregs[15]\<close> and \<open>uregs[13]\<close>.\<close>

definition arm_arch :: arch where
  "arm_arch = \<lparr>
     ar_info = map (Elt ''uregs'') [0..<16], ar_map = (\<lambda>r. if r \<le> 15 then r else 9999),
     ar_pc = Elt ''uregs'' 15, ar_sp = Elt ''uregs'' 13, ar_pc_idx = 15, ar_sp_idx = 13, ar_real = 16,
     ar_sp_from_cfa = True, ar_pc_from_ra = True\<rparr>"

definition arm64_arch :: arch where
  "arm64_arch = \<lparr>
     ar_info = map (Elt ''regs'') [0..<31] @ map Fld [''sp'', ''pc''], ar_map = (\<lambda>r. if r \<le> 31 then r else 9999),
     ar_pc = Fld ''pc'', ar_sp = Fld ''sp'', ar_pc_idx = 32, ar_sp_idx = 31, ar_real = 33,
     ar_sp_from_cfa = True, ar_pc_from_ra = True\<rparr>"

lemmas arch_defs = x86_64_arch_def i386_arch_def ppc64_arch_def s390x_arch_def arm_arch_def arm64_arch_def

definition archs :: "arch list" where
  "archs = [x86_64_arch, i386_arch, ppc64_arch, s390x_arch, arm_arch, arm64_arch]"

text \<open>A register set by its fields, and \<open>FRAME_REG\<close> on it.\<close>

definition reg_get :: "arch \<Rightarrow> (pt_field \<Rightarrow> 'w) \<Rightarrow> nat \<Rightarrow> 'w" where
  "reg_get a rs i = rs (ar_info a ! i)"

definition reg_set :: "arch \<Rightarrow> (pt_field \<Rightarrow> 'w) \<Rightarrow> nat \<Rightarrow> 'w \<Rightarrow> (pt_field \<Rightarrow> 'w)" where
  "reg_set a rs i v = rs(ar_info a ! i := v)"

section \<open>What the unwinder relies on\<close>

locale register_file =
  fixes a :: arch
  assumes distinct_info: "distinct (ar_info a)"
    and pc_column: "ar_pc_idx a < length (ar_info a)" "ar_info a ! ar_pc_idx a = ar_pc a"
    and sp_column: "ar_sp_idx a < length (ar_info a)" "ar_info a ! ar_sp_idx a = ar_sp a"
    and columns_differ: "ar_pc_idx a \<noteq> ar_sp_idx a"
    and real_bound: "ar_real a \<le> length (ar_info a)"
begin

lemma get_set:
  assumes "i < length (ar_info a)" "j < length (ar_info a)"
  shows "reg_get a (reg_set a rs i v) j = (if j = i then v else reg_get a rs j)"
  using assms distinct_info by (simp add: reg_get_def reg_set_def nth_eq_iff_index_eq)

lemma set_pc:
  assumes "i < length (ar_info a)"
  shows "reg_set a rs i v (ar_pc a) = (if i = ar_pc_idx a then v else rs (ar_pc a))"
  using get_set [OF assms pc_column(1), of rs v] pc_column(2) by (auto simp: reg_get_def)

lemma set_sp:
  assumes "i < length (ar_info a)"
  shows "reg_set a rs i v (ar_sp a) = (if i = ar_sp_idx a then v else rs (ar_sp a))"
  using get_set [OF assms sp_column(1), of rs v] sp_column(2) by (auto simp: reg_get_def)

end

text \<open>Numbers that name no register are mapped beyond every table, where the rule setters ignore them.\<close>

locale mapped_file = register_file +
  assumes map_bound: "ar_map a r < length (ar_info a) \<or> ar_map a r = 9999"
    and table_small: "length (ar_info a) < 9999"
begin

lemma map_ignored: "\<not> ar_map a r < length (ar_info a) \<Longrightarrow> ar_map a r = 9999"
  using map_bound by blast

end

lemma distinct_array: "distinct (map (Elt s) [0..<n])"
  by (simp add: distinct_map inj_on_def)

interpretation x86_64: register_file x86_64_arch
  by unfold_locales (simp_all add: x86_64_arch_def)

interpretation i386: register_file i386_arch
  by unfold_locales (simp_all add: i386_arch_def)

interpretation ppc64: mapped_file ppc64_arch
  by unfold_locales (auto simp: ppc64_arch_def distinct_array nth_append)

interpretation s390x: mapped_file s390x_arch
  by unfold_locales (auto simp: s390x_arch_def distinct_array nth_append)

interpretation arm: mapped_file arm_arch
  by unfold_locales (auto simp: arm_arch_def distinct_array)

interpretation arm64: mapped_file arm64_arch
  by unfold_locales (auto simp: arm64_arch_def distinct_array nth_append)

lemma archs_register_file: "a \<in> set archs \<Longrightarrow> register_file a"
  using x86_64.register_file_axioms i386.register_file_axioms ppc64.register_file_axioms s390x.register_file_axioms
    arm.register_file_axioms arm64.register_file_axioms by (auto simp: archs_def)

section \<open>Filling a frame\<close>

record 'w aframe =
  af_regs :: "pt_field \<Rightarrow> 'w"
  af_call :: bool

text \<open>The argument \<open>regs\<close>: the null pointer, the frame's own registers, or another set.\<close>

datatype 'w aregs = ANull | ASelf | APtr "pt_field \<Rightarrow> 'w"

text \<open>Three headers copy the set; they load through the null pointer.\<close>

definition copy_init :: "'w aframe \<Rightarrow> 'w aregs \<Rightarrow> 'w aframe res" where
  "copy_init fr rs =
     (case rs of
        ANull \<Rightarrow> Fault (BadRead 0)
      | ASelf \<Rightarrow> Ok (fr\<lparr>af_call := True\<rparr>)
      | APtr r \<Rightarrow> Ok \<lparr>af_regs = r, af_call = False\<rparr>)"

definition ppc64_init_frame_info :: "'w aframe \<Rightarrow> 'w aregs \<Rightarrow> 'w aframe res" where
  "ppc64_init_frame_info = copy_init"

definition s390x_init_frame_info :: "'w aframe \<Rightarrow> 'w aregs \<Rightarrow> 'w aframe res" where
  "s390x_init_frame_info = copy_init"

definition arm_init_frame_info :: "'w aframe \<Rightarrow> 'w aregs \<Rightarrow> 'w aframe res" where
  "arm_init_frame_info = copy_init"

text \<open>
  On arm64 the assembly for the null pointer stores the program counter through an output register, which
  holds nothing by then (and it moves \<open>x16\<close> to the stack pointer); the source marks it as not working.
\<close>

definition arm64_init_frame_info :: "'w aframe \<Rightarrow> 'w aregs \<Rightarrow> 'w aframe res" where
  "arm64_init_frame_info fr rs = (case rs of ANull \<Rightarrow> Fault Uninit | _ \<Rightarrow> copy_init fr rs)"

text \<open>
  On i386 the assembly stores the registers of the processor, \<open>cpu\<close>, with the label's address as \<open>ip\<close>; segment
  registers as 16 bits; \<open>orig_ax\<close> and \<open>flags\<close> are left (in the configurations whose \<open>pt_regs\<close> has \<open>fs\<close> and
  \<open>gs\<close>). A set saved in kernel mode ends before its stack pointer, which then is the address \<open>sp_addr\<close> of that
  field; \<open>user_mode\<close> and \<open>kernel_ds\<close> are the kernel's.
\<close>

definition i386_from_cpu :: "(pt_field \<Rightarrow> u32) \<Rightarrow> (pt_field \<Rightarrow> u32) \<Rightarrow> pt_field \<Rightarrow> u32" where
  "i386_from_cpu cpu rs fl =
     (if fl \<in> Fld ` {''bx'', ''cx'', ''dx'', ''si'', ''di'', ''bp'', ''ax'', ''sp'', ''ip''} then cpu fl
      else if fl \<in> Fld ` {''ds'', ''es'', ''fs'', ''gs'', ''cs'', ''ss''} then (rs fl AND NOT (mask 16)) OR take_bit 16 (cpu fl)
      else rs fl)"

definition i386_init_frame_info ::
  "(pt_field \<Rightarrow> u32) \<Rightarrow> ((pt_field \<Rightarrow> u32) \<Rightarrow> bool) \<Rightarrow> u32 \<Rightarrow> u32 \<Rightarrow> u32 aframe \<Rightarrow> u32 aregs \<Rightarrow> u32 aframe res" where
  "i386_init_frame_info cpu user_mode sp_addr kernel_ds fr rs =
     (case rs of
        ANull \<Rightarrow> Ok (fr\<lparr>af_regs := i386_from_cpu cpu (af_regs fr)\<rparr>)
      | ASelf \<Rightarrow> Ok (fr\<lparr>af_call := True\<rparr>)
      | APtr r \<Rightarrow>
          Ok \<lparr>af_regs = (if user_mode r then r else r(Fld ''sp'' := sp_addr, Fld ''ss'' := kernel_ds)), af_call = False\<rparr>)"

lemmas init_defs = copy_init_def ppc64_init_frame_info_def s390x_init_frame_info_def arm_init_frame_info_def
  arm64_init_frame_info_def i386_init_frame_info_def i386_from_cpu_def

text \<open>
  The column of the program counter or of the stack pointer of a filled frame: that of the saved set, but for
  the stack pointer of a set saved in kernel mode, and that of the processor where the null pointer stands for it.
\<close>

lemma copied_frame:
  "init \<in> {ppc64_init_frame_info, s390x_init_frame_info, arm_init_frame_info, arm64_init_frame_info} \<Longrightarrow>
   init fr (APtr rs) = Ok \<lparr>af_regs = rs, af_call = False\<rparr>"
  by (auto simp: init_defs fun_eq_iff)

lemma i386_frame:
  "\<exists>f. i386_init_frame_info cpu um sp_addr ds fr (APtr rs) = Ok f \<and> \<not> af_call f \<and>
     (\<forall>i < length (ar_info i386_arch). reg_get i386_arch (af_regs f) i =
        (if i = ar_sp_idx i386_arch \<and> \<not> um rs then sp_addr else reg_get i386_arch rs i))"
  "\<exists>f. i386_init_frame_info cpu um sp_addr ds fr ANull = Ok f \<and> af_call f = af_call fr \<and>
     (\<forall>i < length (ar_info i386_arch). reg_get i386_arch (af_regs f) i = reg_get i386_arch cpu i)"
  by (auto simp: init_defs i386_arch_def reg_get_def less_Suc_eq numeral_eq_Suc)

section \<open>Properties\<close>

text \<open>The words of \<open>pt_regs\<close> on x86-64, by name.\<close>

definition x86_64_words :: "pt_field list" where
  "x86_64_words = map Fld [''r15'', ''r14'', ''r13'', ''r12'', ''bp'', ''bx'', ''r11'', ''r10'', ''r9'', ''r8'', ''ax'',
     ''cx'', ''dx'', ''si'', ''di'', ''orig_ax'', ''ip'', ''cs'', ''flags'', ''sp'', ''ss'']"

lemma x86_64_info: "map (\<lambda>e. x86_64_words ! fst e) reg_info = ar_info x86_64_arch"
  by (simp add: x86_64_words_def reg_info_def x86_64_arch_def)

text \<open>
  C35. The register numbers of 32-bit tasks: \<open>COMPAT_REG_MAP\<close> takes each of the nine numbers that \<open>UNW_REGISTER_INFO\<close> of
  \<^verbatim>\<open>i386.h\<close> has (ax, cx, dx, bx, sp, bp, si, di, ip, in this order) to the entry of the x86-64 table for the register of
  the same name, and never two of them to the same one. For the numbers 1 and 2 this is what the values of the macro
  say, 1 going to rcx and 2 to rdx; the comments beside those two lines have the names the other way round.
\<close>

theorem compat_map_same_register:
  assumes "r < length (ar_info i386_arch)"
  shows "unat (COMPAT_REG_MAP (of_nat r)) < NREGS \<and>
    x86_64_words ! fst (reg_info ! unat (COMPAT_REG_MAP (of_nat r))) = ar_info i386_arch ! r \<and>
    (\<forall>q < length (ar_info i386_arch). COMPAT_REG_MAP (of_nat q) = COMPAT_REG_MAP (of_nat r) \<longrightarrow> q = r)"
proof -
  have l: "length (ar_info i386_arch) = 9" by (simp add: i386_arch_def)
  have n: "k \<in> {0, 1, 2, 3, 4, 5, 6, 7, 8}" if "k < length (ar_info i386_arch)" for k
    using that unfolding l by (simp add: less_Suc_eq numeral_eq_Suc)
  have e: "unat (COMPAT_REG_MAP (of_nat k)) < NREGS \<and>
      x86_64_words ! fst (reg_info ! unat (COMPAT_REG_MAP (of_nat k))) = ar_info i386_arch ! k"
    if "k < length (ar_info i386_arch)" for k
    using n [OF that] by (auto simp: COMPAT_REG_MAP_def i386_arch_def reg_info_def x86_64_words_def word_le_nat_alt)
  have "q = r" if "q < length (ar_info i386_arch)" "COMPAT_REG_MAP (of_nat q) = COMPAT_REG_MAP (of_nat r)" for q
    using e [OF that(1)] e [OF assms] that i386.distinct_info assms by (metis nth_eq_iff_index_eq)
  then show ?thesis using e [OF assms] by blast
qed

theorem compat_map_same_register_witness:
  "x86_64_words ! fst (reg_info ! unat (COMPAT_REG_MAP 4)) = Fld ''sp''"
  using compat_map_same_register [of 4] by (simp add: i386_arch_def)



end
