(* ===== verification/Spec2Isabelle.thy ===== *)
theory Spec2Isabelle
  imports Libkunwind Device_Refine Registration_Race Module_Init Slow_Path Shared_Backtrace Locate_Ends Arch_Registers
begin

text \<open>
  kunwind unwinds the stack of a user-space task from inside the Linux kernel, from the DWARF call frame
  information that the task's executable and libraries carry. This development models the kernel module
  (files under \<^verbatim>\<open>src/src\<close>), its user interface (\<^verbatim>\<open>src/include\<close>) and the user library
  (\<^verbatim>\<open>src/libkunwind/src\<close>), and proves what makes their parts correct.

  \<^bold>\<open>The program.\<close> A process opens the device \<^verbatim>\<open>/proc/kunwind_debug\<close>; its first ioctl has the kernel map the
  \<^verbatim>\<open>.eh_frame_hdr\<close> and \<^verbatim>\<open>.eh_frame\<close> sections of every loaded object; its second one asks for a backtrace.
  A step of the backtrace looks up the module of the program counter, then the cached description of the
  frame; failing that it searches the module's table for the frame description entry, parses the entry and
  its CIE, runs the CFI programs of both until they pass the program counter, and restores the caller's
  registers from the resulting rules: on a fast path, when the rules have the usual form, and by evaluating
  any rule, DWARF expressions included, on a slow one.

  \<^bold>\<open>Theories and sources.\<close>
  \<^item> \<open>Prelude\<close>: machine words, results (\<open>Ok\<close>, or \<open>Fault\<close> with the undefined behaviour met), the kernel
    memory as a partial byte map with little-endian loads, byte images, and the lemmas all others use.
  \<^item> \<open>Leb128\<close>: \<open>get_uleb128\<close>, \<open>get_sleb128\<close> (\<^verbatim>\<open>unwind.c\<close>). Round trips with the canonical encodings, where the
    signed reader loses the sign, and what the interpreters rely on as the locale \<open>leb_reader\<close>.
  \<^item> \<open>Eh_Pointer\<close>: \<open>_stp_read_address\<close> (\<^verbatim>\<open>unwind.h\<close>), \<open>read_ptr_sect\<close> and \<open>read_pointer\<close> (\<^verbatim>\<open>unwind.c\<close>): their
    bounds, and that every direct encoding of a pointer is read back.
  \<^item> \<open>Unwind_Types\<close>: the register file of \<^verbatim>\<open>x86_64.h\<close> and the structures of \<^verbatim>\<open>unwind.h\<close>, one record or
    datatype each, with their well-formedness.
  \<^item> \<open>Cfi_Program\<close>: \<open>run_cfi_program\<close> with its rule setters; \<open>Cfi_Safety\<close>: what it keeps of the state, its
    loads and its end; \<open>Cfi_Spec\<close>: instructions and rows after the DWARF standard, and the refinement.
  \<^item> \<open>Cie_Fde\<close>: \<open>has_cie_id\<close>, \<open>check_fde\<close>, \<open>cie_for_fde\<close>, \<open>parse_fde_cie\<close>; \<open>Cie_Enc\<close>: images of entries of
    versions 1 and 3, with the augmentations that compilers use and code pointers in any direct encoding, that the parser
    reads them, and what it makes of version 4.
  \<^item> \<open>Fde_Search\<close>: \<open>adjust_start_loc\<close>, \<open>_stp_search_fde\<close>; \<open>Fde_Table\<close>: the search on the table that the
    GNU linker writes.
  \<^item> \<open>Dwarf_Expr\<close>: \<open>compute_expr\<close>; \<open>Expr_Safety\<close>: its stack, its loads and its end; \<open>Expr_Spec\<close>: expression
    trees, their encoding and their value.
  \<^item> \<open>Hash_Table\<close>: the kernel's hash tables and the contracts \<open>registry\<close> and \<open>clearable_registry\<close> as locales,
    interpreted on the cache (\<open>Unw_Cache\<close>, of \<^verbatim>\<open>modules.c\<close>) and on the registry of processes
    (\<open>Kunwind_Debug\<close>).
  \<^item> \<open>Unwind_Frame\<close>: \<open>__unwind_frame\<close>, \<open>unwind_frame\<close>, \<open>unwind_full\<close> and what they call; \<open>Frame_Facts\<close>: fast
    and slow path, cache, backtrace; \<open>Slow_Path\<close>: what the slow path assigns to every register; \<open>Step_Spec\<close> and \<open>Unwind_Spec\<close>: a step from the bytes of a module to the
    caller's frame; \<open>Call_Chain\<close>: call stacks by their frames, what the cache may hold, and the backtrace of a
    stack; \<open>Shared_Backtrace\<close>: threads that unwind at the same time and share a cache; \<open>Locate_Ends\<close>: the search and the parser always end; \<open>Example_Module\<close>: a small module
    as bytes with two functions and a stack, for the witnesses.
  \<^item> \<open>Interleaving\<close>: runs of calls on shared state, with the locales \<open>par_invariant\<close> and \<open>par_progress\<close>, interpreted on threads that
    unwind (\<open>Shared_Backtrace\<close>) and on tasks that open the device (\<open>Registration_Race\<close>).
  \<^item> \<open>Modules\<close>: \<^verbatim>\<open>modules.c\<close>, \<^verbatim>\<open>iterate_phdr.c\<close> and \<open>eh_frame_from_hdr\<close>: loading and releasing the unwind
    information, with the pages, mappings and allocations held.
  \<^item> \<open>Kunwind_Debug\<close>: the device of \<^verbatim>\<open>kunwind-debug.c\<close>; \<open>Device_Spec\<close>: its steps, reachable states and
    sessions on it; \<open>Device_Refine\<close>: an abstract device, whose state is the modules of each process as a value and the
    owner of each open file, the locale \<open>call_refinement\<close> that lifts the simulation of one request to every run, and its
    interpretation on the device; \<open>Registration_Race\<close>: calls of \<open>kunwind_debug_open\<close> that run at the same time, as interleavings of
    their accesses to shared state.
  \<^item> \<open>Module_Init\<close>: loading and unloading (\<^verbatim>\<open>kunwind.c\<close> and the ends of \<^verbatim>\<open>kunwind-debug.c\<close>), \<open>_stp_is_compat_task\<close> and
    \<^verbatim>\<open>vma_file_path.h\<close>.
  \<^item> \<open>Libkunwind\<close>: \<^verbatim>\<open>find_proc_info.c\<close> and \<^verbatim>\<open>libkunwind.c\<close> on top of the device: what is collected is what the
    kernel would find, sessions give everything back, and what happens when a call fails.
  \<^item> \<open>Arch_Registers\<close>: the register tables of the six architectures, their contract as the locales
    \<open>register_file\<close> and \<open>mapped_file\<close>, interpreted on each, and the filling of a frame on each.
  \<^item> \<open>Debug_Output\<close>: \<^verbatim>\<open>debug.h\<close> and what a debug build of \<^verbatim>\<open>unwind.c\<close> and of the cache prints, as lists of \<open>printk\<close> calls: the name of a
    pointer encoding fits its buffer, the dump of an expression prints its bytes, the dump in \<open>__unwind_frame\<close> loads
    nothing, and the self test of the cache prints the entry where it should.

  \<^bold>\<open>Results.\<close> \<open>unwind_step_correct\<close>, \<open>backtrace_of_call_stack\<close> and \<open>library_backtrace\<close> are the end-to-end statements:
  from the bytes of the modules and the words of the stack to the caller's frame and to the addresses that the device
  returns, and that the library returns in its first backtrace.
  They rest on the refinement of the CFI interpreter to DWARF's rows (\<open>cfi_program_implements_rows\<close>), the search
  (\<open>search_finds_governing_row\<close>), the parser (\<open>entry_parsed\<close>), the fast path (\<open>fast_path_matches_slow\<close>), the
  slow path (\<open>slow_path_restores\<close>) and the cache (\<open>cached_step_repeats\<close>, which also states the one bit that a step from the
  cache leaves out, and \<open>backtrace_keeps_cache\<close>). Threads that share the cache without
  a lock still get their own stacks (\<open>concurrent_backtraces\<close>). \<open>expression_value\<close> states of expressions that they are evaluated as the standard says. On
  arbitrary bytes the interpreters load nothing outside their buffers and end (\<open>cfi_program_safe\<close>,
  \<open>expression_safe\<close>, \<open>pointer_reader_bounded\<close>), an accepted CFI program leaves its state well-formed
  (\<open>cfi_program_keeps_state\<close>), and the stack of an expression is left only by \<open>DW_OP_pick 0\<close>. The device refines an abstract one
  in which processes are independent, as long as a file is released by the process that has opened it
  (\<open>device_implements_spec\<close>, \<open>processes_independent\<close>); without that it and the library are covered by
  invariants and balance (\<open>registered_processes_live\<close>, \<open>session_balanced\<close>, \<open>library_session_balanced\<close>). Opens that run
  at the same time behave as opens one after the other while their entries go to different chains of the registry
  (\<open>concurrent_opens_serializable\<close>), and may lose a registration where they do not (\<open>registration_lost\<close>). Where the code
  does something else than it means to, a theorem states what it does (\<open>sleb_sign_lost\<close>,
  \<open>cached_step_shifts_caller\<close>, \<open>search_below_table_faults\<close>, \<open>version4_rejected\<close>, \<open>slow_path_restores\<close>,
  \<open>unassigned_section_used\<close>, \<open>missing_header_outcome\<close>, \<open>foreign_release_frees\<close>, \<open>unload_releases_nothing\<close>).

  \<^bold>\<open>Conventions.\<close> The model is that of a 64-bit x86 kernel (the configuration \<^verbatim>\<open>STAPCONF_X86_UNIREGS\<close>), with
  \<open>compat_task\<close> as a parameter for 32-bit tasks, and \<^verbatim>\<open>DEBUG_UNWIND\<close> off but in \<open>Debug_Output\<close>. C integers are words of their
  width, so that sums wrap, signed ones too, as the kernel is compiled; an \<open>int\<close> return code is an \<open>int\<close>. Pointers are 64-bit words into the kernel memory.
  Undefined behaviour is a value \<open>Fault f\<close>: a load from an unmapped address, a shift by the width or more, an
  index out of an array, an uninitialised variable, unsequenced side effects, a division trap, the use of a
  freed object. What the code gets from the kernel is a parameter: the guarded access to the task's memory
  (\<open>uaccess\<close>), the hash functions, whether an allocation succeeds (\<open>e_alloc\<close> and the fields of \<open>kern\<close>), the
  pages and mappings, and the user's arguments of an ioctl. Out parameters are results; where the code fails, the
  partial updates that no caller reads are dropped. The registers of a frame are the words of \<open>pt_regs\<close>.

  \<^bold>\<open>Loops and fuel.\<close> \<open>run_cfi_program\<close> rejects a program of more than \<open>MAX_CFI\<close> (512) bytes, and every
  instruction takes one at least, so that \<open>cfi_loop\<close> has 512 as its fuel. \<open>expr_loop\<close>
  has the length of the expression as its fuel, as every operation moves the cursor forward. \<open>memchr0\<close>, \<open>aug_loop\<close> and
  \<open>full_loop\<close> have as fuel the length of the CIE, of the augmentation string, and the number of
  entries asked for; the lemma \<open>locate_rules_ends\<close> and the theorems \<open>expression_safe\<close>, \<open>cfi_program_safe\<close> and \<open>backtrace_correct\<close> show that
  this fuel is enough. The other loops are recursions with a termination proof.

  \<^bold>\<open>Not modelled.\<close> Where in the functions other than the dumps, the cache and the loading of the modules a message is printed; the
  unwinder as built for another architecture than x86-64, of which only the register tables and the filling of
  a frame are modelled; the test programs. In \<open>check_standard_frame\<close>
  the load of \<open>reg_info[cfa.reg]\<close> is left out, as its value is not used. \<open>PUSH\<close> of an expression with \<open>POP\<close> in it (\<open>DW_OP_not\<close>, \<open>DW_OP_neg\<close>,
  \<open>DW_OP_plus_uconst\<close>) changes \<open>sp\<close> twice without a sequence point, and the model stops there with the fault
  \<open>Unseq\<close>, as C gives what follows no meaning. The steps of the device allow the release of any file, the kernel that of open files. The thread flag that the
  first ioctl sets, and the memory of the cache's own nodes, are left out of what a process holds. But for
  \<open>Registration_Race\<close>, where opens interleave, and \<open>Shared_Backtrace\<close>, where backtraces do, calls are atomic, and the grace periods of read-copy-update are left out.
  Deletions that run beside other calls are not modelled: they write into the neighbours of an entry, which the chains here do not share.
  The self test of the cache runs in debug builds only.
\<close>

section \<open>A device for the witnesses\<close>

lemma ex_ioctl:
  "\<exists>w'. kunwind_backtrace_ioctl ex_env True (regs ex_frame) \<lparr>ba_max = Some 1, ba_put_nr = True, ba_copy = True\<rparr> 1
     \<lparr>kunw_map = ht_empty TYPE(3), objs = [0x1000 \<mapsto> ex_proc], private_data = (\<lambda>_. 0x1000),
      wres = \<lparr>pinned = {#}, vmaps = {#}, allocs = 1\<rparr>\<rparr> = Ok (0, Some [0x400050], w')"
proof -
  let ?bt = "\<lparr>max_entries = 1, nr_entries = 0, bt_entries = [], bt_null = False\<rparr>"
  obtain ctx' c where u: "unwind_frame ex_env ex_ctx True ex_proc = Ok (0, ctx', ex_proc\<lparr>unw_cache := c\<rparr>)"
    using ex_frames(1) by blast
  have "full_loop (Suc 0) ex_env ex_ctx ex_proc ?bt None =
      Ok (Some 0, ctx', ex_proc\<lparr>unw_cache := c\<rparr>, bt_push 0x400050 ?bt)"
    using u ex_start(1) by (simp add: full_loop_step full_loop_done)
  then have "unwind_full ex_env ex_ctx ex_proc ?bt = Ok (0, ctx', ex_proc\<lparr>unw_cache := c\<rparr>, bt_push 0x400050 ?bt)"
    by (simp add: unwind_full_def UNW_BOTTOM_def)
  then have "do_current_unwind ex_env (regs ex_frame) ex_proc ?bt =
      Ok (0, ctx', ex_proc\<lparr>unw_cache := c\<rparr>, bt_push 0x400050 ?bt)"
    by (simp add: do_current_unwind_def arch_unw_init_frame_info_def ex_ctx_def ex_frame_def)
  then show ?thesis
    by (simp add: kunwind_backtrace_ioctl_def file_mods_def entries_limit_def min_def Let_def)
qed

section \<open>From the library to the stack\<close>

lemma ioctl_of_call_stack:
  assumes "file_mods file w = Ok mods" "length rs = PT_REGS_WORDS"
    "call_chain e mods (rs ! PT_ip, rs ! PT_sp, rs ! PT_bp) pcs" "cache_good e mods (unw_cache mods)"
    "unw_cache_find_entry (e_hash e) (unw_cache mods) (rs ! PT_ip) = None" "mx \<noteq> 0"
  shows "\<exists>w' mods'. kunwind_backtrace_ioctl e True rs \<lparr>ba_max = Some mx, ba_put_nr = True, ba_copy = True\<rparr> file w =
      Ok (0, Some (take (unat (min mx entries_limit)) pcs), w') \<and>
    file_mods file w' = Ok mods' \<and> stp_modules mods' = stp_modules mods \<and> cache_good e mods' (unw_cache mods')"
proof -
  let ?bt = "\<lparr>max_entries = min mx entries_limit, nr_entries = 0, bt_entries = [], bt_null = False\<rparr>"
  let ?f = "\<lparr>regs = rs, call_frame = False\<rparr>"
  have v: "view ?f = (rs ! PT_ip, rs ! PT_sp, rs ! PT_bp)" "get_pc ?f = rs ! PT_ip"
    by (simp_all add: view_def get_pc_def UNW_PC_def UNW_SP_def UNW_BP_def)
  have "min mx entries_limit \<noteq> 0" using assms(6) by (simp add: min_def entries_limit_def)
  then obtain c' p' bt' where u: "unwind_full e \<lparr>info = ?f, stub = ?f, ustate = zero_state\<rparr> mods ?bt = Ok (0, c', p', bt')"
    "cache_good e mods (unw_cache p')" "bt_entries bt' = take (unat (min mx entries_limit)) pcs"
    using unwind_full_chain [of e mods "\<lparr>info = ?f, stub = ?f, ustate = zero_state\<rparr>" pcs ?bt] assms(2-5) v
    by (auto simp: wf_frame_def)
  then have d: "do_current_unwind e rs mods ?bt = Ok (0, c', p', bt')"
    by (simp add: do_current_unwind_def arch_unw_init_frame_info_def)
  have m: "stp_modules p' = stp_modules mods" by (rule current_unwind_modules [OF d])
  show ?thesis
    using assms(1,6) u(2,3) d m cache_good_modules [OF m]
    by (auto simp: kunwind_backtrace_ioctl_def Let_def file_mods_def set_mods_def)
qed

lemma init_file_mods:
  assumes "kunwind_init_proc_info u pi s = Ok (ret, Some fl, s1)"
  shows "\<exists>mods. file_mods fl (dev s1) = Ok mods \<and> unw_cache mods = unw_cache_init"
proof -
  obtain w q w1 where o: "kunwind_debug_open (u_hash u) (u_kmods u) (u_knode u) (u_compat u) (u_pid u) fl (dev s) = Ok (0, w)"
    and l: "kunwind_proc_info_ioctl (u_page u) (u_kern u) (u_mm u) (proc_info_copy (u_kcopy u) pi) fl w = Ok (q, w1)"
    and s1: "dev s1 = w1"
    using assms by (auto simp: kunwind_init_proc_info_def rbind_eq_Ok Let_def split: if_splits prod.splits)
  have "file_mods fl w = Ok \<lparr>stp_modules = [], unw_cache = unw_cache_init, mods_compat = u_compat u\<rparr>"
    using open_zero(3) [OF o] by (simp add: file_mods_def opened_def)
  from load_keeps_cache [OF this l] show ?thesis by (simp add: s1)
qed

text \<open>A kernel and an environment in which the library loads the module of the example.\<close>

definition ex_module_kern :: kern where
  "ex_module_kern = view_kern (\<lambda>u. ex_mem (u + (0x10000 - 0x400000))) ex_ua
     \<lparr>vm_start = 0x400000, vm_end = 0x401000, vm_pgoff = 0\<rparr> 0x10000"

lemma ex_module_kern_fields:
  "k_mem ex_module_kern = ex_mem"
  "k_find_vma ex_module_kern u = Some \<lparr>vm_start = 0x400000, vm_end = 0x401000, vm_pgoff = 0\<rparr>"
  "k_kmalloc ex_module_kern r" "k_pages ex_module_kern a n = Inr [0..<n]" "k_vmap ex_module_kern ps = 0x10000"
  "k_get_user ex_module_kern = user_word (\<lambda>u. ex_mem (u + (0x10000 - 0x400000)))"
  by (simp_all add: ex_module_kern_def view_kern_def)

lemma same_view_ex_module_kern: "same_view ex_module_kern"
  unfolding ex_module_kern_def by (rule same_view_view_kern)

definition ex_module_env :: uenv where
  "ex_module_env = ex_uenv\<lparr>u_kern := ex_module_kern\<rparr>"

lemma ex_hdr_word: "\<exists>w. load64 ex_mem 0x10100 = Ok w"
proof -
  have "load_bytes ex_mem 0x10100 (Suc (Suc (Suc (Suc (Suc (Suc (Suc (Suc 0)))))))) = Ok [1, 0x1b, 3, 0x3b, 0xfc, 0, 0, 0]"
    unfolding ex_mem_def ex_images by (simp add: mem_of_def map_add_def)
  then show ?thesis by (simp add: load64_def load_le_def numeral_eq_Suc)
qed

lemma ex_module_init:
  "\<exists>s. kunwind_init_proc_info ex_module_env (Some \<lparr>pi_size = 112, pi_nr = 1, pi_segments = [ex_linfo\<lparr>eh_frame_size := 72\<rparr>]\<rparr>)
     \<lparr>dev = dev0, uheap = 0\<rparr> = Ok (0, Some 1, s) \<and> file_mods 1 (dev s) = Ok ex_proc"
proof -
  let ?li = "ex_linfo\<lparr>eh_frame_size := 72\<rparr>"
  let ?v = "\<lparr>vm_start = 0x400000, vm_end = 0x401000, vm_pgoff = 0\<rparr>"
  have p: "[0..<vma_pages ?v] = [0]" by (simp add: vma_pages_def upt_rec)
  obtain x where x: "load64 ex_mem 0x10100 = Ok x" using ex_hdr_word by blast
  then have "k_get_user ex_module_kern 0x400100 = Inr x"
    unfolding ex_module_kern_fields user_word_def
    using load64_shift [of ex_mem "0x10000 - 0x400000" "0x400100" x] by simp
  then have "fill_module ex_module_kern ?li False ?v [0] 0x10000 = Ok (0, Some ex_mod, True)"
    using x by (simp add: fill_module_def ex_module_kern_fields(1) ex_linfo_def hdr_section_def given_section_def ex_mod_def Let_def)
  then have "\<exists>k. init_modules_from_proc_info ex_module_kern [?li] \<lparr>stp_modules = [], unw_cache = unw_cache_init, mods_compat = False\<rparr> (wres dev1) =
      Ok (0, ex_proc, k)"
    using p by (simp add: init_kunwind_stp_module_def ex_module_kern_fields(2-5) Let_def ex_proc_def)
  then obtain k where "init_modules_from_proc_info ex_module_kern [?li] \<lparr>stp_modules = [], unw_cache = unw_cache_init, mods_compat = False\<rparr> (wres dev1) =
      Ok (0, ex_proc, k)" by blast
  then have "kunwind_proc_info_ioctl (\<lambda>_. PinError) ex_module_kern None (PICopied 1 [?li]) 1 dev1 = Ok (0, set_mods 1 ex_proc k dev1)"
    using dev1_fields by (simp add: kunwind_proc_info_ioctl_def file_mods_def del: init_modules_from_proc_info.simps)
  then show ?thesis
    using dev1_open
    by (simp add: kunwind_init_proc_info_def ex_module_env_def ex_uenv_def proc_info_copy_def PROC_INFO_SIZE_def LOAD_INFO_SIZE_def
        syscall_ret_def file_mods_def set_mods_def)
qed

section \<open>Properties that span components\<close>

text \<open>
  C1. The backtrace of a whole call stack, from the bytes of the modules and the words of the stack to what the
  device returns: when the task's registers are those of a function, each frame of the stack has an entry
  in its module, not that of a signal frame, whose rules lead to its caller's frame, and the outermost one has no
  return address, the
  device returns 0 and the program counters of the frames, one before the return address for each caller,
  innermost first, as many as the buffer and the limit of 128 allow. The stack may be recursive and the cache may
  hold any of its frames but the innermost, as long as it holds what the entries say, which the backtrace keeps.
\<close>

theorem backtrace_of_call_stack:
  assumes "file_mods file w = Ok mods" "length rs = PT_REGS_WORDS"
    "call_chain e mods (rs ! PT_ip, rs ! PT_sp, rs ! PT_bp) pcs" "cache_good e mods (unw_cache mods)"
    "unw_cache_find_entry (e_hash e) (unw_cache mods) (rs ! PT_ip) = None" "mx \<noteq> 0"
  shows "\<exists>w' mods'. kunwind_backtrace_ioctl e True rs \<lparr>ba_max = Some mx, ba_put_nr = True, ba_copy = True\<rparr> file w =
      Ok (0, Some (take (unat (min mx entries_limit)) pcs), w') \<and>
    file_mods file w' = Ok mods' \<and> stp_modules mods' = stp_modules mods \<and> cache_good e mods' (unw_cache mods')"
  using assms by (rule ioctl_of_call_stack)

theorem backtrace_of_call_stack_witness:
  "\<exists>w'. kunwind_backtrace_ioctl ex_stack True (regs ex_frame) \<lparr>ba_max = Some 16, ba_put_nr = True, ba_copy = True\<rparr> 1
     \<lparr>kunw_map = ht_empty TYPE(3), objs = [0x1000 \<mapsto> ex_proc], private_data = (\<lambda>_. 0x1000),
      wres = \<lparr>pinned = {#}, vmaps = {#}, allocs = 1\<rparr>\<rparr> = Ok (0, Some [0x400050, 0x4000d0], w')"
proof -
  let ?w = "\<lparr>kunw_map = ht_empty TYPE(3), objs = [0x1000 \<mapsto> ex_proc], private_data = (\<lambda>_. 0x1000),
      wres = \<lparr>pinned = {#}, vmaps = {#}, allocs = 1\<rparr>\<rparr>"
  have "unw_cache ex_proc = unw_cache_init" by (simp add: ex_proc_def)
  moreover have "regs ex_frame ! PT_ip = 0x400050" "regs ex_frame ! PT_sp = 0x7ffdff00" "regs ex_frame ! PT_bp = 0x7ffe0000"
    "length (regs ex_frame) = PT_REGS_WORDS" by (simp_all add: ex_frame_def PT_REGS_WORDS_def)
  ultimately show ?thesis
    using backtrace_of_call_stack [of 1 ?w ex_proc "regs ex_frame" ex_stack "[0x400050, 0x4000d0]" 16]
      ex_chain cache_good_init uc.lookup_emp by (auto simp: file_mods_def entries_limit_def min_def)
qed

text \<open>
  C2. A first backtrace through the library: after \<open>kunwind_init_proc_info\<close> has returned a handle, when the modules
  that it has loaded describe the task's call stack, a backtrace into any structure that
  \<open>kunwind_backtrace_new\<close> has allocated returns 0 and the program counters of the frames, innermost first, as
  many as the structure and the limit of 128 allow, and their number; nothing is assumed of the cache, which is
  empty after the load.
\<close>

theorem library_backtrace:
  assumes "kunwind_init_proc_info u pi s = Ok (ret, Some fl, s1)" "file_mods fl (dev s1) = Ok mods"
    "kunwind_backtrace_new calloc_ok mx hp = (Some (bt, n), hp')" "length rs = PT_REGS_WORDS"
    "call_chain e mods (rs ! PT_ip, rs ! PT_sp, rs ! PT_bp) pcs"
  shows "\<exists>bt' s2. kunwind_backtrace_call e True rs True True fl (bt, n) s1 = Ok (0, Some bt', s2) \<and>
    bt_entries bt' = take (unat (min mx entries_limit)) pcs \<and> unat (nr_entries bt') = length (bt_entries bt')"
proof -
  have c: "unw_cache mods = unw_cache_init" using init_file_mods [OF assms(1)] assms(2) by auto
  have b: "max_entries bt = mx" "mx \<noteq> 0" "n = unat (scast mx :: u64)"
    using assms(3) by (auto simp: kunwind_backtrace_new_def Let_def split: if_splits)
  define ps where "ps = take (unat (min mx entries_limit)) pcs"
  obtain w' where i: "kunwind_backtrace_ioctl e True rs \<lparr>ba_max = Some mx, ba_put_nr = True, ba_copy = True\<rparr> fl (dev s1) =
      Ok (0, Some ps, w')"
    using ioctl_of_call_stack [OF assms(2,4,5) _ _ b(2)] cache_good_init [of e mods] uc.lookup_emp [of "e_hash e"] unfolding c ps_def by auto
  note l = ioctl_bounds [OF i]
  then have "length ps \<le> n" "length ps < 2 ^ 32" using unat_le_scast [of mx] b(3) by auto
  then show ?thesis
    using i by (simp add: ps_def [symmetric] kunwind_backtrace_call_def b(1) syscall_ret_def unsigned_of_nat take_bit_nat_eq_self_iff)
qed

theorem library_backtrace_witness:
  "\<exists>s1 bt' s2. kunwind_init_proc_info ex_module_env (Some \<lparr>pi_size = 112, pi_nr = 1, pi_segments = [ex_linfo\<lparr>eh_frame_size := 72\<rparr>]\<rparr>)
     \<lparr>dev = dev0, uheap = 0\<rparr> = Ok (0, Some 1, s1) \<and>
     kunwind_backtrace_call ex_stack True (regs ex_frame) True True 1
       (\<lparr>max_entries = 16, nr_entries = 0, bt_entries = [], bt_null = False\<rparr>, 16) s1 = Ok (0, Some bt', s2) \<and>
     bt_entries bt' = [0x400050, 0x4000d0]"
proof -
  obtain s1 where s1: "kunwind_init_proc_info ex_module_env (Some \<lparr>pi_size = 112, pi_nr = 1, pi_segments = [ex_linfo\<lparr>eh_frame_size := 72\<rparr>]\<rparr>)
     \<lparr>dev = dev0, uheap = 0\<rparr> = Ok (0, Some 1, s1)" "file_mods 1 (dev s1) = Ok ex_proc" using ex_module_init by blast
  have b: "kunwind_backtrace_new (\<lambda>_. True) 16 0 =
      (Some (\<lparr>max_entries = 16, nr_entries = 0, bt_entries = [], bt_null = False\<rparr>, 16), 2)"
    by (simp add: kunwind_backtrace_new_def)
  have "regs ex_frame ! PT_ip = 0x400050" "regs ex_frame ! PT_sp = 0x7ffdff00" "regs ex_frame ! PT_bp = 0x7ffe0000"
    "length (regs ex_frame) = PT_REGS_WORDS" by (simp_all add: ex_frame_def PT_REGS_WORDS_def)
  then show ?thesis
    using library_backtrace [OF s1 b, of "regs ex_frame" ex_stack "[0x400050, 0x4000d0]"] ex_chain s1(1)
    by (auto simp: entries_limit_def min_def)
qed

text \<open>
  C3. From the bytes of a module to the caller: when the table of the module leads the frame's program
  counter to an entry whose range holds it, and the row that the entry's CFI programs mean for that
  program counter is a standard one, a step of \<open>__unwind_frame\<close> with nothing cached returns 0, and
  leaves the return address read from below the CFA as the program counter, the CFA as the stack
  pointer and the frame pointer that the row gives; the caller's frame is marked as one that has made a call
  unless the entry is that of a signal frame.
\<close>

theorem unwind_step_correct:
  assumes "covers e km rows (get_pc (info ctx)) n startLoc" "wf_frame (info ctx)"
    "unw_cache_find_entry (e_hash e) cache (get_pc (info ctx)) = None"
    "prog_bytes (en_ci n) ci" "prog_bytes (en_fi n) fi"
    "row_for (en_parsed n) startLoc (get_pc (info ctx)) ci fi = Some w" "rm_loc w \<le> startLoc + en_rng n"
    "std_row (rm_row w) r off" "cfa = regs (info ctx) ! slot r + off"
    "read_word (e_ua e) False (cfa - 8) = Some ret"
    "row_bp (e_ua e) cfa (rm_row w) (UNW_BP (info ctx)) = Some bp"
  shows "\<exists>ctx' cache'. unwind_frame_step e km ctx cache = Ok (0, ctx', cache') \<and>
    UNW_PC (info ctx') = ret \<and> UNW_SP (info ctx') = cfa \<and> UNW_BP (info ctx') = bp \<and>
    (call_frame (info ctx') \<longleftrightarrow> AugS \<notin> set (en_aug n)) \<and> stub ctx' = stub ctx"
  using unwind_covered [OF assms] by blast

theorem unwind_step_correct_witness:
  "\<exists>ctx' cache'. unwind_frame_step ex_env ex_mod ex_ctx unw_cache_init = Ok (0, ctx', cache') \<and>
    UNW_PC (info ctx') = 0x500123 \<and> UNW_SP (info ctx') = 0x7ffe0010 \<and> UNW_BP (info ctx') = 0x7ffe0100"
proof -
  obtain w where w: "row_for (en_parsed ex_entry) 0x400040 0x400050 ex_ci ex_fi = Some w" "rm_loc w = 0x400044"
    "std_row (rm_row w) RBP 16" "row_rules (rm_row w) ! 6 = ROffset (- 16)" using ex_row by blast
  have "row_bp (e_ua ex_env) 0x7ffe0010 (rm_row w) (UNW_BP (info ex_ctx)) = Some 0x7ffe0100"
    using ex_words(2) by (simp add: row_bp_def w(4))
  moreover have "rm_loc w \<le> 0x400040 + en_rng ex_entry" by (simp add: w(2) ex_entry_def)
  ultimately show ?thesis
    using unwind_step_correct [of ex_env ex_mod ex_rows ex_ctx ex_entry "0x400040"]
      ex_covers ex_progs ex_start ex_miss ex_words(1) w(1,3) by metis
qed

text \<open>
  C5. The binary search: on the header and the sorted table that the GNU linker writes, the entry found
  for a program counter is that of the last row which does not lie beyond it, if the checks accept
  it, and none otherwise.
\<close>

theorem search_finds_governing_row:
  assumes "gnu_table m km rows" "governs km rows pc j"
    "check_fde m (row_fde km (rows ! j)) (sec_kbuf (ehf km)) (sec_size (ehf km)) True = Ok ok"
  shows "stp_search_fde m ua pc True user False km = Ok (if ok then row_fde km (rows ! j) else 0)"
  using search_fde_governs [OF assms(1,2)] assms(3) by simp

theorem search_finds_governing_row_witness:
  "stp_search_fde ex_mem ex_ua 0x400050 True True False ex_mod = Ok 0x10218"
proof -
  have "row_fde ex_mod (ex_rows ! 1) = 0x10218" using ex_governs(2) by (simp add: ex_entry_def)
  moreover have "check_fde ex_mem 0x10218 (sec_kbuf (ehf ex_mod)) (sec_size (ehf ex_mod)) True = Ok True"
    using check_fde_entry [OF ex_entry_at] by (simp add: ex_env_def ex_entry_def)
  ultimately show ?thesis
    using search_finds_governing_row [of ex_mem ex_mod ex_rows "0x400050" 1] ex_gnu_table ex_governs(1)
    by (simp add: ex_env_def)
qed

text \<open>
  C7. Parsing an entry: on the image of a CIE, of version 1 or with the layout of version 3, with an augmentation of "z" and any of "P", "L", "R" and "S" in any order,
  at least one of them with data, and of an FDE with any augmentation data and code pointers in any encoding that is not indirect, \<open>parse_fde_cie\<close> succeeds and returns the alignment factors, the return address register, the
  location and range of the function and the two CFI programs as the image has them.
\<close>

theorem entry_parsed:
  assumes "bytes_at m cie (cie_image ver augs code data ra cprog)" "bytes_at m fde (fde_image (code_type augs) ptr start rng lsda fprog)"
    "unat cie + 4 + length (cie_body ver augs code data ra cprog) < 2 ^ 64" "length (cie_body ver augs code data ra cprog) < 2 ^ 32"
    "unat fde + 4 + length (fde_body (code_type augs) ptr start rng lsda fprog) < 2 ^ 64" "length (fde_body (code_type augs) ptr start rng lsda fprog) < 2 ^ 32"
    "code \<noteq> 0" "ok_num code" "data \<noteq> 0" "ok_int data" "aug_data augs \<noteq> []"
    "personality_ok (cie + of_nat (cie_aug_pos ver augs code data ra)) augs" "fde_ptrs_ok (code_type augs) start rng"
  shows "parse_fde_cie m ua fde cie user False =
    Ok (Some (image_parsed cie fde ver augs code data ra cprog ptr start rng lsda fprog))"
  using assms by (rule parse_image)

theorem entry_parsed_witness:
  "\<exists>fc. parse_fde_cie (mem_of 0x1000 ([28, 0, 0, 0, 0, 0, 0, 0, 3, 122, 80, 76, 82, 0, 1, 120, 16, 7, 155, 16, 0, 0, 0,
      27, 27, 12, 7, 8, 144, 1, 0, 0] @ [24, 0, 0, 0, 36, 0, 0, 0, 0, 1, 0, 0, 32, 0, 0, 0, 4, 9, 9, 9, 9, 65, 14, 16, 0, 0, 0, 0]))
      ex_ua 0x1020 0x1000 True False = Ok (Some fc) \<and> fc_codeAlign fc = 1 \<and> fc_dataAlign fc = - 8 \<and>
     fc_retAddrReg fc = 16 \<and> fc_startLoc fc = 0x1128 \<and> fc_locRange fc = 0x20 \<and> fc_cieStart fc = 0x1019 \<and>
     fc_fdeStart fc = 0x1035 \<and> fc_call_frame fc"
proof -
  let ?augs = "[AugP 16, AugL 27, AugR 0x1b]"
  have t: "code_type ?augs = 0x1b" by (simp add: code_type_def)
  let ?m = "mem_of 0x1000 (cie_image 3 ?augs 1 (- 8) 16 [12, 7, 8, 144, 1, 0, 0] @
    fde_image 0x1b 36 256 32 [9, 9, 9, 9] [65, 14, 16, 0, 0, 0, 0])"
  have i: "cie_image 3 ?augs 1 (- 8) 16 [12, 7, 8, 144, 1, 0, 0] =
      [28, 0, 0, 0, 0, 0, 0, 0, 3, 122, 80, 76, 82, 0, 1, 120, 16, 7, 155, 16, 0, 0, 0, 27, 27, 12, 7, 8, 144, 1, 0, 0]"
    "fde_image 0x1b 36 256 32 [9, 9, 9, 9] [65, 14, 16, 0, 0, 0, 0] =
      [24, 0, 0, 0, 36, 0, 0, 0, 0, 1, 0, 0, 32, 0, 0, 0, 4, 9, 9, 9, 9, 65, 14, 16, 0, 0, 0, 0]"
    by (simp_all add: cie_image_def cie_body_def ra_enc_def fde_image_def fde_body_def aug_data_def w32_def ptr_1b le_bytes_def upt_rec uleb_enc.simps sleb_enc.simps)
  have l: "length (cie_body 3 ?augs 1 (- 8) 16 [12, 7, 8, 144, 1, 0, 0]) = 28"
    "length (fde_body 0x1b 36 256 32 [9, 9, 9, 9] [65, 14, 16, 0, 0, 0, 0]) = 24" "cie_aug_pos 3 ?augs 1 (- 8) 16 = 18"
    by (simp_all add: cie_body_def ra_enc_def fde_body_def aug_data_def ptr_1b cie_pos_defs uleb_enc.simps sleb_enc.simps)
  have b: "bytes_at ?m 0x1000 (cie_image 3 ?augs 1 (- 8) 16 [12, 7, 8, 144, 1, 0, 0])"
    "bytes_at ?m 0x1020 (fde_image (code_type ?augs) 36 256 32 [9, 9, 9, 9] [65, 14, 16, 0, 0, 0, 0])"
    unfolding t i by (simp_all add: mem_of_def)
  have "parse_fde_cie ?m ex_ua 0x1020 0x1000 True False = Ok (Some (image_parsed 0x1000 0x1020 3 ?augs 1 (- 8) 16
      [12, 7, 8, 144, 1, 0, 0] 36 256 32 [9, 9, 9, 9] [65, 14, 16, 0, 0, 0, 0]))"
    by (rule entry_parsed [OF b]) (simp_all add: t ptr_1b l [unfolded One_nat_def] aug_data_def ok_num_def ok_int_def)
  then show ?thesis unfolding i by (simp add: image_parsed_def Let_def t ptr_1b l [unfolded One_nat_def])
qed

text \<open>
  C10. What the cache changes of a step, and what it does not: when a step without a cached description has
  put one in the cache, and the fast path succeeds with it, the same step taken again from the cache
  returns the same code and the same frame but for one bit. The step through the table has set
  \<open>call_frame\<close> from the augmentation of the entry it has found; the step from the cache leaves
  \<open>call_frame\<close> as it was before. No register differs, and the cache is left as it is.
\<close>

theorem cached_step_repeats:
  assumes "ht_wf (e_hash e) tpc c" "unw_cache_find_entry (e_hash e) c (get_pc (info ctx)) = None"
    "unwind_frame_step e km ctx c = Ok (r, ctx1, c1)"
    "unw_cache_find_entry (e_hash e) c1 (get_pc (info ctx)) = Some t"
    "apply_tdep_state (e_ua e) (info ctx) t (e_compat e) True = Ok (True, f)"
  shows "unwind_frame_step e km ctx c1 =
      Ok (r, ctx\<lparr>info := (info ctx1)\<lparr>call_frame := call_frame (info ctx)\<rparr>\<rparr>, c1) \<and>
    (\<exists>(fc :: fde_cie) sl el. locate_rules e km (get_pc (info ctx)) = Ok (LFound fc sl el) \<and>
      call_frame (info ctx1) = fc_call_frame fc)"
  using assms by (rule cache_transparent)

theorem cached_step_repeats_witness:
  "\<exists>ctx1 c1. unwind_frame_step ex_env ex_mod ex_ctx unw_cache_init = Ok (0, ctx1, c1) \<and>
    unw_cache_find_entry (e_hash ex_env) c1 0x400050 \<noteq> None \<and>
    unwind_frame_step ex_env ex_mod ex_ctx c1 = Ok (0, ex_ctx\<lparr>info := (info ctx1)\<lparr>call_frame := False\<rparr>\<rparr>, c1)"
proof -
  let ?c = "unw_cache_init" and ?h = "e_hash ex_env"
  obtain ctx' t where s: "unwind_frame_step ex_env ex_mod ex_ctx ?c = Ok (0, ctx', unw_cache_add_entry ?h True t ?c)"
    "tpc t = 0x400050"
    and a: "apply_tdep_state (e_ua ex_env) ((info ex_ctx)\<lparr>call_frame := True\<rparr>) t False True = Ok (True, info ctx')"
    using ex_step by blast
  have "(info ex_ctx)\<lparr>call_frame := True, call_frame := False\<rparr> = info ex_ctx"
    by (simp add: ex_ctx_def ex_frame_def)
  then have "apply_tdep_state (e_ua ex_env) (info ex_ctx) t (e_compat ex_env) True =
      Ok (True, (info ctx')\<lparr>call_frame := False\<rparr>)"
    using apply_tdep_call_frame [OF a, of False] by (simp add: ex_env_def)
  moreover have "unw_cache_find_entry ?h (unw_cache_add_entry ?h True t ?c) (get_pc (info ex_ctx)) = Some t"
    using uc.lookup_add [OF uc.inv_emp] uc.lookup_emp s(2) ex_start(1) by simp
  ultimately show ?thesis
    using cached_step_repeats [OF uc.inv_emp uc.lookup_emp s(1)] s(1) ex_start(1)
    by (fastforce simp: ex_ctx_def ex_frame_def)
qed

text \<open>
  C34. What the cache holds: a backtrace from any frame, with any outcome, that starts with a cache in which every
  description is the one that the module's entry for its program counter gives, ends with such a cache.
\<close>

theorem backtrace_keeps_cache:
  assumes "unwind_full e c p bt = Ok (r, c', p', bt')" "cache_good e p (unw_cache p)"
  shows "cache_good e p (unw_cache p')"
  using assms by (rule cache_good_unwind_full)

theorem backtrace_keeps_cache_witness:
  "\<exists>c' p' bt'. unwind_full ex_stack ex_ctx ex_proc ex_bt = Ok (0, c', p', bt') \<and> cache_good ex_stack ex_proc (unw_cache p')"
proof -
  have g: "cache_good ex_stack ex_proc (unw_cache ex_proc)"
    "unw_cache_find_entry (e_hash ex_stack) (unw_cache ex_proc) pc = None" for pc
    using cache_good_init uc.lookup_emp by (simp_all add: ex_proc_def)
  have "view (info ex_ctx) = (0x400050, 0x7ffdff00, 0x7ffe0000)" by code_simp
  then obtain c' p' bt' where "unwind_full ex_stack ex_ctx ex_proc ex_bt = Ok (0, c', p', bt')"
    using unwind_full_chain [of ex_stack ex_proc ex_ctx "[0x400050, 0x4000d0]" ex_bt] ex_chain ex_start(2) g
    by (auto simp: ex_bt_def)
  then show ?thesis using backtrace_keeps_cache g(1) by blast
qed

text \<open>
  C11. A whole backtrace, on every branch, when every step from the contexts that an invariant \<open>P\<close>
  describes returns. Without entries or with room for none, \<open>unwind_full\<close> returns \<open>-EINVAL\<close>. When the
  first program counter is already 0 it returns its variable \<open>ret\<close> unassigned. Otherwise its entries
  are the program counters of successive frames, each the result of a step that returned 0, and it has
  stopped for one of three reasons: the buffer is full, the program counter is 0 (both reported as 0),
  or a step returned another code, whose frame is the last entry and which is reported, the bottom of
  the stack as 0. A partial backtrace that ends in a failing step is so reported with that step's code;
  the README's last Todo item says that success is reported for it.
\<close>

theorem backtrace_correct:
  assumes "\<And>c p. P c p \<Longrightarrow> \<exists>r c' p'. unwind_frame e c True p = Ok (r, c', p') \<and> P c' p'"
    "P c p"
  shows "if bt_null bt \<or> max_entries bt = 0 then unwind_full e c p bt = Ok (- EINVAL, c, p, bt)
    else if get_pc (info c) = 0 then unwind_full e c p bt = Fault Uninit
    else \<exists>r c' p' bt'. unwind_full e c p bt = Ok (r, c', p', bt') \<and>
      nr_entries bt' \<le> max_entries bt \<and> length (bt_entries bt') = unat (nr_entries bt') \<and>
      (\<exists>pcs c1 p1. steps e c p pcs c1 p1 \<and>
        (if get_pc (info c1) = 0 \<or> length pcs = unat (max_entries bt)
         then bt_entries bt' = pcs \<and> pcs \<noteq> [] \<and> r = 0
         else bt_entries bt' = pcs @ [get_pc (info c1)] \<and>
           (\<exists>code. code \<noteq> 0 \<and> unwind_frame e c1 True p1 = Ok (code, c', p') \<and>
              r = (if code = UNW_BOTTOM then 0 else code))))"
proof (cases "bt_null bt \<or> max_entries bt = 0 \<or> get_pc (info c) = 0")
  case True
  then show ?thesis using backtrace_from_zero_undefined [of c bt e p] by (auto simp: unwind_full_def)
next
  case False
  then obtain r c' p' bt' where "unwind_full e c p bt = Ok (r, c', p', bt')"
    using unwind_full_returns [of P e c p bt] assms by blast
  with unwind_full_spec [OF this] False show ?thesis by simp
qed

theorem backtrace_correct_witness:
  "\<exists>ctx' p' bt'. unwind_full ex_env ex_ctx ex_proc ex_bt = Ok (- EINVAL, ctx', p', bt') \<and>
     bt_entries bt' = [0x400050, 0x500122]"
proof -
  obtain ctx1 c1 where u: "unwind_frame ex_env ex_ctx True ex_proc = Ok (0, ctx1, ex_proc\<lparr>unw_cache := c1\<rparr>)"
    "get_pc (info ctx1) = 0x500122" using ex_frames(1) by blast
  note v = ex_frames(2) [OF u(2), of c1]
  let ?P = "\<lambda>c p. c = ex_ctx \<and> p = ex_proc \<or> c = ctx1 \<and> p = ex_proc\<lparr>unw_cache := c1\<rparr>"
  have "get_pc (info ex_ctx) \<noteq> 0" "\<not> (bt_null ex_bt \<or> max_entries ex_bt = 0)"
    using ex_start(1) by (simp_all add: ex_bt_def)
  moreover have "\<exists>r c' p'. unwind_frame ex_env c True p = Ok (r, c', p') \<and> ?P c' p'" if "?P c p" for c p
    using that u v by auto
  ultimately obtain r c' p' bt' pcs d q where b: "unwind_full ex_env ex_ctx ex_proc ex_bt = Ok (r, c', p', bt')"
    "steps ex_env ex_ctx ex_proc pcs d q"
    "if get_pc (info d) = 0 \<or> length pcs = unat (max_entries ex_bt)
       then bt_entries bt' = pcs \<and> pcs \<noteq> [] \<and> r = 0
       else bt_entries bt' = pcs @ [get_pc (info d)] \<and>
         (\<exists>code. code \<noteq> 0 \<and> unwind_frame ex_env d True q = Ok (code, c', p') \<and>
            r = (if code = UNW_BOTTOM then 0 else code))"
    using backtrace_correct [of ?P ex_env ex_ctx ex_proc ex_bt] by auto
  have "length pcs \<le> 1 \<and> (pcs = [] \<longrightarrow> d = ex_ctx \<and> q = ex_proc) \<and>
      (\<forall>pc. pcs = [pc] \<longrightarrow> pc = 0x400050 \<and> d = ctx1 \<and> q = ex_proc\<lparr>unw_cache := c1\<rparr>)"
    using b(2) u v ex_start(1) by (cases pcs; cases "tl pcs") (auto simp: EINVAL_def)
  then show ?thesis
    using b(1,3) u v ex_start(1)
    by (cases pcs) (auto simp: ex_bt_def EINVAL_def UNW_BOTTOM_def split: if_splits)
qed

text \<open>
  C38. A program counter below the first row: the search keeps the null pointer as its entry and has
  \<open>check_fde\<close> load through it, which oopses wherever the page at 0 is not mapped.
\<close>

theorem search_below_table_faults:
  assumes "gnu_table m km rows" "pc < row_loc km (hd rows)" "m 0 = None"
  shows "stp_search_fde m ua pc True user False km = Fault (BadRead 0)"
proof -
  have "load32 m 0 = Fault (BadRead 0)"
    using assms(3) by (simp add: load32_def load_le_def load8_def numeral_eq_Suc)
  then show ?thesis
    using search_fde_gnu [OF assms(1), of ua pc user] assms(2) by (auto simp: check_fde_def not_le [symmetric])
qed

theorem search_below_table_faults_witness:
  "stp_search_fde ex_mem ex_ua 0x400010 True True False ex_mod = Fault (BadRead 0)"
proof -
  have "row_loc ex_mod (hd ex_rows) = 0x400020" by (simp add: row_loc_def ex_mod_def ex_rows_def)
  moreover have "ex_mem 0 = None"
    unfolding ex_mem_def ex_images by (simp add: mem_of_def map_add_def)
  ultimately show ?thesis
    using search_below_table_faults [of ex_mem ex_mod ex_rows "0x400010"] ex_gnu_table
    by (simp add: ex_env_def)
qed

text \<open>
  C30. The module of a program counter: when no other module overlaps the one that holds it, and none ends
  exactly at it, \<open>kunw_mod_lookup\<close> finds that module, wherever it is in the list.
\<close>

theorem lookup_finds_module:
  assumes "km \<in> set (stp_modules p)" "vm_start (elf_vma km) \<le> pc" "pc < vm_end (elf_vma km)"
    "\<forall>km' \<in> set (stp_modules p). km' \<noteq> km \<longrightarrow> vm_end (elf_vma km') < pc \<or> vm_end (elf_vma km) \<le> vm_start (elf_vma km')"
  shows "kunw_mod_lookup pc p = Some km"
proof -
  let ?Q = "\<lambda>pos. vm_start (elf_vma pos) \<le> pc \<and> pc \<le> vm_end (elf_vma pos)"
  have "\<exists>km'. find ?Q (stp_modules p) = Some km'"
    using assms(1-3) by (auto simp: not_None_eq [symmetric] find_None_iff)
  then obtain km' where f: "find ?Q (stp_modules p) = Some km'" by blast
  then have "?Q km'" "km' \<in> set (stp_modules p)" by (auto simp: find_Some_iff)
  then have "km' = km" using assms(3,4) by (meson leD le_less_trans less_le_trans)
  then show ?thesis using f by (simp add: kunw_mod_lookup_def)
qed

theorem lookup_finds_module_witness:
  "kunw_mod_lookup 0x400050 \<lparr>stp_modules = [ex_mod\<lparr>elf_vma := \<lparr>vm_start = 0x300000, vm_end = 0x400000, vm_pgoff = 0\<rparr>\<rparr>, ex_mod],
     unw_cache = unw_cache_init, mods_compat = False\<rparr> = Some ex_mod"
  by (rule lookup_finds_module) (simp_all add: ex_mod_def)

text \<open>
  C31. The CIE of an accepted FDE: it starts inside the section, has a body longer than its fixed part,
  and ends before the body of the FDE that refers to it, hence inside the section too.
\<close>

theorem cie_lies_before_fde:
  assumes "check_fde m fde (sec_kbuf sec) (sec_size sec) True = Ok True"
    "cie_for_fde m fde sec True = Ok cie" "cie \<noteq> 0" "sec_kbuf sec \<le> fde" "unat fde + 4 < 2 ^ 64"
  shows "\<exists>len. load32 m cie = Ok len \<and> sec_kbuf sec \<le> cie \<and> 8 < unat len \<and>
    unat cie + 4 + unat len < unat fde + 4"
proof -
  obtain ptr where p: "load32 m (fde + 4) = Ok ptr" "ptr \<noteq> 0"
    using assms(1) by (auto simp: check_fde_def has_cie_id_def Let_def rbind_eq_Ok split: if_splits)
  obtain len where l: "load32 m cie = Ok len" "cie = fde + 4 - ucast ptr" "sec_kbuf sec \<le> cie"
    "ucast ptr \<le> fde + 4 - sec_kbuf sec" "(8 :: u64) < ucast len" "(ucast len :: u64) < ucast ptr - 4"
    "ptr AND 3 = 0"
    using cie_for_fde_pos [OF assms(2,3) p(1)] by metis
  have u: "unat (ucast x :: u64) = unat x" for x :: u32
    by (simp add: unsigned_ucast_eq take_bit_nat_eq_self_iff less_trans [OF unsigned_less])
  have f4: "unat (fde + 4) = unat fde + 4" using unat_add_nowrap [of fde 4] assms(5) by simp
  have "unat (fde + 4 - sec_kbuf sec) = unat fde + 4 - unat (sec_kbuf sec)"
    using assms(4) f4 by (simp add: unat_sub word_le_nat_alt)
  then have le: "unat ptr \<le> unat fde + 4 - unat (sec_kbuf sec)" using l(4) by (simp add: word_le_nat_alt u)
  then have c: "unat cie = unat fde + 4 - unat ptr"
    unfolding l(2) using f4 by (simp add: unat_sub word_le_nat_alt u)
  have nz: "(ucast ptr :: u64) \<noteq> 0" using p(2) u [of ptr] by (metis unat_eq_zero)
  have "unat (ucast ptr div 4 :: u64) = unat ptr div 4" by (simp add: unat_div u)
  then have "4 \<le> (ucast ptr :: u64)"
    using aligned_div4 [OF l(7)] nz by (cases "unat ptr < 4") (auto simp: word_le_nat_alt u unat_eq_zero)
  then have "unat (ucast ptr - 4 :: u64) = unat ptr - 4" "4 \<le> unat ptr" by (simp_all add: unat_sub word_le_nat_alt u)
  then have "unat len < unat ptr - 4" "8 < unat len" using l(5,6) by (simp_all add: word_less_nat_alt u)
  then show ?thesis using l(1,3) c le by auto
qed

theorem cie_lies_before_fde_witness:
  "\<exists>len. load32 ex_mem 0x10200 = Ok len \<and> 8 < unat len \<and> 0x10200 + 4 + unat len < 0x1021c"
proof -
  have s: "sec_kbuf (ehf ex_mod) = 0x10200" by (simp add: ex_mod_def)
  have "check_fde ex_mem 0x10218 (sec_kbuf (ehf ex_mod)) (sec_size (ehf ex_mod)) True = Ok True"
    "cie_for_fde ex_mem 0x10218 (ehf ex_mod) True = Ok 0x10200"
    using check_fde_entry [OF ex_entry_at] cie_for_fde_entry [OF ex_entry_at] by (simp_all add: ex_env_def ex_entry_def)
  from cie_lies_before_fde [OF this] show ?thesis by (simp add: s)
qed

text \<open>
  C37. The cache and the caller's program counter: for the frame that a backtrace starts with, not that of a signal, a step that finds the entry in
  the table marks the caller's frame as one that has made a call, so that the program counter reported is one before the
  return address; the same step from the cache does not, so that a later backtrace reports the return address itself.
\<close>

theorem cached_step_shifts_caller:
  assumes "covers e km rows (get_pc (info ctx)) n startLoc" "wf_frame (info ctx)"
    "unw_cache_find_entry (e_hash e) cache (get_pc (info ctx)) = None"
    "prog_bytes (en_ci n) ci" "prog_bytes (en_fi n) fi"
    "row_for (en_parsed n) startLoc (get_pc (info ctx)) ci fi = Some w" "rm_loc w \<le> startLoc + en_rng n"
    "std_row (rm_row w) r off" "cfa = regs (info ctx) ! slot r + off"
    "read_word (e_ua e) False (cfa - 8) = Some ret"
    "row_bp (e_ua e) cfa (rm_row w) (UNW_BP (info ctx)) = Some bp"
    "ht_wf (e_hash e) tpc cache" "e_alloc e" "\<not> call_frame (info ctx)" "AugS \<notin> set (en_aug n)"
  shows "\<exists>ctx1 c1 ctx2. unwind_frame_step e km ctx cache = Ok (0, ctx1, c1) \<and> get_pc (info ctx1) = ret - 1 \<and>
    unwind_frame_step e km ctx c1 = Ok (0, ctx2, c1) \<and> get_pc (info ctx2) = ret"
proof -
  obtain ctx1 t where s: "unwind_frame_step e km ctx cache = Ok (0, ctx1, unw_cache_add_entry (e_hash e) (e_alloc e) t cache)"
    "tpc t = get_pc (info ctx)"
    "apply_tdep_state (e_ua e) ((info ctx)\<lparr>call_frame := True\<rparr>) t (e_compat e) True = Ok (True, info ctx1)"
    "UNW_PC (info ctx1) = ret" "call_frame (info ctx1)"
    using unwind_covered [OF assms(1-11)] assms(15) by auto
  let ?c1 = "unw_cache_add_entry (e_hash e) (e_alloc e) t cache"
  have f: "unw_cache_find_entry (e_hash e) ?c1 (get_pc (info ctx)) = Some t"
    using find_add_entry [OF assms(12)] assms(3,13) s(2) by simp
  have i: "(info ctx)\<lparr>call_frame := True, call_frame := False\<rparr> = info ctx" using assms(14) by (cases "info ctx") simp
  have a: "apply_tdep_state (e_ua e) (info ctx) t (e_compat e) True = Ok (True, (info ctx1)\<lparr>call_frame := False\<rparr>)"
    using apply_tdep_call_frame [OF s(3), of False] i by simp
  note b = cache_transparent [OF assms(12,3) s(1) f a]
  then show ?thesis using s(1,4,5) assms(14)
    by (intro exI [of _ ctx1] exI [of _ ?c1] exI [of _ "ctx\<lparr>info := (info ctx1)\<lparr>call_frame := False\<rparr>\<rparr>"])
      (simp add: get_pc_def UNW_PC_def)
qed

theorem cached_step_shifts_caller_witness:
  "\<exists>ctx1 c1 ctx2. unwind_frame_step ex_env ex_mod ex_ctx unw_cache_init = Ok (0, ctx1, c1) \<and> get_pc (info ctx1) = 0x500122 \<and>
     unwind_frame_step ex_env ex_mod ex_ctx c1 = Ok (0, ctx2, c1) \<and> get_pc (info ctx2) = 0x500123"
proof -
  obtain w where w: "row_for (en_parsed ex_entry) 0x400040 0x400050 ex_ci ex_fi = Some w" "rm_loc w = 0x400044"
    "std_row (rm_row w) RBP 16" "row_rules (rm_row w) ! 6 = ROffset (- 16)" using ex_row by blast
  have "row_bp (e_ua ex_env) 0x7ffe0010 (rm_row w) (UNW_BP (info ex_ctx)) = Some 0x7ffe0100"
    using ex_words(2) by (simp add: row_bp_def w(4))
  moreover have "rm_loc w \<le> 0x400040 + en_rng ex_entry" by (simp add: w(2) ex_entry_def)
  moreover have "e_alloc ex_env" "\<not> call_frame (info ex_ctx)" by (simp_all add: ex_env_def ex_ctx_def ex_frame_def)
  ultimately show ?thesis
    using cached_step_shifts_caller [of ex_env ex_mod ex_rows ex_ctx ex_entry "0x400040" unw_cache_init ex_ci ex_fi w RBP 16
        "0x7ffe0010" "0x500123" "0x7ffe0100"]
      ex_covers ex_progs ex_start ex_miss ex_words(1) w(1,3) uc.inv_emp by simp
qed

text \<open>
  C32. A backtrace into a structure of the library: for any structure that \<open>kunwind_backtrace_new\<close> has allocated, the
  kernel writes no entry outside its buffer, whenever its ioctl returns; on success there is an entry, and their number is the one stated.
\<close>

theorem backtrace_fits_buffer:
  assumes "kunwind_backtrace_new calloc_ok mx hp = (Some (bt, n), hp')"
    "kunwind_backtrace_ioctl e ok rs \<lparr>ba_max = Some (max_entries bt), ba_put_nr = put_nr, ba_copy = copy\<rparr> fl (dev s) = Ok (r, out, w)"
  shows "\<exists>bt'. kunwind_backtrace_call e ok rs put_nr copy fl (bt, n) s = Ok (syscall_ret r, bt', s\<lparr>dev := w\<rparr>) \<and>
    (case bt' of None \<Rightarrow> r < 0
     | Some b \<Rightarrow> r = 0 \<and> unat (nr_entries b) = length (bt_entries b) \<and> length (bt_entries b) \<le> n \<and> bt_entries b \<noteq> [])"
proof (cases out)
  case None
  then have "r < 0" using assms(2) ioctl_error by blast
  then show ?thesis using assms(2) None by (simp add: kunwind_backtrace_call_def)
next
  case (Some pcs)
  note b = ioctl_bounds [OF assms(2) [unfolded Some]]
  have "max_entries bt = mx" "n = unat (scast mx :: u64)"
    using assms(1) by (auto simp: kunwind_backtrace_new_def Let_def split: if_splits)
  then have "length pcs \<le> n" "length pcs < 2 ^ 32" using b unat_le_scast [of mx] by auto
  then show ?thesis
    using assms(2) Some b by (simp add: kunwind_backtrace_call_def unsigned_of_nat take_bit_nat_eq_self_iff)
qed

theorem backtrace_fits_buffer_witness:
  "\<exists>bt'. kunwind_backtrace_call ex_env True (regs ex_frame) True True 1
     (\<lparr>max_entries = 1, nr_entries = 0, bt_entries = [], bt_null = False\<rparr>, 1)
     \<lparr>dev = \<lparr>kunw_map = ht_empty TYPE(3), objs = [0x1000 \<mapsto> ex_proc], private_data = (\<lambda>_. 0x1000),
        wres = \<lparr>pinned = {#}, vmaps = {#}, allocs = 1\<rparr>\<rparr>, uheap = 2\<rparr> = Ok bt'"
proof -
  have "kunwind_backtrace_new (\<lambda>_. True) 1 0 =
      (Some (\<lparr>max_entries = 1, nr_entries = 0, bt_entries = [], bt_null = False\<rparr>, 1), 2)"
    by (simp add: kunwind_backtrace_new_def)
  then show ?thesis
    using ex_ioctl backtrace_fits_buffer [of "\<lambda>_. True" 1 0 "\<lparr>max_entries = 1, nr_entries = 0, bt_entries = [], bt_null = False\<rparr>" 1 2
        ex_env True "regs ex_frame" True True 1
        "\<lparr>dev = \<lparr>kunw_map = ht_empty TYPE(3), objs = [0x1000 \<mapsto> ex_proc], private_data = (\<lambda>_. 0x1000),
        wres = \<lparr>pinned = {#}, vmaps = {#}, allocs = 1\<rparr>\<rparr>, uheap = 2\<rparr>"] by fastforce
qed

end
